(* ===== verification/Prelude.thy ===== *)
theory Prelude
  imports Main "HOL-Library.Word" "HOL-Library.Multiset"
begin

text \<open>
  Shared by every component of the development: the C types the programs use, the ways a
  C program stops short of a result (\<open>fault\<close>), the time stamps of \<open>sys/time.h\<close> with their
  order, and the lemmas on lists and on index swaps the component proofs rest on.
\<close>

section \<open>Collections of facts\<close>

named_theorems fault_simps \<open>unfolding rules of the fault-carrying operations\<close>
named_theorems wf_intros \<open>preservation of the well-formedness predicates\<close>

section \<open>Machine types\<close>

type_synonym u8 = "8 word"
type_synonym u16 = "16 word"
type_synonym u32 = "32 word"
type_synonym ino_t = "64 word"

text \<open>A C \<open>int\<close> is kept as a mathematical integer; its largest value bounds it.\<close>

definition INT_MAX :: int where
  "INT_MAX = 2147483647"

text \<open>The remainder \<open>%\<close> of C truncates towards zero.\<close>

definition c_rem :: "int \<Rightarrow> int \<Rightarrow> int" where
  "c_rem a b = sgn a * (\<bar>a\<bar> mod \<bar>b\<bar>)"

lemma c_rem_nonneg: "0 \<le> a \<Longrightarrow> 0 < b \<Longrightarrow> c_rem a b = a mod b"
  by (cases "a = 0") (simp_all add: c_rem_def)

section \<open>Faults\<close>

text \<open>
  What a C function can do instead of returning: read or write outside an object, follow a
  null pointer, touch an object after \<open>free\<close>, overflow a signed integer, fail an
  \<open>assert\<close>, or leave the process through \<open>exit\<close> with a status.
\<close>

datatype fault = OutOfBounds | NullDeref | UseAfterFree | IntOverflow | AssertFailed | Exit int

type_synonym 'a res = "fault + 'a"

fun is_ok :: "'a res \<Rightarrow> bool" where
  "is_ok (Inr _) = True"
| "is_ok (Inl _) = False"

lemma is_ok_iff: "is_ok r \<longleftrightarrow> (\<exists>x. r = Inr x)"
  by (cases r) auto

definition res_bind :: "'a res \<Rightarrow> ('a \<Rightarrow> 'b res) \<Rightarrow> 'b res" where
  "res_bind m f = (case m of Inl e \<Rightarrow> Inl e | Inr x \<Rightarrow> f x)"

lemma res_bind_simps [simp, fault_simps]:
  "res_bind (Inl e) f = Inl e"
  "res_bind (Inr x) f = f x"
  by (simp_all add: res_bind_def)

lemma res_bind_Inr_iff:
  "res_bind m f = Inr y \<longleftrightarrow> (\<exists>x. m = Inr x \<and> f x = Inr y)"
  by (cases m) auto

lemma res_bindE:
  assumes "res_bind m f = Inr y"
  obtains x where "m = Inr x" and "f x = Inr y"
  using assms by (auto simp: res_bind_Inr_iff)

lemma res_bind_cong [fundef_cong]:
  "m = m' \<Longrightarrow> (\<And>x. m' = Inr x \<Longrightarrow> f x = g x) \<Longrightarrow> res_bind m f = res_bind m' g"
  by (cases m') auto

text \<open>
  A result that is no invalid memory access: the program returned, or it left in an orderly way or
  overflowed a counter.
\<close>

fun mem_safe :: "'a res \<Rightarrow> bool" where
  "mem_safe (Inr x) = True"
| "mem_safe (Inl e) = (e \<noteq> OutOfBounds \<and> e \<noteq> NullDeref \<and> e \<noteq> UseAfterFree)"

lemma mem_safe_bind:
  "mem_safe m \<Longrightarrow> (\<And>x. m = Inr x \<Longrightarrow> mem_safe (f x)) \<Longrightarrow> mem_safe (res_bind m f)"
  by (cases m) auto

section \<open>Time stamps\<close>

text \<open>\<open>struct timeval\<close>: seconds and microseconds, ordered as \<open>timercmp\<close> compares them.\<close>

datatype timeval = Timeval (tv_sec: int) (tv_usec: int)

definition timercmp_less :: "timeval \<Rightarrow> timeval \<Rightarrow> bool" where
  "timercmp_less a b =
     (if tv_sec a = tv_sec b then tv_usec a < tv_usec b else tv_sec a < tv_sec b)"

instantiation timeval :: linorder
begin

definition less_timeval :: "timeval \<Rightarrow> timeval \<Rightarrow> bool" where
  "less_timeval a b = timercmp_less a b"

definition less_eq_timeval :: "timeval \<Rightarrow> timeval \<Rightarrow> bool" where
  "less_eq_timeval a b = (a = b \<or> timercmp_less a b)"

instance
  by standard
    (auto simp: less_timeval_def less_eq_timeval_def timercmp_less_def timeval.expand
      split: if_splits)

end

lemma timercmp_less_iff: "timercmp_less a b \<longleftrightarrow> a < b"
  by (simp add: less_timeval_def)

section \<open>Lists and index swaps\<close>

text \<open>A C array update exchanges two cells; the order of the cells read does not matter.\<close>

definition swap_nth :: "'a list \<Rightarrow> nat \<Rightarrow> nat \<Rightarrow> 'a list" where
  "swap_nth xs i j = xs[i := xs ! j, j := xs ! i]"

lemma length_swap_nth [simp]: "length (swap_nth xs i j) = length xs"
  by (simp add: swap_nth_def)

lemma nth_swap_nth:
  "i < length xs \<Longrightarrow> j < length xs \<Longrightarrow> k < length xs \<Longrightarrow>
   swap_nth xs i j ! k = (if k = i then xs ! j else if k = j then xs ! i else xs ! k)"
  by (auto simp: swap_nth_def nth_list_update)

lemma swap_nth_append_left:
  "i < length xs \<Longrightarrow> j < length xs \<Longrightarrow> swap_nth (xs @ ys) i j = swap_nth xs i j @ ys"
  by (simp add: swap_nth_def list_update_append nth_append)

lemma mset_swap_nth:
  assumes "i < length xs" and "j < length xs"
  shows "mset (swap_nth xs i j) = mset xs"
  using assms by (simp add: swap_nth_def mset_swap)

lemma take_drop_swap_nth:
  assumes "m \<le> i" "i < n" "m \<le> j" "j < n" "n \<le> length xs"
  shows "drop m (take n (swap_nth xs i j)) = swap_nth (drop m (take n xs)) (i - m) (j - m)"
  using assms
  by (intro nth_equalityI) (auto simp: nth_swap_nth swap_nth_def nth_list_update)

lemma mset_range_swap_nth:
  assumes "m \<le> i" "i < n" "m \<le> j" "j < n" "n \<le> length xs"
  shows "mset (drop m (take n (swap_nth xs i j))) = mset (drop m (take n xs))"
  unfolding take_drop_swap_nth [OF assms]
  using assms by (intro mset_swap_nth) auto

lemma set_dropD: "x \<in> set (drop n xs) \<Longrightarrow> x \<in> set xs"
  by (auto dest: in_set_dropD)

section \<open>The first element with a property\<close>

primrec first_idx :: "('a \<Rightarrow> bool) \<Rightarrow> 'a list \<Rightarrow> nat option" where
  "first_idx P [] = None"
| "first_idx P (x # xs) = (if P x then Some 0 else map_option Suc (first_idx P xs))"

primrec remove_first :: "('a \<Rightarrow> bool) \<Rightarrow> 'a list \<Rightarrow> 'a list" where
  "remove_first P [] = []"
| "remove_first P (x # xs) = (if P x then xs else x # remove_first P xs)"

lemma first_idx_None: "first_idx P xs = None \<longleftrightarrow> (\<forall>x \<in> set xs. \<not> P x)"
  by (induction xs) auto

lemma first_idx_Some:
  "first_idx P xs = Some i \<Longrightarrow> i < length xs \<and> P (xs ! i) \<and> (\<forall>j < i. \<not> P (xs ! j))"
  by (induction xs arbitrary: i) (auto split: if_splits simp: less_Suc_eq_0_disj)

lemma remove_first_none [simp]: "\<forall>x \<in> set xs. \<not> P x \<Longrightarrow> remove_first P xs = xs"
  by (induction xs) auto

lemma remove_first_idx:
  "first_idx P xs = Some i \<Longrightarrow> remove_first P xs = take i xs @ drop (Suc i) xs"
  by (induction xs arbitrary: i) (auto split: if_splits)

lemma remove_first_append_none:
  "\<forall>x \<in> set xs. \<not> P x \<Longrightarrow> remove_first P (xs @ ys) = xs @ remove_first P ys"
  by (induction xs) auto

lemma set_remove_first_distinct:
  "distinct (map f xs) \<Longrightarrow> set (remove_first (\<lambda>x. f x = a) xs) = {x \<in> set xs. f x \<noteq> a}"
  by (induction xs) (auto simp: image_iff)

lemma distinct_remove_first:
  "distinct (map f xs) \<Longrightarrow> distinct (map f (remove_first P xs))"
proof (induction xs)
  case (Cons x xs)
  have "set (remove_first P xs) \<subseteq> set xs" by (induction xs) auto
  with Cons show ?case by auto
qed simp

lemma set_remove_first_subset: "set (remove_first P xs) \<subseteq> set xs"
  by (induction xs) auto

lemma length_remove_first: "\<exists>x \<in> set xs. P x \<Longrightarrow> Suc (length (remove_first P xs)) = length xs"
  by (induction xs) auto

lemma mset_remove_first:
  "first_idx P xs = Some i \<Longrightarrow> mset xs = add_mset (xs ! i) (mset (remove_first P xs))"
  by (induction xs arbitrary: i) (auto split: if_splits)

section \<open>Functions of the C library\<close>

text \<open>The octets of a 16-bit number swapped: the host is little-endian.\<close>

definition htons :: "u16 \<Rightarrow> u16" where
  "htons w = Bit_Operations.or (push_bit 8 w) (drop_bit 8 w)"

fun digits :: "int \<Rightarrow> string \<Rightarrow> int" where
  "digits acc [] = acc"
| "digits acc (c # cs) =
     (let n = of_char c :: nat in if 48 \<le> n \<and> n \<le> 57 then digits (acc * 10 + int n - 48) cs else acc)"

text \<open>\<open>atoi\<close> on numbers that fit an \<open>int\<close>: leading blanks, a sign, digits.\<close>

definition atoi :: "string \<Rightarrow> int" where
  "atoi str =
     (let str = dropWhile (\<lambda>c. c \<in> set [CHR '' '', CHR 0x09, CHR 0x0A, CHR 0x0B, CHR 0x0C, CHR 0x0D]) str
      in case str of
           c # cs \<Rightarrow> if c = CHR ''-'' then - digits 0 cs else if c = CHR ''+'' then digits 0 cs else digits 0 str
         | [] \<Rightarrow> 0)"

text \<open>The part of a buffer that is a C string.\<close>

definition cstr :: "string \<Rightarrow> string" where
  "cstr str = takeWhile (\<lambda>c. c \<noteq> CHR 0x00) str"

text \<open>\<open>fgets\<close> with a buffer of \<open>n\<close> characters: a line with its newline, or as much of it as fits.\<close>

definition fgets_n :: "nat \<Rightarrow> string \<Rightarrow> (string \<times> string) option" where
  "fgets_n n input =
     (if input = [] then None
      else
        let line = takeWhile (\<lambda>c. c \<noteq> CHR 0x0A) input;
            k = min (n - 1) (length line + 1)
        in Some (take k input, drop k input))"

lemma fgets_n_shorter: "2 \<le> n \<Longrightarrow> fgets_n n input = Some (line, rest) \<Longrightarrow> length rest < length input"
  by (auto simp: fgets_n_def Let_def split: if_splits)

lemma fgets_n_append: "fgets_n n input = Some (line, rest) \<Longrightarrow> line @ rest = input"
  by (auto simp: fgets_n_def Let_def split: if_splits)

text \<open>\<open>strncmp(a, b, n) == 0\<close> on C strings.\<close>

definition strneq :: "string \<Rightarrow> string \<Rightarrow> nat \<Rightarrow> bool" where
  "strneq a b n \<longleftrightarrow> take n (cstr a @ [CHR 0x00]) = take n (cstr b @ [CHR 0x00])"

end
