(* ===== verification/Interfaces.thy ===== *)
theory Interfaces
  imports Prelude
begin

text \<open>
  The contracts that \<open>quemngr\<close> has with its data structures, as locales: a queue of prioritised elements
  (what its event loop needs of the timer heap) and a list looked up and deleted by key (what its
  handlers need of the message queues).  The contracts of the link layer with the programs that use it
  stand where its types are declared, in \<open>IecWindow\<close> and \<open>IecRead\<close>.  Each locale states the laws its
  provider promises; the lemmas a client uses are proved from the laws alone, and the
  providing theory interprets the locale on the definitions that model the code.
\<close>

section \<open>Priority queues\<close>

text \<open>Taking the least element \<open>n\<close> times, as a client that serves expired timers does.\<close>

primrec pq_drain :: "('q \<Rightarrow> ('a \<times> 'q) res) \<Rightarrow> nat \<Rightarrow> 'q \<Rightarrow> ('a list \<times> 'q) res" where
  "pq_drain ext 0 q = Inr ([], q)"
| "pq_drain ext (Suc n) q =
     res_bind (ext q) (\<lambda>(x, q1). res_bind (pq_drain ext n q1) (\<lambda>(xs, q2). Inr (x # xs, q2)))"

text \<open>
  \<open>room\<close> says an insertion cannot overflow the size counter; \<open>items\<close> is the multiset of
  the stored elements and \<open>prio\<close> the priority an element is served by.
\<close>

locale prio_queue =
  fixes ins :: "'a \<Rightarrow> 'q \<Rightarrow> 'q res"
    and peek :: "'q \<Rightarrow> 'a option"
    and ext :: "'q \<Rightarrow> ('a \<times> 'q) res"
    and items :: "'q \<Rightarrow> 'a multiset"
    and prio :: "'a \<Rightarrow> 'k::linorder"
    and inv :: "'q \<Rightarrow> bool"
    and room :: "'q \<Rightarrow> bool"
  assumes ins_ok: "inv q \<Longrightarrow> room q \<Longrightarrow> \<exists>q'. ins x q = Inr q'"
    and ins_items: "inv q \<Longrightarrow> ins x q = Inr q' \<Longrightarrow> items q' = add_mset x (items q)"
    and ins_inv: "inv q \<Longrightarrow> ins x q = Inr q' \<Longrightarrow> inv q'"
    and peek_None: "inv q \<Longrightarrow> peek q = None \<longleftrightarrow> items q = {#}"
    and peek_in: "inv q \<Longrightarrow> peek q = Some x \<Longrightarrow> x \<in># items q"
    and peek_least: "inv q \<Longrightarrow> peek q = Some x \<Longrightarrow> y \<in># items q \<Longrightarrow> prio x \<le> prio y"
    and ext_peek: "inv q \<Longrightarrow> peek q = Some x \<Longrightarrow> \<exists>q'. ext q = Inr (x, q')"
    and ext_items: "inv q \<Longrightarrow> peek q = Some x \<Longrightarrow> ext q = Inr (x, q') \<Longrightarrow> items q = add_mset x (items q')"
    and ext_inv: "inv q \<Longrightarrow> peek q = Some x \<Longrightarrow> ext q = Inr (x, q') \<Longrightarrow> inv q'"
begin

lemma peek_nonempty: "inv q \<Longrightarrow> items q \<noteq> {#} \<Longrightarrow> \<exists>x. peek q = Some x"
  using peek_None by (cases "peek q") auto

lemma peek_after_ins:
  assumes "inv q" and "ins x q = Inr q'"
  shows "\<exists>y. peek q' = Some y \<and> prio y \<le> prio x"
proof -
  have inv: "inv q'" and it: "items q' = add_mset x (items q)"
    using assms ins_inv ins_items by blast+
  then obtain y where y: "peek q' = Some y"
    using peek_nonempty by fastforce
  have "x \<in># items q'" using it by simp
  then show ?thesis using peek_least [OF inv y] y by blast
qed

text \<open>Serving a queue until it is empty hands out every element once, in order.\<close>

lemma drain_sorts:
  "inv q \<Longrightarrow> size (items q) = n \<Longrightarrow>
   \<exists>xs q'. pq_drain ext n q = Inr (xs, q') \<and> mset xs = items q \<and> sorted (map prio xs)
     \<and> inv q' \<and> items q' = {#}"
proof (induction n arbitrary: q)
  case 0
  then show ?case by simp
next
  case (Suc n)
  then have "items q \<noteq> {#}" by auto
  then obtain x where x: "peek q = Some x"
    using peek_nonempty Suc.prems(1) by blast
  then obtain q1 where q1: "ext q = Inr (x, q1)"
    using ext_peek Suc.prems(1) by blast
  have it: "items q = add_mset x (items q1)" and inv1: "inv q1"
    using ext_items ext_inv Suc.prems(1) x q1 by blast+
  from it Suc.prems(2) have "size (items q1) = n" by simp
  from Suc.IH [OF inv1 this] obtain xs q' where
    r: "pq_drain ext n q1 = Inr (xs, q')" "mset xs = items q1" "sorted (map prio xs)"
       "inv q'" "items q' = {#}"
    by blast
  have "\<forall>y \<in> set xs. prio x \<le> prio y"
    using peek_least [OF Suc.prems(1) x] it r(2) by (metis set_mset_mset insert_iff set_mset_add_mset_insert)
  with r it q1 show ?case by auto
qed

end

section \<open>Message lists\<close>

text \<open>
  A list of elements looked up and deleted by key.  \<open>find\<close> answers with the position of the
  first element with the key, or \<open>-1\<close>; \<open>del\<close> removes that element.
\<close>

locale keyed_list =
  fixes add :: "'l \<Rightarrow> 'a \<Rightarrow> (int \<times> 'l) res"
    and find :: "'l \<Rightarrow> 'k \<Rightarrow> int res"
    and del :: "'l \<Rightarrow> 'k \<Rightarrow> (int \<times> 'l) res"
    and elems :: "'l \<Rightarrow> 'a list"
    and key :: "'a \<Rightarrow> 'k"
    and inv :: "'l \<Rightarrow> bool"
    and room :: "'l \<Rightarrow> bool"
  assumes add_law: "inv l \<Longrightarrow> room l \<Longrightarrow>
      \<exists>l'. add l e = Inr (int (length (elems l)) + 1, l') \<and> inv l' \<and> elems l' = elems l @ [e]"
    and find_law: "inv l \<Longrightarrow>
      find l k = Inr (case first_idx (\<lambda>e. key e = k) (elems l) of None \<Rightarrow> -1 | Some i \<Rightarrow> int i)"
    and del_law: "inv l \<Longrightarrow>
      \<exists>l'. del l k = Inr (if k \<in> key ` set (elems l) then 1 else 0, l') \<and> inv l'
        \<and> elems l' = remove_first (\<lambda>e. key e = k) (elems l)"
begin

lemma find_found_iff: "inv l \<Longrightarrow> (\<exists>i. find l k = Inr i \<and> 0 \<le> i) \<longleftrightarrow> k \<in> key ` set (elems l)"
proof (cases "first_idx (\<lambda>e. key e = k) (elems l)")
  case None
  moreover assume "inv l"
  ultimately show ?thesis using first_idx_None [of "\<lambda>e. key e = k" "elems l"] by (auto simp: find_law)
next
  case (Some i)
  moreover assume "inv l"
  ultimately show ?thesis using first_idx_Some [OF Some] by (auto simp: find_law)
qed

lemma find_after_add:
  assumes "inv l" and "add l e = Inr (n, l')" and "room l" and "key e \<notin> key ` set (elems l)"
  shows "find l' (key e) = Inr (int (length (elems l)))"
proof -
  have "inv l'" and "elems l' = elems l @ [e]" using add_law [of l e] assms by auto
  moreover have "first_idx (\<lambda>x. key x = key e) (xs @ [e]) = Some (length xs)"
    if "key e \<notin> key ` set xs" for xs
    using that by (induction xs) auto
  ultimately show ?thesis using assms(4) by (simp add: find_law)
qed

lemma find_after_del:
  assumes "inv l" and "distinct (map key (elems l))" and "del l k = Inr (r, l')"
  shows "find l' k = Inr (-1)"
proof -
  have "inv l'" and "elems l' = remove_first (\<lambda>e. key e = k) (elems l)"
    using del_law [of l k] assms by auto
  moreover have "first_idx (\<lambda>e. key e = k) (remove_first (\<lambda>e. key e = k) (elems l)) = None"
    unfolding first_idx_None using assms(2) by (simp add: set_remove_first_distinct)
  ultimately show ?thesis by (simp add: find_law)
qed

lemma del_after_add:
  assumes "inv l" and "room l" and "add l e = Inr (n, l')" and "key e \<notin> key ` set (elems l)"
    and "del l' (key e) = Inr (r, l'')"
  shows "r = 1" and "elems l'' = elems l"
proof -
  have l': "inv l'" "elems l' = elems l @ [e]" using add_law [of l e] assms by auto
  have "\<forall>x \<in> set (elems l). key x \<noteq> key e" using assms(4) by (metis imageI)
  then have "remove_first (\<lambda>x. key x = key e) (elems l @ [e]) = elems l"
    by (simp add: remove_first_append_none)
  then show "r = 1" and "elems l'' = elems l"
    using del_law [of l' "key e"] assms(5) l' by auto
qed

end

end
