(* ===== verification/HeapFunc.thy ===== *)
theory HeapFunc
  imports Interfaces
begin

text \<open>
  The timer heap of \<open>quemngr\<close> (\<open>src/quemngr/heapfunc.c\<close>): an array with the root in cell 1
  that grows by doubling.  The array is the list of its allocated cells; \<open>junk\<close> is what
  \<open>malloc\<close> and \<open>realloc\<close> leave in cells nobody has written yet.  A write or read outside
  the allocation is the fault \<open>OutOfBounds\<close>, a size that leaves the range of \<open>int\<close> is
  \<open>IntOverflow\<close>.
\<close>

section \<open>Data and operations\<close>

record heapnode =
  hn_key :: timeval
  hn_indque :: int
  hn_inode :: "32 word"

record heap =
  maxsize :: nat
  nodecount :: nat
  nodes :: "heapnode list"

type_synonym junk = "nat \<Rightarrow> heapnode"

definition xresize_nodes :: "junk \<Rightarrow> heapnode list \<Rightarrow> nat \<Rightarrow> heapnode list" where
  "xresize_nodes junk ns n = take n ns @ map junk [length ns..<n]"

definition heap_create :: "junk \<Rightarrow> nat \<Rightarrow> heap" where
  "heap_create junk msize =
     \<lparr>maxsize = msize, nodecount = 0, nodes = xresize_nodes junk [] (msize + 1)\<rparr>"

definition heapnode_swap :: "heapnode list \<Rightarrow> nat \<Rightarrow> nat \<Rightarrow> heapnode list" where
  "heapnode_swap ns a b =
     (let temp = ns ! a; ns1 = ns[a := ns ! b] in ns1[b := temp])"

definition heap_min :: "heap \<Rightarrow> heapnode option" where
  "heap_min h = (if nodecount h = 0 then None else Some (nodes h ! 1))"

function heap_up :: "heapnode list \<Rightarrow> nat \<Rightarrow> heapnode list" where
  "heap_up ns i =
     (if i > 1 \<and> timercmp_less (hn_key (ns ! i)) (hn_key (ns ! (i div 2)))
      then heap_up (heapnode_swap ns i (i div 2)) (i div 2)
      else ns)"
  by pat_completeness auto
termination
  by (relation "measure snd") auto

definition heap_insert :: "junk \<Rightarrow> heap \<Rightarrow> timeval \<Rightarrow> int \<Rightarrow> 32 word \<Rightarrow> heap res" where
  "heap_insert junk h key indque inode =
     (let grow = (nodecount h + 1 \<ge> maxsize h);
          msize = (if grow then maxsize h * 2 else maxsize h);
          ns = (if grow then xresize_nodes junk (nodes h) msize else nodes h);
          n = nodecount h + 1
      in if INT_MAX < int msize then Inl IntOverflow
         else if length ns \<le> n then Inl OutOfBounds
         else Inr \<lparr>maxsize = msize, nodecount = n,
                   nodes = heap_up (ns[n := \<lparr>hn_key = key, hn_indque = indque, hn_inode = inode\<rparr>]) n\<rparr>)"

text \<open>The smallest of a cell and its (at most two) children inside the first \<open>n\<close> cells.\<close>

definition heap_least :: "heapnode list \<Rightarrow> nat \<Rightarrow> nat \<Rightarrow> nat" where
  "heap_least ns n index =
     (let left = 2 * index; right = 2 * index + 1; least = index;
          least = (if left \<le> n \<and> timercmp_less (hn_key (ns ! left)) (hn_key (ns ! index))
                   then left else least);
          least = (if right \<le> n \<and> timercmp_less (hn_key (ns ! right)) (hn_key (ns ! least))
                   then right else least)
      in least)"

lemma heap_least_cases: "heap_least ns n i = i \<or> (i < heap_least ns n i \<and> heap_least ns n i \<le> n)"
  by (auto simp: heap_least_def Let_def timercmp_less_iff)

function heap_heapify :: "nat \<Rightarrow> heapnode list \<Rightarrow> nat \<Rightarrow> heapnode list" where
  "heap_heapify n ns index =
     (if heap_least ns n index = index then ns
      else heap_heapify n (heapnode_swap ns index (heap_least ns n index)) (heap_least ns n index))"
  by pat_completeness auto
termination
proof (relation "measure (\<lambda>(n, ns, i). n - i)")
  fix n :: nat and ns :: "heapnode list" and i :: nat
  assume "heap_least ns n i \<noteq> i"
  then show "((n, heapnode_swap ns i (heap_least ns n i), heap_least ns n i), n, ns, i)
      \<in> measure (\<lambda>(n, ns, i). n - i)"
    using heap_least_cases [of ns n i] by auto
qed auto

definition heapnode_zero :: heapnode where
  "heapnode_zero = \<lparr>hn_key = Timeval 0 0, hn_indque = 0, hn_inode = 0\<rparr>"

definition heap_extract_min :: "heap \<Rightarrow> (heapnode \<times> heap) res" where
  "heap_extract_min h =
     (if nodecount h = 0 then Inr (heapnode_zero, h)
      else if length (nodes h) \<le> nodecount h then Inl OutOfBounds
      else let minnode = nodes h ! 1;
               ns = (nodes h)[1 := nodes h ! nodecount h];
               n = nodecount h - 1
           in Inr (minnode, h\<lparr>nodecount := n, nodes := heap_heapify n ns 1\<rparr>))"

declare heap_up.simps [simp del] heap_heapify.simps [simp del]

section \<open>Well-formedness\<close>

text \<open>Every parent is no later than its children.\<close>

definition heap_order :: "nat \<Rightarrow> heapnode list \<Rightarrow> bool" where
  "heap_order n ns \<longleftrightarrow> (\<forall>i \<in> {2..n}. hn_key (ns ! (i div 2)) \<le> hn_key (ns ! i))"

definition heap_cells :: "heap \<Rightarrow> heapnode list" where
  "heap_cells h = drop 1 (take (Suc (nodecount h)) (nodes h))"

definition heap_items :: "heap \<Rightarrow> heapnode multiset" where
  "heap_items h = mset (heap_cells h)"

definition wf_heap :: "heap \<Rightarrow> bool" where
  "wf_heap h \<longleftrightarrow> nodecount h < maxsize h \<and> maxsize h \<le> length (nodes h)
     \<and> heap_order (nodecount h) (nodes h)"

definition heap_room :: "heap \<Rightarrow> bool" where
  "heap_room h \<longleftrightarrow> int (maxsize h) * 2 \<le> INT_MAX"

lemmas heap_defs = heap_order_def heap_cells_def heap_items_def wf_heap_def

lemma heapnode_swap_eq: "heapnode_swap ns a b = swap_nth ns a b"
  by (simp add: heapnode_swap_def swap_nth_def Let_def)

lemma length_heapnode_swap [simp]: "length (heapnode_swap ns a b) = length ns"
  by (simp add: heapnode_swap_eq)

lemma length_heap_up [simp]: "length (heap_up ns i) = length ns"
  by (induction ns i rule: heap_up.induct) (subst heap_up.simps, simp)

lemma length_heap_heapify [simp]: "length (heap_heapify n ns i) = length ns"
  by (induction n ns i rule: heap_heapify.induct) (subst heap_heapify.simps, simp)

lemma heap_up_untouched:
  "i < j \<Longrightarrow> j < length ns \<Longrightarrow> heap_up ns i ! j = ns ! j"
proof (induction ns i rule: heap_up.induct)
  case (1 ns i)
  then show ?case
    by (subst heap_up.simps) (auto simp: heapnode_swap_eq nth_swap_nth)
qed

section \<open>Sifting up\<close>

text \<open>The order holds everywhere but between cell \<open>k\<close> and its parent.\<close>

definition order_but_up :: "nat \<Rightarrow> nat \<Rightarrow> heapnode list \<Rightarrow> bool" where
  "order_but_up k n ns \<longleftrightarrow>
     (\<forall>i \<in> {2..n}. i \<noteq> k \<longrightarrow> hn_key (ns ! (i div 2)) \<le> hn_key (ns ! i))
     \<and> (\<forall>i \<in> {2..n}. i div 2 = k \<and> 2 \<le> k \<longrightarrow> hn_key (ns ! (k div 2)) \<le> hn_key (ns ! i))"

lemma order_but_up_swap:
  assumes b: "order_but_up i n ns" and i: "1 < i" "i \<le> n" "n < length ns"
    and lt: "hn_key (ns ! i) < hn_key (ns ! (i div 2))"
  shows "order_but_up (i div 2) n (swap_nth ns i (i div 2))"
proof -
  let ?p = "i div 2"
  have p: "1 \<le> ?p" "?p < i" "?p < length ns" "i < length ns" using i by auto
  have other: "hn_key (ns ! (j div 2)) \<le> hn_key (ns ! j)" if "2 \<le> j" "j \<le> n" "j \<noteq> i" for j
    using b that by (auto simp: order_but_up_def)
  have grand: "hn_key (ns ! ?p) \<le> hn_key (ns ! j)" if "2 \<le> j" "j \<le> n" "j div 2 = i" for j
    using b that i by (auto simp: order_but_up_def)
  have nth: "swap_nth ns i ?p ! j = (if j = i then ns ! ?p else if j = ?p then ns ! i else ns ! j)"
    if "j \<le> n" for j
    using that p i by (simp add: nth_swap_nth)
  show ?thesis
    unfolding order_but_up_def
  proof (intro conjI ballI impI)
    fix j assume j: "j \<in> {2..n}" and "j \<noteq> ?p"
    moreover have "j div 2 \<le> n" using j by auto
    ultimately show "hn_key (swap_nth ns i ?p ! (j div 2)) \<le> hn_key (swap_nth ns i ?p ! j)"
      using lt other [of j] grand [of j] by (cases "j = i") (auto simp: nth)
  next
    fix j assume j: "j \<in> {2..n}" and jp: "j div 2 = ?p \<and> 2 \<le> ?p"
    moreover have "?p div 2 < ?p" "?p div 2 \<noteq> i" "?p \<le> n" using p i by auto
    moreover have "hn_key (ns ! (?p div 2)) \<le> hn_key (ns ! ?p)"
      using other [of ?p] p i jp by auto
    moreover have "hn_key (ns ! ?p) \<le> hn_key (ns ! j)" if "j \<noteq> i"
      using other [of j] j jp that by simp
    moreover have "j \<noteq> ?p" using j jp by auto
    ultimately show "hn_key (swap_nth ns i ?p ! (?p div 2)) \<le> hn_key (swap_nth ns i ?p ! j)"
      using order_trans by (cases "j = i") (auto simp: nth)
  qed
qed

lemma heap_up_order:
  "order_but_up i n ns \<Longrightarrow> 1 \<le> i \<Longrightarrow> i \<le> n \<Longrightarrow> n < length ns \<Longrightarrow> heap_order n (heap_up ns i)"
proof (induction ns i rule: heap_up.induct)
  case (1 ns i)
  show ?case
  proof (cases "i > 1 \<and> hn_key (ns ! i) < hn_key (ns ! (i div 2))")
    case True
    then have "order_but_up (i div 2) n (heapnode_swap ns i (i div 2))"
      using "1.prems" order_but_up_swap by (simp add: heapnode_swap_eq)
    moreover have "1 \<le> i div 2" "i div 2 \<le> n" using True "1.prems" by auto
    ultimately have "heap_order n (heap_up (heapnode_swap ns i (i div 2)) (i div 2))"
      using "1.IH" True "1.prems" by (simp add: timercmp_less_iff)
    with True show ?thesis by (subst heap_up.simps) (simp add: timercmp_less_iff)
  next
    case False
    then have "heap_up ns i = ns" by (subst heap_up.simps) (auto simp: timercmp_less_iff)
    moreover have "heap_order n ns"
      using False "1.prems" by (fastforce simp: heap_order_def order_but_up_def not_less)
    ultimately show ?thesis by simp
  qed
qed

lemma heap_up_mset:
  "1 \<le> i \<Longrightarrow> i \<le> n \<Longrightarrow> n < length ns \<Longrightarrow>
   mset (drop 1 (take (Suc n) (heap_up ns i))) = mset (drop 1 (take (Suc n) ns))"
proof (induction ns i rule: heap_up.induct)
  case (1 ns i)
  have "mset (drop 1 (take (Suc n) (heapnode_swap ns i (i div 2)))) = mset (drop 1 (take (Suc n) ns))"
    if "1 < i"
    unfolding heapnode_swap_eq using that "1.prems" by (intro mset_range_swap_nth) auto
  with "1" show ?case by (subst heap_up.simps) auto
qed

section \<open>Sifting down\<close>

text \<open>The order holds everywhere but between cell \<open>k\<close> and its children.\<close>

definition order_but_down :: "nat \<Rightarrow> nat \<Rightarrow> heapnode list \<Rightarrow> bool" where
  "order_but_down k n ns \<longleftrightarrow>
     (\<forall>i \<in> {2..n}. i div 2 \<noteq> k \<longrightarrow> hn_key (ns ! (i div 2)) \<le> hn_key (ns ! i))
     \<and> (\<forall>i \<in> {2..n}. i div 2 = k \<and> 2 \<le> k \<longrightarrow> hn_key (ns ! (k div 2)) \<le> hn_key (ns ! i))"

lemma heap_least_child:
  assumes "heap_least ns n k \<noteq> k"
  shows "heap_least ns n k div 2 = k" and "heap_least ns n k \<le> n"
    and "hn_key (ns ! heap_least ns n k) < hn_key (ns ! k)"
    and "\<And>j. 2 \<le> j \<Longrightarrow> j \<le> n \<Longrightarrow> j div 2 = k \<Longrightarrow> hn_key (ns ! heap_least ns n k) \<le> hn_key (ns ! j)"
proof -
  have child: "j = 2 * k \<or> j = 2 * k + 1" if "j div 2 = k" for j :: nat
    using that by auto
  show "heap_least ns n k div 2 = k" and "heap_least ns n k \<le> n"
    and "hn_key (ns ! heap_least ns n k) < hn_key (ns ! k)"
    using assms by (auto simp: heap_least_def Let_def timercmp_less_iff split: if_splits)
  show "hn_key (ns ! heap_least ns n k) \<le> hn_key (ns ! j)" if "2 \<le> j" "j \<le> n" "j div 2 = k" for j
    using child [OF that(3)] that assms
    by (auto simp: heap_least_def Let_def timercmp_less_iff not_less split: if_splits)
qed

lemma heap_least_self:
  assumes "heap_least ns n k = k" and "2 \<le> j" and "j \<le> n" and "j div 2 = k"
  shows "hn_key (ns ! k) \<le> hn_key (ns ! j)"
proof -
  have "j = 2 * k \<or> j = 2 * k + 1" "k \<noteq> 0" using assms by auto
  with assms show ?thesis
    by (auto simp: heap_least_def Let_def timercmp_less_iff not_less split: if_splits)
qed

lemma order_but_down_swap:
  assumes b: "order_but_down k n ns" and k: "1 \<le> k" and n: "n < length ns"
    and l: "heap_least ns n k = c" "c \<noteq> k"
  shows "order_but_down c n (swap_nth ns k c)"
proof -
  have ne: "heap_least ns n k \<noteq> k" using l by simp
  note cl = heap_least_child [OF ne, unfolded l(1)]
  have ck: "k < c" "c \<le> n" "2 \<le> c" using cl(1,2) k l(2) by auto
  have nth: "swap_nth ns k c ! j = (if j = k then ns ! c else if j = c then ns ! k else ns ! j)"
    if "j \<le> n" for j
    using that ck n by (simp add: nth_swap_nth)
  have other: "hn_key (ns ! (j div 2)) \<le> hn_key (ns ! j)" if "2 \<le> j" "j \<le> n" "j div 2 \<noteq> k" for j
    using b that by (auto simp: order_but_down_def)
  have grand: "hn_key (ns ! (k div 2)) \<le> hn_key (ns ! c)" if "2 \<le> k"
    using b that ck cl(1) by (auto simp: order_but_down_def)
  show ?thesis
    unfolding order_but_down_def
  proof (intro conjI ballI impI)
    fix j assume j: "j \<in> {2..n}" and jc: "j div 2 \<noteq> c"
    have "j div 2 \<le> n" "k div 2 < k" using j k by auto
    then show "hn_key (swap_nth ns k c ! (j div 2)) \<le> hn_key (swap_nth ns k c ! j)"
      using j jc cl ck other [of j] grand by (cases "j = k"; cases "j div 2 = k") (auto simp: nth)
  next
    fix j assume j: "j \<in> {2..n}" and jc: "j div 2 = c \<and> 2 \<le> c"
    have "j \<noteq> k" "j \<noteq> c" using jc ck j by auto
    with j jc ck show "hn_key (swap_nth ns k c ! (c div 2)) \<le> hn_key (swap_nth ns k c ! j)"
      using other [of j] cl(1) by (auto simp: nth)
  qed
qed

lemma heap_heapify_order:
  "order_but_down k n ns \<Longrightarrow> 1 \<le> k \<Longrightarrow> n < length ns \<Longrightarrow> heap_order n (heap_heapify n ns k)"
proof (induction n ns k rule: heap_heapify.induct)
  case (1 n ns k)
  show ?case
  proof (cases "heap_least ns n k = k")
    case True
    then have "heap_heapify n ns k = ns" by (subst heap_heapify.simps) simp
    moreover have "heap_order n ns"
      using "1.prems"(1) heap_least_self [OF True]
      by (auto simp: heap_order_def order_but_down_def)
    ultimately show ?thesis by simp
  next
    case False
    then have "order_but_down (heap_least ns n k) n (heapnode_swap ns k (heap_least ns n k))"
      using "1.prems" order_but_down_swap by (simp add: heapnode_swap_eq)
    moreover have "1 \<le> heap_least ns n k" using False "1.prems" heap_least_cases [of ns n k] by linarith
    ultimately have "heap_order n (heap_heapify n (heapnode_swap ns k (heap_least ns n k)) (heap_least ns n k))"
      using "1.IH" [OF False] "1.prems" by simp
    with False show ?thesis by (subst heap_heapify.simps) simp
  qed
qed

lemma heap_heapify_mset:
  "1 \<le> k \<Longrightarrow> n < length ns \<Longrightarrow>
   mset (drop 1 (take (Suc n) (heap_heapify n ns k))) = mset (drop 1 (take (Suc n) ns))"
proof (induction n ns k rule: heap_heapify.induct)
  case (1 n ns k)
  show ?case
  proof (cases "heap_least ns n k = k")
    case True
    then show ?thesis by (subst heap_heapify.simps) simp
  next
    case False
    then have l: "k < heap_least ns n k" "heap_least ns n k \<le> n"
      using heap_least_cases [of ns n k] by auto
    have "mset (drop 1 (take (Suc n) (heapnode_swap ns k (heap_least ns n k)))) = mset (drop 1 (take (Suc n) ns))"
      unfolding heapnode_swap_eq using l "1.prems" by (intro mset_range_swap_nth) auto
    with "1.IH" [OF False] l "1.prems" False show ?thesis by (subst heap_heapify.simps) simp
  qed
qed

section \<open>The operations keep the heap and its contents\<close>

lemma heap_order_root:
  "heap_order n ns \<Longrightarrow> 1 \<le> i \<Longrightarrow> i \<le> n \<Longrightarrow> hn_key (ns ! 1) \<le> hn_key (ns ! i)"
proof (induction i rule: less_induct)
  case (less i)
  show ?case
  proof (cases "i = 1")
    case False
    then have "i div 2 < i" "1 \<le> i div 2" "i div 2 \<le> n" using less.prems by auto
    then have "hn_key (ns ! 1) \<le> hn_key (ns ! (i div 2))" using less by blast
    also have "\<dots> \<le> hn_key (ns ! i)"
      using less.prems False by (auto simp: heap_order_def)
    finally show ?thesis .
  qed simp
qed

lemma heap_cells_nth:
  "nodecount h < length (nodes h) \<Longrightarrow> i < nodecount h \<Longrightarrow> heap_cells h ! i = nodes h ! Suc i"
  by (simp add: heap_cells_def)

lemma length_heap_cells:
  "nodecount h < length (nodes h) \<Longrightarrow> length (heap_cells h) = nodecount h"
  by (simp add: heap_cells_def)

lemma mset_take_last_to_root:
  assumes "1 \<le> n" and "n < length ns"
  shows "mset (drop 1 (take (Suc n) ns)) = add_mset (ns ! 1) (mset (drop 1 (take n (ns[1 := ns ! n]))))"
proof -
  obtain y x zs where ns: "ns = y # x # zs"
    using assms by (cases ns; cases "tl ns") auto
  show ?thesis
  proof (cases "n = 1")
    case True
    then show ?thesis by (simp add: ns)
  next
    case False
    then obtain m where m: "n = Suc (Suc m)"
      using assms by (cases n; cases "n - 1") auto
    with assms have "m < length zs" by (simp add: ns)
    then show ?thesis by (simp add: ns m take_Suc_conv_app_nth)
  qed
qed

lemma wf_heap_create: "1 \<le> m \<Longrightarrow> wf_heap (heap_create junk m)"
  by (simp add: heap_create_def wf_heap_def heap_order_def xresize_nodes_def)

lemma heap_items_create: "heap_items (heap_create junk m) = {#}"
  by (simp add: heap_create_def heap_items_def heap_cells_def xresize_nodes_def)

lemma nth_xresize_nodes: "i < length ns \<Longrightarrow> i < n \<Longrightarrow> xresize_nodes junk ns n ! i = ns ! i"
  by (simp add: xresize_nodes_def nth_append)

lemma length_xresize_nodes [simp]: "length (xresize_nodes junk ns n) = n"
  by (simp add: xresize_nodes_def)

text \<open>The array an insertion works on, before the new node is sifted up.\<close>

lemma heap_insert_cells:
  assumes wf: "wf_heap h" and ok: "heap_insert junk h key q i = Inr h'"
  obtains ns where "maxsize h' \<le> length ns" and "Suc (nodecount h) < maxsize h'"
    and "take (Suc (nodecount h)) ns = take (Suc (nodecount h)) (nodes h)"
    and "nodecount h' = Suc (nodecount h)"
    and "nodes h' = heap_up (ns[Suc (nodecount h) := \<lparr>hn_key = key, hn_indque = q, hn_inode = i\<rparr>]) (Suc (nodecount h))"
proof (cases "nodecount h + 1 \<ge> maxsize h")
  case True
  let ?ns = "xresize_nodes junk (nodes h) (maxsize h * 2)"
  have "take (Suc (nodecount h)) ?ns = take (Suc (nodecount h)) (nodes h)"
    using wf by (intro nth_equalityI) (auto simp: wf_heap_def nth_xresize_nodes)
  moreover have "Suc (nodecount h) < maxsize h * 2" using wf by (auto simp: wf_heap_def)
  ultimately show ?thesis
    using that [of ?ns] ok True by (auto simp: heap_insert_def Let_def split: if_splits)
next
  case False
  then show ?thesis
    using that [of "nodes h"] ok wf by (auto simp: heap_insert_def wf_heap_def Let_def split: if_splits)
qed

lemma heap_insert_wf:
  assumes wf: "wf_heap h" and ok: "heap_insert junk h key q i = Inr h'"
  shows "wf_heap h'"
proof -
  let ?x = "\<lparr>hn_key = key, hn_indque = q, hn_inode = i\<rparr>" and ?n = "Suc (nodecount h)"
  obtain ns where ns: "maxsize h' \<le> length ns" "?n < maxsize h'" "take ?n ns = take ?n (nodes h)"
      "nodecount h' = ?n" "nodes h' = heap_up (ns[?n := ?x]) ?n"
    using heap_insert_cells [OF assms] .
  have nth: "ns ! j = nodes h ! j" if "j < ?n" for j
    using ns(3) that by (metis nth_take)
  have "order_but_up ?n ?n (ns[?n := ?x])"
    using wf by (auto simp: order_but_up_def wf_heap_def heap_order_def nth nth_list_update)
  then have "heap_order ?n (nodes h')"
    using ns by (simp add: heap_up_order)
  with ns show ?thesis by (simp add: wf_heap_def)
qed

lemma heap_insert_items:
  assumes wf: "wf_heap h" and ok: "heap_insert junk h key q i = Inr h'"
  shows "heap_items h' = add_mset \<lparr>hn_key = key, hn_indque = q, hn_inode = i\<rparr> (heap_items h)"
proof -
  let ?x = "\<lparr>hn_key = key, hn_indque = q, hn_inode = i\<rparr>" and ?n = "Suc (nodecount h)"
  obtain ns where ns: "maxsize h' \<le> length ns" "?n < maxsize h'" "take ?n ns = take ?n (nodes h)"
      "nodecount h' = ?n" "nodes h' = heap_up (ns[?n := ?x]) ?n"
    using heap_insert_cells [OF assms] .
  have "heap_items h' = mset (drop 1 (take (Suc ?n) (ns[?n := ?x])))"
    using ns heap_up_mset [of ?n ?n "ns[?n := ?x]"] by (simp add: heap_items_def heap_cells_def)
  also have "take (Suc ?n) (ns[?n := ?x]) = take ?n (nodes h) @ [?x]"
    using ns by (simp add: take_Suc_conv_app_nth)
  finally show ?thesis
    using wf by (simp add: heap_items_def heap_cells_def wf_heap_def)
qed

lemma heap_insert_ok:
  assumes "wf_heap h" and "heap_room h"
  shows "\<exists>h'. heap_insert junk h key q i = Inr h'"
  using assms by (auto simp: heap_insert_def wf_heap_def heap_room_def Let_def)

lemma heap_min_None: "wf_heap h \<Longrightarrow> heap_min h = None \<longleftrightarrow> heap_items h = {#}"
  by (auto simp: heap_min_def heap_items_def heap_cells_def wf_heap_def)

lemma heap_items_nth:
  assumes "wf_heap h" and "y \<in># heap_items h"
  shows "\<exists>i. 1 \<le> i \<and> i \<le> nodecount h \<and> y = nodes h ! i"
proof -
  have len: "nodecount h < length (nodes h)" using assms(1) by (simp add: wf_heap_def)
  from assms(2) obtain i where "i < length (heap_cells h)" "y = heap_cells h ! i"
    by (auto simp: heap_items_def in_set_conv_nth)
  with len show ?thesis by (intro exI [of _ "Suc i"]) (simp add: length_heap_cells heap_cells_nth)
qed

lemma heap_min_in: "wf_heap h \<Longrightarrow> heap_min h = Some x \<Longrightarrow> x \<in># heap_items h"
  using heap_cells_nth [of h 0] length_heap_cells [of h] nth_mem [of 0 "heap_cells h"]
  by (auto simp: heap_min_def heap_items_def wf_heap_def split: if_splits)

lemma heap_min_least:
  "wf_heap h \<Longrightarrow> heap_min h = Some x \<Longrightarrow> y \<in># heap_items h \<Longrightarrow> hn_key x \<le> hn_key y"
  using heap_items_nth [of h y] heap_order_root
  by (auto simp: heap_min_def wf_heap_def split: if_splits)

lemma heap_extract_min_eq:
  assumes "wf_heap h" and "heap_min h = Some x"
  shows "heap_extract_min h = Inr (x, h\<lparr>nodecount := nodecount h - 1,
    nodes := heap_heapify (nodecount h - 1) ((nodes h)[1 := nodes h ! nodecount h]) 1\<rparr>)"
  using assms by (auto simp: heap_extract_min_def heap_min_def wf_heap_def Let_def split: if_splits)

lemma heap_extract_min_wf:
  assumes wf: "wf_heap h" and x: "heap_min h = Some x" and e: "heap_extract_min h = Inr (x, h')"
  shows "wf_heap h'"
proof -
  let ?n = "nodecount h - 1" and ?ns = "(nodes h)[1 := nodes h ! nodecount h]"
  have nz: "1 \<le> nodecount h" using x by (auto simp: heap_min_def split: if_splits)
  have "order_but_down 1 ?n ?ns"
    using wf by (auto simp: order_but_down_def wf_heap_def heap_order_def nth_list_update)
  then have "heap_order ?n (heap_heapify ?n ?ns 1)"
    using wf by (intro heap_heapify_order) (auto simp: wf_heap_def)
  then show ?thesis
    using e wf by (auto simp: heap_extract_min_eq [OF wf x] wf_heap_def)
qed

lemma heap_extract_min_items:
  assumes wf: "wf_heap h" and x: "heap_min h = Some x" and e: "heap_extract_min h = Inr (x, h')"
  shows "heap_items h = add_mset x (heap_items h')"
proof -
  let ?n = "nodecount h" and ?ns = "(nodes h)[1 := nodes h ! nodecount h]"
  have nz: "1 \<le> ?n" and x1: "x = nodes h ! 1" using x by (auto simp: heap_min_def split: if_splits)
  have len: "?n < length (nodes h)" using wf by (simp add: wf_heap_def)
  have "heap_items h' = mset (drop 1 (take (Suc (?n - 1)) (heap_heapify (?n - 1) ?ns 1)))"
    using e by (auto simp: heap_extract_min_eq [OF wf x] heap_items_def heap_cells_def)
  also have "\<dots> = mset (drop 1 (take (Suc (?n - 1)) ?ns))"
    using len by (intro heap_heapify_mset) auto
  also have "\<dots> = mset (drop 1 (take ?n ?ns))" using nz by simp
  finally show ?thesis
    using mset_take_last_to_root [OF nz len] x1 by (simp add: heap_items_def heap_cells_def)
qed

section \<open>The heap is a priority queue\<close>

interpretation timers: prio_queue
  "\<lambda>x h. heap_insert junk h (hn_key x) (hn_indque x) (hn_inode x)"
  heap_min heap_extract_min heap_items hn_key wf_heap heap_room
proof (unfold_locales, goal_cases)
  case (1 q x)
  then show ?case by (rule heap_insert_ok)
next
  case (2 q x q')
  then show ?case using heap_insert_items by fastforce
next
  case (3 q x q')
  then show ?case by (rule heap_insert_wf)
next
  case (4 q)
  then show ?case by (rule heap_min_None)
next
  case (5 q x)
  then show ?case by (rule heap_min_in)
next
  case (6 q x y)
  then show ?case by (rule heap_min_least)
next
  case (7 q x)
  then show ?case using heap_extract_min_eq by blast
next
  case (8 q x q')
  then show ?case by (rule heap_extract_min_items)
next
  case (9 q x q')
  then show ?case by (rule heap_extract_min_wf)
qed

section \<open>Properties\<close>

text \<open>
  C18. Inserting a timer into a well-formed heap whose size counter has room never writes
  outside the array, keeps the heap order and the size bookkeeping, and adds exactly the
  given node to the stored timers.
\<close>

theorem heap_insert_correct:
  assumes "wf_heap h" and "heap_room h"
  shows "\<exists>h'. heap_insert junk h key q i = Inr h' \<and> wf_heap h'
    \<and> heap_items h' = add_mset \<lparr>hn_key = key, hn_indque = q, hn_inode = i\<rparr> (heap_items h)"
  using heap_insert_ok [OF assms] heap_insert_wf heap_insert_items assms(1) by metis

theorem heap_insert_correct_witness:
  "\<exists>h'. heap_insert (\<lambda>_. heapnode_zero) (heap_create (\<lambda>_. heapnode_zero) 1) (Timeval 5 0) 2 7 = Inr h'
    \<and> wf_heap h' \<and> heap_items h' = {#\<lparr>hn_key = Timeval 5 0, hn_indque = 2, hn_inode = 7\<rparr>#}"
proof -
  have "heap_room (heap_create (\<lambda>_. heapnode_zero) 1)"
    by (simp add: heap_room_def heap_create_def INT_MAX_def)
  then show ?thesis
    using heap_insert_correct [OF wf_heap_create [of 1]] by (simp add: heap_items_create)
qed

text \<open>
  C17. Extracting the minimum as often as the heap has nodes never faults, hands out every
  stored timer exactly once in the order of expiry, and leaves an empty well-formed heap.
\<close>

theorem heap_drain_sorted:
  assumes "wf_heap h"
  shows "\<exists>xs h'. pq_drain heap_extract_min (nodecount h) h = Inr (xs, h')
    \<and> mset xs = heap_items h \<and> sorted (map hn_key xs) \<and> wf_heap h' \<and> heap_min h' = None"
proof -
  have "size (heap_items h) = nodecount h"
    using assms length_heap_cells [of h] by (simp add: heap_items_def wf_heap_def)
  from timers.drain_sorts [OF assms this] show ?thesis
    using heap_min_None by metis
qed

theorem heap_drain_sorted_witness:
  "\<exists>h xs h'. wf_heap h \<and> nodecount h = 2 \<and> pq_drain heap_extract_min 2 h = Inr (xs, h')
    \<and> sorted (map hn_key xs)"
proof -
  let ?z = "heapnode_zero"
  let ?h = "\<lparr>maxsize = 3, nodecount = 2, nodes = [?z, ?z, ?z\<lparr>hn_key := Timeval 1 0\<rparr>]\<rparr>"
  have "i = 2" if "2 \<le> i" "i \<le> 2" for i :: nat using that by simp
  then have wf: "wf_heap ?h"
    by (auto simp: wf_heap_def heap_order_def heapnode_zero_def less_eq_timeval_def timercmp_less_def)
  have "nodecount ?h = 2" by simp
  with wf heap_drain_sorted [OF wf] show ?thesis by metis
qed

end
