(* ===== verification/QueControl.thy ===== *)
theory QueControl
  imports Interfaces
begin

text \<open>
  The message queues of \<open>quemngr\<close> (\<open>src/quemngr/quecontrol.c\<close>): growable arrays of message
  pointers.  A queue's array is \<open>None\<close> for the null pointer and otherwise the list of its
  \<open>nmax\<close> cells; a cell is \<open>None\<close> where it holds no pointer to a message of the queue (never
  written, or left over after a deletion), and reading such a cell or a cell outside the
  array is the fault \<open>OutOfBounds\<close>.  \<open>qsort\<close>, \<open>readdir\<close> and \<open>stat\<close> belong to the C library:
  the sort is an argument of the operations that call it, a directory is the list of the
  entries read from it.
\<close>

section \<open>Data\<close>

record msg =
  m_inode :: ino_t
  m_modtime :: timeval
  m_state :: int

record msglist =
  ml_msg :: "msg option list option"
  nmax :: int
  total :: int
  conf :: int
  send :: int
  dir :: string
  timeout :: int

definition ARINIT :: int where "ARINIT = 4"
definition ARGROW :: int where "ARGROW = 2"

definition msglist_zero :: msglist where
  "msglist_zero = \<lparr>ml_msg = None, nmax = 0, total = 0, conf = 0, send = 0, dir = [], timeout = 0\<rparr>"

section \<open>Operations\<close>

definition mtimecomp :: "msg \<Rightarrow> msg \<Rightarrow> int" where
  "mtimecomp m1 m2 =
     (let diff = ((tv_sec (m_modtime m1) - tv_sec (m_modtime m2)) * 1000000
                   + tv_usec (m_modtime m1)) - tv_usec (m_modtime m2)
      in if diff < 0 then -1 else if diff > 0 then 1 else 0)"

definition elem_new :: "ino_t \<Rightarrow> timeval \<Rightarrow> int \<Rightarrow> msg" where
  "elem_new ino mtime st = \<lparr>m_inode = ino, m_modtime = mtime, m_state = st\<rparr>"

definition elem_store :: "msglist \<Rightarrow> msg \<Rightarrow> (int \<times> msglist) res" where
  "elem_store l e =
     (case ml_msg l of
        None \<Rightarrow> Inl NullDeref
      | Some cs \<Rightarrow>
          if total l < 0 \<or> int (length cs) \<le> total l then Inl OutOfBounds
          else Inr (total l + 1, l\<lparr>ml_msg := Some (cs[nat (total l) := Some e]), total := total l + 1\<rparr>))"

definition elem_add :: "msglist \<Rightarrow> msg \<Rightarrow> (int \<times> msglist) res" where
  "elem_add l e =
     (case ml_msg l of
        None \<Rightarrow> elem_store (l\<lparr>ml_msg := Some (replicate (nat ARINIT) None), nmax := ARINIT, total := 0\<rparr>) e
      | Some cs \<Rightarrow>
          if total l \<ge> nmax l then
            (if INT_MAX < ARGROW * nmax l then Inl IntOverflow
             else elem_store
               (l\<lparr>ml_msg := Some (take (nat (ARGROW * nmax l)) cs
                             @ replicate (nat (ARGROW * nmax l) - length cs) None),
                  nmax := nmax l * ARGROW\<rparr>) e)
          else elem_store l e)"

definition msg_at :: "msglist \<Rightarrow> int \<Rightarrow> msg res" where
  "msg_at l i =
     (case ml_msg l of
        None \<Rightarrow> Inl NullDeref
      | Some cs \<Rightarrow>
          if i < 0 \<or> int (length cs) \<le> i then Inl OutOfBounds
          else (case cs ! nat i of None \<Rightarrow> Inl OutOfBounds | Some m \<Rightarrow> Inr m))"

function elem_find_from :: "msglist \<Rightarrow> ino_t \<Rightarrow> int \<Rightarrow> int res" where
  "elem_find_from l ino i =
     (if i < total l then
        res_bind (msg_at l i) (\<lambda>m. if m_inode m = ino then Inr i else elem_find_from l ino (i + 1))
      else Inr (-1))"
  by pat_completeness auto
termination
  by (relation "measure (\<lambda>(l, ino, i). nat (total l - i))") auto

definition elem_find :: "msglist \<Rightarrow> ino_t \<Rightarrow> int res" where
  "elem_find l ino = elem_find_from l ino 0"

text \<open>Cell \<open>i\<close> is freed, the cells after it move down by one, the last one is left over.\<close>

definition elem_cut :: "msglist \<Rightarrow> int \<Rightarrow> msglist" where
  "elem_cut l i =
     (case ml_msg l of
        None \<Rightarrow> l
      | Some cs \<Rightarrow>
          l\<lparr>ml_msg := Some (take (nat i) cs @ take (nat (total l - (i + 1))) (drop (nat (i + 1)) cs)
                        @ None # drop (nat (total l)) cs),
            total := total l - 1\<rparr>)"

function elem_del_from :: "msglist \<Rightarrow> ino_t \<Rightarrow> int \<Rightarrow> (int \<times> msglist) res" where
  "elem_del_from l ino i =
     (if i < total l then
        res_bind (msg_at l i)
          (\<lambda>m. if m_inode m = ino then Inr (1, elem_cut l i) else elem_del_from l ino (i + 1))
      else Inr (0, l))"
  by pat_completeness auto
termination
  by (relation "measure (\<lambda>(l, ino, i). nat (total l - i))") auto

definition elem_del :: "msglist \<Rightarrow> ino_t \<Rightarrow> (int \<times> msglist) res" where
  "elem_del l ino = elem_del_from l ino 0"

declare elem_find_from.simps [simp del] elem_del_from.simps [simp del]

text \<open>The global array of queues and its length are one list.\<close>

definition queue_add :: "msglist list \<Rightarrow> int \<times> msglist list" where
  "queue_add quelist = (let tempq = quelist @ [msglist_zero] in (int (length tempq) - 1, tempq))"

text \<open>
  A directory entry: its name and what \<open>stat\<close> says of it (\<open>None\<close> when the call fails): the
  inode, the seconds and the nanoseconds of the last modification.
\<close>

record dirent =
  d_name :: string
  d_stat :: "(ino_t \<times> int \<times> int) option"

definition CURDIR :: string where "CURDIR = ''.''"
definition PARENTDIR :: string where "PARENTDIR = ''..''"

primrec queue_restore_entries :: "msglist \<Rightarrow> int \<Rightarrow> dirent list \<Rightarrow> msglist res" where
  "queue_restore_entries l index [] = Inr l"
| "queue_restore_entries l index (e # es) =
     (if d_name e = CURDIR \<or> d_name e = PARENTDIR then queue_restore_entries l index es
      else case d_stat e of
        None \<Rightarrow> Inl (Exit 2)
      | Some (ino, sec, nsec) \<Rightarrow>
          res_bind (elem_add l (elem_new ino (Timeval sec (nsec div 1000)) index))
            (\<lambda>(n, l1). queue_restore_entries l1 index es))"

definition queue_restore :: "msglist \<Rightarrow> int \<Rightarrow> dirent list option \<Rightarrow> (int \<times> msglist) res" where
  "queue_restore l index workdir =
     (case workdir of
        None \<Rightarrow> Inl NullDeref
      | Some es \<Rightarrow> res_bind (queue_restore_entries l index es) (\<lambda>l1. Inr (total l1, l1)))"

definition queue_comp :: "msglist \<Rightarrow> msglist \<Rightarrow> int" where
  "queue_comp q1 q2 =
     (let diff = timeout q1 - timeout q2 in if diff < 0 then -1 else if diff > 0 then 1 else 0)"

text \<open>\<open>qsort\<close> works on the first \<open>total\<close> cells and dereferences each of them.\<close>

definition queue_sort :: "(msg list \<Rightarrow> msg list) \<Rightarrow> msglist \<Rightarrow> msglist res" where
  "queue_sort qsort l =
     (case ml_msg l of
        None \<Rightarrow> if total l \<le> 0 then Inr l else Inl NullDeref
      | Some cs \<Rightarrow>
          if total l < 0 \<or> int (length cs) < total l \<or> None \<in> set (take (nat (total l)) cs)
          then Inl OutOfBounds
          else Inr (l\<lparr>ml_msg := Some (map Some (qsort (map the (take (nat (total l)) cs)))
                                  @ drop (nat (total l)) cs)\<rparr>))"

text \<open>What the C library promises of \<open>qsort\<close> with comparison \<open>cmp\<close>.\<close>

definition is_qsort :: "('a \<Rightarrow> 'a \<Rightarrow> int) \<Rightarrow> ('a list \<Rightarrow> 'a list) \<Rightarrow> bool" where
  "is_qsort cmp f \<longleftrightarrow>
     (\<forall>xs. mset (f xs) = mset xs \<and> sorted_wrt (\<lambda>x y. cmp x y \<le> 0) (f xs))"

section \<open>Well-formedness and contents\<close>

text \<open>The first \<open>total\<close> cells hold the messages, the others none.\<close>

definition live :: "msglist \<Rightarrow> msg list" where
  "live l = (case ml_msg l of None \<Rightarrow> [] | Some cs \<Rightarrow> map the (take (nat (total l)) cs))"

definition wf_msglist :: "msglist \<Rightarrow> bool" where
  "wf_msglist l \<longleftrightarrow>
     (case ml_msg l of
        None \<Rightarrow> nmax l = 0 \<and> (total l = 0 \<or> total l = -1)
      | Some cs \<Rightarrow> nmax l = int (length cs) \<and> ARINIT \<le> nmax l \<and> 0 \<le> total l \<and> total l \<le> nmax l
          \<and> None \<notin> set (take (nat (total l)) cs) \<and> set (drop (nat (total l)) cs) \<subseteq> {None})"

definition msg_room :: "msglist \<Rightarrow> bool" where
  "msg_room l \<longleftrightarrow> ARGROW * nmax l \<le> INT_MAX"

lemmas msglist_defs = wf_msglist_def live_def ARINIT_def ARGROW_def

lemma wf_msglist_zero [simp]: "wf_msglist msglist_zero"
  by (simp add: msglist_zero_def wf_msglist_def)

lemma live_zero [simp]: "live msglist_zero = []"
  by (simp add: msglist_zero_def live_def)

lemma wf_msglist_cases:
  assumes "wf_msglist l"
  obtains (null) "ml_msg l = None" "total l \<le> 0" "nmax l = 0" "live l = []"
  | (cells) ms rest where "ml_msg l = Some (map Some ms @ rest)" "total l = int (length ms)"
      "nmax l = int (length ms + length rest)" "live l = ms" "ARINIT \<le> nmax l" "set rest \<subseteq> {None}"
proof (cases "ml_msg l")
  case None
  then show ?thesis using assms null by (auto simp: wf_msglist_def live_def)
next
  case (Some cs)
  let ?ms = "map the (take (nat (total l)) cs)" and ?rest = "drop (nat (total l)) cs"
  have w: "nmax l = int (length cs)" "ARINIT \<le> nmax l" "0 \<le> total l" "total l \<le> nmax l"
      "None \<notin> set (take (nat (total l)) cs)" "set ?rest \<subseteq> {None}"
    using assms Some by (auto simp: wf_msglist_def)
  have "map Some ?ms = take (nat (total l)) cs"
    unfolding map_map using w(5) by (intro map_idI) (metis comp_apply option.collapse)
  then have "cs = map Some ?ms @ ?rest" by simp
  with Some w show ?thesis using cells [of ?ms ?rest] by (auto simp: live_def)
qed

lemma wf_msglistI:
  assumes "ml_msg l = Some (map Some ms @ rest)" "total l = int (length ms)"
      "nmax l = int (length ms + length rest)" "ARINIT \<le> nmax l" "set rest \<subseteq> {None}"
  shows "wf_msglist l" and "live l = ms"
  using assms by (auto simp: wf_msglist_def live_def)

lemma total_eq_length:
  "wf_msglist l \<Longrightarrow> ml_msg l \<noteq> None \<Longrightarrow> total l = int (length (live l))"
  by (erule wf_msglist_cases) auto

lemma total_le_length: "wf_msglist l \<Longrightarrow> total l \<le> int (length (live l))"
  by (erule wf_msglist_cases) auto

lemma total_of_live: "wf_msglist l \<Longrightarrow> live l \<noteq> [] \<Longrightarrow> total l = int (length (live l))"
  by (erule wf_msglist_cases) auto

lemma msg_at_live:
  assumes "wf_msglist l" and "0 \<le> i" and "i < total l"
  shows "msg_at l i = Inr (live l ! nat i)"
  using assms(1)
proof (cases rule: wf_msglist_cases)
  case null
  then show ?thesis using assms by simp
next
  case (cells ms rest)
  then show ?thesis using assms by (auto simp: msg_at_def nth_append)
qed

lemma msg_at_end: "wf_msglist l \<Longrightarrow> total l \<le> i \<Longrightarrow> 0 \<le> i \<Longrightarrow> nmax l \<le> i \<Longrightarrow> \<not> is_ok (msg_at l i)"
  by (auto simp: wf_msglist_def msg_at_def split: option.splits)

lemma elem_store_law:
  assumes "ml_msg l = Some (map Some ms @ rest)" "total l = int (length ms)"
      "nmax l = int (length ms + length rest)" "ARINIT \<le> nmax l" "rest \<noteq> []" "set rest \<subseteq> {None}"
  shows "\<exists>l'. elem_store l e = Inr (int (length ms) + 1, l') \<and> wf_msglist l' \<and> live l' = ms @ [e]
    \<and> nmax l' = nmax l \<and> l' = l\<lparr>ml_msg := ml_msg l', nmax := nmax l', total := total l + 1\<rparr>"
proof -
  obtain r rest' where rest: "rest = r # rest'" using assms(5) by (cases rest) auto
  let ?l = "l\<lparr>ml_msg := Some (map Some (ms @ [e]) @ rest'), total := int (length ms) + 1\<rparr>"
  have "elem_store l e = Inr (int (length ms) + 1, ?l)"
    using assms rest by (simp add: elem_store_def list_update_append)
  moreover have "wf_msglist ?l" "live ?l = ms @ [e]"
    by (rule wf_msglistI [of ?l "ms @ [e]" rest']; use assms rest in simp)+
  ultimately show ?thesis using assms by auto
qed

lemma elem_add_law:
  assumes "wf_msglist l" and "msg_room l"
  shows "\<exists>l'. elem_add l e = Inr (int (length (live l)) + 1, l') \<and> wf_msglist l' \<and> live l' = live l @ [e]
    \<and> l' = l\<lparr>ml_msg := ml_msg l', nmax := nmax l', total := int (length (live l)) + 1\<rparr>"
  using assms(1)
proof (cases rule: wf_msglist_cases)
  case null
  let ?l = "l\<lparr>ml_msg := Some (replicate (nat ARINIT) None), nmax := ARINIT, total := 0\<rparr>"
  have "elem_add l e = elem_store ?l e" using null by (simp add: elem_add_def)
  then show ?thesis
    using elem_store_law [of ?l "[]" "replicate (nat ARINIT) None" e] null
    by (auto simp: ARINIT_def)
next
  case (cells ms rest)
  show ?thesis
  proof (cases "total l \<ge> nmax l")
    case False
    then have "elem_add l e = elem_store l e" using cells by (simp add: elem_add_def)
    moreover have "rest \<noteq> []" using False cells by auto
    ultimately show ?thesis using elem_store_law [of l ms rest e] cells by auto
  next
    case True
    then have rest: "rest = []" using cells by simp
    let ?n = "length ms"
    have "?n > 0" using cells rest by (auto simp: ARINIT_def)
    moreover let ?l = "l\<lparr>ml_msg := Some (map Some ms @ replicate ?n None), nmax := nmax l * 2\<rparr>"
    have "nat (2 * int ?n) = 2 * ?n" by simp
    then have "elem_add l e = elem_store ?l e"
      using True cells rest assms(2) by (simp add: elem_add_def msg_room_def ARGROW_def)
    ultimately show ?thesis
      using elem_store_law [of ?l ms "replicate ?n None" e] cells rest by (auto simp: ARINIT_def)
  qed
qed

lemma elem_find_from_law:
  "wf_msglist l \<Longrightarrow> 0 \<le> i \<Longrightarrow>
   elem_find_from l ino i =
     Inr (case first_idx (\<lambda>m. m_inode m = ino) (drop (nat i) (live l)) of
            None \<Rightarrow> -1 | Some k \<Rightarrow> i + int k)"
proof (induction l ino i rule: elem_find_from.induct)
  case (1 l ino i)
  show ?case
  proof (cases "i < total l")
    case True
    then have "nat i < length (live l)" using total_le_length [OF "1.prems"(1)] "1.prems"(2) by linarith
    then have d: "drop (nat i) (live l) = live l ! nat i # drop (nat (i + 1)) (live l)"
      using "1.prems"(2) by (simp add: Cons_nth_drop_Suc nat_add_distrib)
    show ?thesis
      using True "1" msg_at_live [OF "1.prems" True]
      by (subst elem_find_from.simps) (auto simp: d split: option.splits)
  next
    case False
    then have "drop (nat i) (live l) = []"
      using total_of_live [OF "1.prems"(1)] "1.prems"(2) by (cases "live l = []") auto
    with False show ?thesis by (subst elem_find_from.simps) simp
  qed
qed

lemma elem_find_law:
  "wf_msglist l \<Longrightarrow>
   elem_find l ino = Inr (case first_idx (\<lambda>m. m_inode m = ino) (live l) of None \<Rightarrow> -1 | Some k \<Rightarrow> int k)"
  by (simp add: elem_find_def elem_find_from_law split: option.split)

lemma elem_cut_cells:
  assumes "ml_msg l = Some (map Some ms @ rest)" "total l = int (length ms)" "0 \<le> i" "i < total l"
  shows "elem_cut l i = l\<lparr>ml_msg := Some (map Some (take (nat i) ms @ drop (nat i + 1) ms) @ None # rest),
    total := total l - 1\<rparr>"
proof -
  have "nat i < length ms" "nat (i + 1) = nat i + 1"
    "nat (int (length ms) - (i + 1)) = length ms - (nat i + 1)"
    using assms by auto
  then show ?thesis using assms by (simp add: elem_cut_def take_map drop_map)
qed

lemma elem_cut_law:
  assumes "wf_msglist l" and "0 \<le> i" and "i < total l"
  shows "wf_msglist (elem_cut l i) \<and> live (elem_cut l i) = take (nat i) (live l) @ drop (nat i + 1) (live l)"
  using assms(1)
proof (cases rule: wf_msglist_cases)
  case null
  then show ?thesis using assms by simp
next
  case (cells ms rest)
  let ?ms = "take (nat i) ms @ drop (nat i + 1) ms"
  have i: "nat i < length ms" using assms cells by auto
  note c = elem_cut_cells [OF cells(1,2) assms(2,3)]
  have "ml_msg (elem_cut l i) = Some (map Some ?ms @ None # rest)"
    "total (elem_cut l i) = int (length ?ms)" "ARINIT \<le> nmax (elem_cut l i)"
    "nmax (elem_cut l i) = int (length ?ms + length (None # rest))" "set (None # rest) \<subseteq> {None}"
    using c cells i by auto
  then show ?thesis using wf_msglistI [of "elem_cut l i" ?ms "None # rest"] cells by simp
qed

lemma elem_cut_frame: "elem_cut l i = l\<lparr>ml_msg := ml_msg (elem_cut l i), total := total (elem_cut l i)\<rparr>"
  by (simp add: elem_cut_def split: option.split)

lemma elem_del_from_law:
  assumes "wf_msglist l" and "0 \<le> i" and "\<forall>m \<in> set (take (nat i) (live l)). m_inode m \<noteq> ino"
  shows "\<exists>l'. elem_del_from l ino i = Inr (if ino \<in> m_inode ` set (live l) then 1 else 0, l')
    \<and> wf_msglist l' \<and> live l' = remove_first (\<lambda>m. m_inode m = ino) (live l)
    \<and> l' = l\<lparr>ml_msg := ml_msg l', total := total l'\<rparr>"
  using assms
proof (induction l ino i rule: elem_del_from.induct)
  case (1 l ino i)
  show ?case
  proof (cases "i < total l")
    case False
    then have "take (nat i) (live l) = live l"
      using total_of_live [OF "1.prems"(1)] "1.prems"(2) by (cases "live l = []") auto
    with False "1.prems" show ?thesis by (subst elem_del_from.simps) auto
  next
    case True
    let ?m = "live l ! nat i"
    have i: "nat i < length (live l)"
      using True total_le_length [OF "1.prems"(1)] "1.prems"(2) by linarith
    note at = msg_at_live [OF "1.prems"(1,2) True]
    have split: "live l = take (nat i) (live l) @ ?m # drop (nat i + 1) (live l)"
      using i by (simp add: id_take_nth_drop)
    show ?thesis
    proof (cases "m_inode ?m = ino")
      case True
      have "remove_first (\<lambda>m. m_inode m = ino) (live l) = take (nat i) (live l) @ drop (nat i + 1) (live l)"
        by (subst split, subst remove_first_append_none) (use "1.prems"(3) True in auto)
      moreover have "ino \<in> m_inode ` set (live l)" using True i by auto
      moreover have "elem_del_from l ino i = Inr (1, elem_cut l i)"
        using at True \<open>i < total l\<close> by (subst elem_del_from.simps) simp
      ultimately show ?thesis
        using elem_cut_law [OF "1.prems"(1,2) \<open>i < total l\<close>] elem_cut_frame by simp
    next
      case False
      have "\<forall>m \<in> set (take (nat (i + 1)) (live l)). m_inode m \<noteq> ino"
        using "1.prems" False i by (auto simp: nat_add_distrib take_Suc_conv_app_nth)
      moreover have "elem_del_from l ino i = elem_del_from l ino (i + 1)"
        using at False True by (subst elem_del_from.simps) simp
      ultimately show ?thesis using "1.IH" [OF True at False] "1.prems" by simp
    qed
  qed
qed

lemma elem_del_law:
  assumes "wf_msglist l"
  shows "\<exists>l'. elem_del l ino = Inr (if ino \<in> m_inode ` set (live l) then 1 else 0, l')
    \<and> wf_msglist l' \<and> live l' = remove_first (\<lambda>m. m_inode m = ino) (live l)
    \<and> l' = l\<lparr>ml_msg := ml_msg l', total := total l'\<rparr>"
  using elem_del_from_law [OF assms, of 0 ino] by (simp add: elem_del_def)

section \<open>The queue is a keyed list\<close>

interpretation queue: keyed_list elem_add elem_find elem_del live m_inode wf_msglist msg_room
proof (unfold_locales, goal_cases)
  case (1 l e)
  then show ?case using elem_add_law [of l e] by blast
next
  case (2 l k)
  then show ?case by (rule elem_find_law)
next
  case (3 l k)
  then show ?case using elem_del_law [of l k] by blast
qed

section \<open>Sorting and restoring\<close>

definition mtime_key :: "msg \<Rightarrow> int" where
  "mtime_key m = tv_sec (m_modtime m) * 1000000 + tv_usec (m_modtime m)"

lemma mtimecomp_le: "mtimecomp m1 m2 \<le> 0 \<longleftrightarrow> mtime_key m1 \<le> mtime_key m2"
  by (auto simp: mtimecomp_def mtime_key_def Let_def)

text \<open>Time stamps from \<open>stat\<close>: the microseconds stay below one second.\<close>

definition stat_time :: "msg \<Rightarrow> bool" where
  "stat_time m \<longleftrightarrow> 0 \<le> tv_usec (m_modtime m) \<and> tv_usec (m_modtime m) < 1000000"

lemma mtime_key_le:
  "stat_time m1 \<Longrightarrow> stat_time m2 \<Longrightarrow> mtime_key m1 \<le> mtime_key m2 \<longleftrightarrow> m_modtime m1 \<le> m_modtime m2"
  by (cases "m_modtime m1"; cases "m_modtime m2")
    (auto simp: stat_time_def mtime_key_def less_eq_timeval_def timercmp_less_def)

lemma is_qsort_sort_key: "is_qsort mtimecomp (sort_key mtime_key)"
  using sorted_sort_key [of mtime_key] by (simp add: is_qsort_def mtimecomp_le sorted_map)

lemma is_qsort_set: "is_qsort cmp f \<Longrightarrow> set (f xs) = set xs"
  unfolding is_qsort_def by (metis set_mset_mset)

lemma is_qsort_length: "is_qsort cmp f \<Longrightarrow> length (f xs) = length xs"
  unfolding is_qsort_def by (metis size_mset)

lemma queue_sort_cells:
  assumes "ml_msg l = Some (map Some ms @ rest)" "total l = int (length ms)"
  shows "queue_sort f l = Inr (l\<lparr>ml_msg := Some (map Some (f ms) @ rest)\<rparr>)"
  using assms by (simp add: queue_sort_def)

lemma queue_sort_law:
  assumes wf: "wf_msglist l" and q: "is_qsort mtimecomp f"
  shows "\<exists>l'. queue_sort f l = Inr l' \<and> wf_msglist l' \<and> mset (live l') = mset (live l)
    \<and> sorted (map mtime_key (live l')) \<and> l' = l\<lparr>ml_msg := ml_msg l'\<rparr>"
  using wf
proof (cases rule: wf_msglist_cases)
  case null
  then show ?thesis using wf by (simp add: queue_sort_def)
next
  case (cells ms rest)
  let ?l = "l\<lparr>ml_msg := Some (map Some (f ms) @ rest)\<rparr>"
  have "wf_msglist ?l" "live ?l = f ms"
    by (rule wf_msglistI [of ?l "f ms" rest]; use cells is_qsort_length [OF q, of ms] in simp)+
  then show ?thesis
    using queue_sort_cells [OF cells(1,2)] q cells
    by (auto simp: is_qsort_def mtimecomp_le sorted_map)
qed

lemma elem_add_nmax:
  assumes "wf_msglist l" and "elem_add l e = Inr (n, l')"
  shows "nmax l' \<le> max (max ARINIT (nmax l)) (2 * int (length (live l)))"
  using assms(1)
proof (cases rule: wf_msglist_cases)
  case null
  then show ?thesis using assms(2) by (auto simp: elem_add_def elem_store_def split: if_splits)
next
  case (cells ms rest)
  then show ?thesis using assms(2)
    by (auto simp: elem_add_def elem_store_def ARGROW_def ARINIT_def split: if_splits)
qed

text \<open>Enough range of \<open>int\<close> for \<open>n\<close> further messages.\<close>

definition room_for :: "nat \<Rightarrow> msglist \<Rightarrow> bool" where
  "room_for n l \<longleftrightarrow> 2 * nmax l \<le> INT_MAX \<and> 4 * (int (length (live l)) + int n) \<le> INT_MAX"

lemma room_for_add:
  assumes "wf_msglist l" and "room_for (Suc n) l"
  shows "\<exists>l'. elem_add l e = Inr (int (length (live l)) + 1, l') \<and> wf_msglist l' \<and> room_for n l'
    \<and> live l' = live l @ [e]"
proof -
  have "msg_room l" using assms(2) by (simp add: room_for_def msg_room_def ARGROW_def)
  from elem_add_law [OF assms(1) this, of e] obtain l' where
    l': "elem_add l e = Inr (int (length (live l)) + 1, l')" "wf_msglist l'" "live l' = live l @ [e]"
    by blast
  have "room_for n l'"
    using elem_add_nmax [OF assms(1) l'(1)] assms(2) l'(3)
    by (auto simp: room_for_def ARINIT_def INT_MAX_def)
  with l' show ?thesis by blast
qed

text \<open>The messages a directory stands for.\<close>

definition dir_msgs :: "int \<Rightarrow> dirent list \<Rightarrow> msg list" where
  "dir_msgs index es =
     map (\<lambda>e. case the (d_stat e) of (ino, sec, nsec) \<Rightarrow> elem_new ino (Timeval sec (nsec div 1000)) index)
       (filter (\<lambda>e. d_name e \<noteq> CURDIR \<and> d_name e \<noteq> PARENTDIR) es)"

definition stats_ok :: "dirent list \<Rightarrow> bool" where
  "stats_ok es \<longleftrightarrow> (\<forall>e \<in> set es. d_name e = CURDIR \<or> d_name e = PARENTDIR \<or> d_stat e \<noteq> None)"

lemma room_for_mono: "room_for n l \<Longrightarrow> m \<le> n \<Longrightarrow> room_for m l"
  by (auto simp: room_for_def)

lemma queue_restore_entries_law:
  "wf_msglist l \<Longrightarrow> stats_ok es \<Longrightarrow> room_for (length es) l \<Longrightarrow>
   \<exists>l'. queue_restore_entries l index es = Inr l' \<and> wf_msglist l' \<and> live l' = live l @ dir_msgs index es"
proof (induction es arbitrary: l)
  case Nil
  then show ?case by (simp add: dir_msgs_def)
next
  case (Cons e es)
  have ok: "stats_ok es" using Cons.prems(2) by (simp add: stats_ok_def)
  show ?case
  proof (cases "d_name e = CURDIR \<or> d_name e = PARENTDIR")
    case True
    with Cons ok room_for_mono [of "length (e # es)" l "length es"] show ?thesis
      by (auto simp: dir_msgs_def)
  next
    case False
    then obtain ino sec nsec where st: "d_stat e = Some (ino, sec, nsec)"
      using Cons.prems(2) by (auto simp: stats_ok_def)
    let ?m = "elem_new ino (Timeval sec (nsec div 1000)) index"
    from room_for_add [OF Cons.prems(1), of "length es" ?m] Cons.prems(3) obtain l1 where
      l1: "elem_add l ?m = Inr (int (length (live l)) + 1, l1)" "wf_msglist l1" "room_for (length es) l1"
        "live l1 = live l @ [?m]"
      by auto
    from Cons.IH [OF l1(2) ok l1(3)] show ?thesis
      using False st l1 by (auto simp: dir_msgs_def)
  qed
qed

section \<open>Properties\<close>

text \<open>
  Adding a message with a new inode to a well-formed queue puts it at the end, where
  \<open>elem_find\<close> finds it; deleting it again reports one deletion and restores the contents;
  none of the three calls leaves the array.
\<close>

theorem elem_add_find_del:
  assumes "wf_msglist l" and "msg_room l" and "m_inode e \<notin> m_inode ` set (live l)"
  shows "\<exists>l1 l2. elem_add l e = Inr (int (length (live l)) + 1, l1)
    \<and> elem_find l1 (m_inode e) = Inr (int (length (live l)))
    \<and> elem_del l1 (m_inode e) = Inr (1, l2) \<and> wf_msglist l2 \<and> live l2 = live l"
proof -
  obtain l1 where l1: "elem_add l e = Inr (int (length (live l)) + 1, l1)" "wf_msglist l1"
    using elem_add_law [OF assms(1,2)] by blast
  obtain r l2 where l2: "elem_del l1 (m_inode e) = Inr (r, l2)" "wf_msglist l2"
    using elem_del_law [OF l1(2)] by blast
  show ?thesis
    using l1 l2 queue.find_after_add [OF assms(1) l1(1) assms(2,3)]
      queue.del_after_add [OF assms(1,2) l1(1) assms(3) l2(1)] by auto
qed

theorem elem_add_find_del_witness:
  "\<exists>l1 l2. elem_add msglist_zero (elem_new 9 (Timeval 0 0) 1) = Inr (1, l1)
    \<and> elem_find l1 9 = Inr 0 \<and> elem_del l1 9 = Inr (1, l2) \<and> live l2 = []"
  using elem_add_find_del [of msglist_zero "elem_new 9 (Timeval 0 0) 1"]
  by (auto simp: msg_room_def msglist_zero_def ARGROW_def INT_MAX_def live_def wf_msglist_def elem_new_def)

text \<open>
  Sorting a well-formed queue with the library's \<open>qsort\<close> and the comparison
  \<open>mtimecomp\<close> keeps the messages and orders them by modification time, oldest first.
\<close>

theorem queue_sort_by_mtime:
  assumes "wf_msglist l" and "is_qsort mtimecomp f" and "\<forall>m \<in> set (live l). stat_time m"
  shows "\<exists>l'. queue_sort f l = Inr l' \<and> wf_msglist l' \<and> mset (live l') = mset (live l)
    \<and> sorted (map m_modtime (live l'))"
proof -
  obtain l' where l': "queue_sort f l = Inr l'" "wf_msglist l'" "mset (live l') = mset (live l)"
      "sorted (map mtime_key (live l'))"
    using queue_sort_law [OF assms(1,2)] by blast
  have st: "stat_time m" if "m \<in> set (live l')" for m
    using l'(3) assms(3) that by (metis set_mset_mset)
  have "sorted_wrt (\<lambda>x y. mtime_key x \<le> mtime_key y) (live l')" using l'(4) by (simp add: sorted_map)
  then have "sorted_wrt (\<lambda>x y. m_modtime x \<le> m_modtime y) (live l')"
    by (rule sorted_wrt_mono_rel [rotated]) (simp add: st mtime_key_le)
  with l' show ?thesis by (simp add: sorted_map)
qed

theorem queue_sort_by_mtime_witness:
  "\<exists>l l'. length (live l) = 1 \<and> queue_sort (sort_key mtime_key) l = Inr l' \<and> sorted (map m_modtime (live l'))"
proof -
  let ?m = "elem_new 9 (Timeval 3 5) 1"
  let ?l = "msglist_zero\<lparr>ml_msg := Some [Some ?m, None, None, None], nmax := 4, total := 1\<rparr>"
  have wf: "wf_msglist ?l" and lv: "live ?l = [?m]"
    by (simp_all add: wf_msglist_def live_def ARINIT_def)
  then have "\<forall>m \<in> set (live ?l). stat_time m" by (simp add: stat_time_def elem_new_def)
  from queue_sort_by_mtime [OF wf is_qsort_sort_key this] obtain l' where
    "queue_sort (sort_key mtime_key) ?l = Inr l'" "sorted (map m_modtime (live l'))" by blast
  with lv show ?thesis by (intro exI [of _ ?l] exI [of _ l']) simp
qed

text \<open>
  Restoring a queue from its directory appends one message per entry other than the two
  dot entries, in the order read, with the entry's inode, its modification time in
  microseconds and the queue's index, and reports the new total.
\<close>

theorem queue_restore_reads_directory:
  assumes "wf_msglist l" and "stats_ok es" and "room_for (length es) l"
  shows "\<exists>l'. queue_restore l index (Some es) = Inr (total l', l') \<and> wf_msglist l'
    \<and> live l' = live l @ dir_msgs index es"
  using queue_restore_entries_law [OF assms, of index] by (auto simp: queue_restore_def)

theorem queue_restore_reads_directory_witness:
  "\<exists>l'. queue_restore msglist_zero 2
      (Some [\<lparr>d_name = ''.'', d_stat = None\<rparr>, \<lparr>d_name = ''17'', d_stat = Some (17, 5, 2500)\<rparr>])
     = Inr (total l', l') \<and> live l' = [elem_new 17 (Timeval 5 2) 2]"
  using queue_restore_reads_directory [of msglist_zero
      "[\<lparr>d_name = ''.'', d_stat = None\<rparr>, \<lparr>d_name = ''17'', d_stat = Some (17, 5, 2500)\<rparr>]" 2]
  by (auto simp: stats_ok_def room_for_def dir_msgs_def CURDIR_def PARENTDIR_def msglist_zero_def
      wf_msglist_def live_def INT_MAX_def)

end
