(* ===== verification/IecFrame.thy ===== *)
theory IecFrame
  imports Prelude
begin

text \<open>
  The frames of the link layer: the header of \<open>src/ieclink/iecsock.h\<close> with its bit fields
  and the classification functions of \<open>src/ieclink/iecsock_internal.h\<close>.  The union of the
  three control-field views is one 32-bit word, its four octets in memory order (the
  least significant octet is \<open>raw[0]\<close>); a bit field is a range of bits of that word, lowest
  bits first, as the compiler named in the Makefile lays them out.
\<close>

unbundle bit_operations_syntax

section \<open>Bit fields\<close>

definition bf_get :: "nat \<Rightarrow> nat \<Rightarrow> u32 \<Rightarrow> u32" where
  "bf_get off n c = take_bit n (drop_bit off c)"

definition bf_set :: "nat \<Rightarrow> nat \<Rightarrow> u32 \<Rightarrow> u32 \<Rightarrow> u32" where
  "bf_set off n v c = (c AND NOT (push_bit off (mask n))) OR push_bit off (take_bit n v)"

lemma bit_bf_set:
  "i < 32 \<Longrightarrow>
   bit (bf_set off n v c) i = (if off \<le> i \<and> i < off + n then bit v (i - off) else bit c i)"
  by (auto simp: bf_set_def bit_or_iff bit_and_iff bit_not_iff bit_push_bit_iff bit_take_bit_iff
      bit_mask_iff possible_bit_def)

lemma bit_bf_get: "bit (bf_get off n c) i \<longleftrightarrow> i < n \<and> bit c (off + i)"
  by (auto simp: bf_get_def bit_take_bit_iff bit_drop_bit_eq)

lemma bf_get_set_same:
  assumes "off + n \<le> 32"
  shows "bf_get off n (bf_set off n v c) = take_bit n v"
proof (rule bit_eqI)
  fix i assume "possible_bit TYPE(u32) i"
  then have "i < 32" by (simp add: possible_bit_def)
  then show "bit (bf_get off n (bf_set off n v c)) i = bit (take_bit n v) i"
    using assms by (auto simp: bit_bf_get bit_bf_set bit_take_bit_iff)
qed

lemma bf_get_set_other:
  assumes "off + n \<le> 32" and "off + n \<le> off' \<or> off' + n' \<le> off"
  shows "bf_get off n (bf_set off' n' v c) = bf_get off n c"
proof (rule bit_eqI)
  fix i assume "possible_bit TYPE(u32) i"
  then have "i < 32" by (simp add: possible_bit_def)
  then show "bit (bf_get off n (bf_set off' n' v c)) i = bit (bf_get off n c) i"
    using assms by (cases "i < n") (auto simp: bit_bf_get bit_bf_set)
qed

lemmas bf_simps = bf_get_set_same bf_get_set_other

section \<open>Headers and buffers\<close>

record iechdr =
  h_start :: u8
  h_length :: u8
  h_ctl :: u32

record iec_buf =
  b_data_len :: u8
  b_h :: iechdr
  b_data :: "u8 list"

definition raw :: "iechdr \<Rightarrow> nat \<Rightarrow> u8" where
  "raw h i = ucast (drop_bit (8 * i) (h_ctl h))"

definition hdr_bytes :: "iechdr \<Rightarrow> u8 list" where
  "hdr_bytes h = [h_start h, h_length h, raw h 0, raw h 1, raw h 2, raw h 3]"

definition hdr_of_bytes :: "u8 list \<Rightarrow> iechdr" where
  "hdr_of_bytes bs = \<lparr>h_start = bs ! 0, h_length = bs ! 1,
     h_ctl = ucast (bs ! 2) OR push_bit 8 (ucast (bs ! 3))
       OR push_bit 16 (ucast (bs ! 4)) OR push_bit 24 (ucast (bs ! 5))\<rparr>"

abbreviation (input) sizeof_iechdr :: nat where "sizeof_iechdr \<equiv> 6"

text \<open>The views \<open>ic\<close>, \<open>sc\<close> and \<open>uc\<close> of the control field.\<close>

definition ic_ns :: "iechdr \<Rightarrow> u16" where "ic_ns h = ucast (bf_get 1 15 (h_ctl h))"
definition ic_nr :: "iechdr \<Rightarrow> u16" where "ic_nr h = ucast (bf_get 17 15 (h_ctl h))"
definition sc_nr :: "iechdr \<Rightarrow> u16" where "sc_nr h = ucast (bf_get 17 15 (h_ctl h))"

definition set_ic_ft :: "u32 \<Rightarrow> iechdr \<Rightarrow> iechdr" where
  "set_ic_ft v h = h\<lparr>h_ctl := bf_set 0 1 v (h_ctl h)\<rparr>"
definition set_ic_ns :: "u16 \<Rightarrow> iechdr \<Rightarrow> iechdr" where
  "set_ic_ns v h = h\<lparr>h_ctl := bf_set 1 15 (ucast v) (h_ctl h)\<rparr>"
definition set_ic_nr :: "u16 \<Rightarrow> iechdr \<Rightarrow> iechdr" where
  "set_ic_nr v h = h\<lparr>h_ctl := bf_set 17 15 (ucast v) (h_ctl h)\<rparr>"
definition set_sc_ft :: "u32 \<Rightarrow> iechdr \<Rightarrow> iechdr" where
  "set_sc_ft v h = h\<lparr>h_ctl := bf_set 0 1 v (h_ctl h)\<rparr>"
definition set_sc_nr :: "u16 \<Rightarrow> iechdr \<Rightarrow> iechdr" where
  "set_sc_nr v h = h\<lparr>h_ctl := bf_set 17 15 (ucast v) (h_ctl h)\<rparr>"
definition set_uc_ft :: "u32 \<Rightarrow> iechdr \<Rightarrow> iechdr" where
  "set_uc_ft v h = h\<lparr>h_ctl := bf_set 0 2 v (h_ctl h)\<rparr>"

section \<open>Frame types\<close>

datatype frame_type = FRAME_TYPE_I | FRAME_TYPE_S | FRAME_TYPE_U

datatype uframe_func = STARTACT | STARTCON | STOPACT | STOPCON | TESTACT | TESTCON

definition frame_type :: "iechdr \<Rightarrow> frame_type" where
  "frame_type h =
     (if raw h 0 AND 0x1 = 0 then FRAME_TYPE_I
      else if raw h 0 AND 0x2 = 0 then FRAME_TYPE_S
      else FRAME_TYPE_U)"

definition uframe_func :: "iechdr \<Rightarrow> uframe_func" where
  "uframe_func h =
     (if raw h 0 AND 0x4 \<noteq> 0 then STARTACT
      else if raw h 0 AND 0x8 \<noteq> 0 then STARTCON
      else if raw h 0 AND 0x10 \<noteq> 0 then STOPACT
      else if raw h 0 AND 0x20 \<noteq> 0 then STOPCON
      else if raw h 0 AND 0x40 \<noteq> 0 then TESTACT
      else TESTCON)"

fun uframe_func_to_string :: "uframe_func \<Rightarrow> string" where
  "uframe_func_to_string STARTACT = ''STARTACT''"
| "uframe_func_to_string STARTCON = ''STARTCON''"
| "uframe_func_to_string STOPACT = ''STOPACT''"
| "uframe_func_to_string STOPCON = ''STOPCON''"
| "uframe_func_to_string TESTACT = ''TESTACT''"
| "uframe_func_to_string TESTCON = ''TESTCON''"

definition frame_to_string :: "iechdr \<Rightarrow> string" where
  "frame_to_string h =
     (case frame_type h of FRAME_TYPE_I \<Rightarrow> ''I'' | FRAME_TYPE_S \<Rightarrow> ''S'' | FRAME_TYPE_U \<Rightarrow> ''U'')"

section \<open>Building frames\<close>

definition hdr_zero :: iechdr where
  "hdr_zero = \<lparr>h_start = 0, h_length = 0, h_ctl = 0\<rparr>"

text \<open>The bit of the view \<open>uc\<close> each function sets.\<close>

fun uframe_bit :: "uframe_func \<Rightarrow> nat" where
  "uframe_bit STARTACT = 2"
| "uframe_bit STARTCON = 3"
| "uframe_bit STOPACT = 4"
| "uframe_bit STOPCON = 5"
| "uframe_bit TESTACT = 6"
| "uframe_bit TESTCON = 7"

definition uframe_hdr :: "uframe_func \<Rightarrow> iechdr" where
  "uframe_hdr func =
     (let h = set_uc_ft 3 (hdr_zero\<lparr>h_start := 0x68, h_length := 4\<rparr>)
      in h\<lparr>h_ctl := bf_set (uframe_bit func) 1 1 (h_ctl h)\<rparr>)"

definition sframe_hdr :: "u16 \<Rightarrow> iechdr" where
  "sframe_hdr vr = set_sc_nr vr (set_sc_ft 1 (hdr_zero\<lparr>h_start := 0x68, h_length := 4\<rparr>))"

definition iecsock_prepare_iframe :: "iec_buf \<Rightarrow> iec_buf" where
  "iecsock_prepare_iframe b =
     b\<lparr>b_h := set_ic_ft 0 ((b_h b)\<lparr>h_start := 0x68, h_length := b_data_len b + 4\<rparr>)\<rparr>"

text \<open>
  The bytes \<open>bufferevent_write(s->io, h, h->length + 2)\<close> takes from a buffer: past the end of
  the allocation they do not exist.
\<close>

definition iec_wire :: "iec_buf \<Rightarrow> u8 list res" where
  "iec_wire b =
     (let n = unat (h_length (b_h b)) + 2; bs = hdr_bytes (b_h b) @ b_data b
      in if length bs < n then Inl OutOfBounds else Inr (take n bs))"

section \<open>Reading back what was built\<close>

lemma bit_raw: "bit (raw h j) i \<longleftrightarrow> i < 8 \<and> bit (h_ctl h) (8 * j + i)"
  by (simp add: raw_def bit_ucast_iff bit_drop_bit_eq possible_bit_def)

lemma raw0_test [simp]:
  "raw h 0 AND 1 = 0 \<longleftrightarrow> \<not> bit (h_ctl h) 0"
  "raw h 0 AND 2 = 0 \<longleftrightarrow> \<not> bit (h_ctl h) 1"
  "raw h 0 AND 4 = 0 \<longleftrightarrow> \<not> bit (h_ctl h) 2"
  "raw h 0 AND 8 = 0 \<longleftrightarrow> \<not> bit (h_ctl h) 3"
  "raw h 0 AND 16 = 0 \<longleftrightarrow> \<not> bit (h_ctl h) 4"
  "raw h 0 AND 32 = 0 \<longleftrightarrow> \<not> bit (h_ctl h) 5"
  "raw h 0 AND 64 = 0 \<longleftrightarrow> \<not> bit (h_ctl h) 6"
  using and_exp_eq_0_iff_not_bit [of "raw h 0" 0] and_exp_eq_0_iff_not_bit [of "raw h 0" 1]
    and_exp_eq_0_iff_not_bit [of "raw h 0" 2] and_exp_eq_0_iff_not_bit [of "raw h 0" 3]
    and_exp_eq_0_iff_not_bit [of "raw h 0" 4] and_exp_eq_0_iff_not_bit [of "raw h 0" 5]
    and_exp_eq_0_iff_not_bit [of "raw h 0" 6]
  by (simp_all add: bit_raw numeral_2_eq_2)

lemma frame_type_bits:
  "frame_type h = (if \<not> bit (h_ctl h) 0 then FRAME_TYPE_I
     else if \<not> bit (h_ctl h) 1 then FRAME_TYPE_S else FRAME_TYPE_U)"
  by (simp add: frame_type_def)

lemma uframe_hdr_type: "frame_type (uframe_hdr f) = FRAME_TYPE_U"
  by (cases f) (simp_all add: frame_type_bits uframe_hdr_def set_uc_ft_def hdr_zero_def bit_bf_set)

lemma uframe_hdr_func: "uframe_func (uframe_hdr f) = f"
  by (cases f) (simp_all add: uframe_func_def uframe_hdr_def set_uc_ft_def hdr_zero_def bit_bf_set)

lemma hdr_length_simps [simp]:
  "h_length (uframe_hdr f) = 4" "h_start (uframe_hdr f) = 0x68"
  "h_length (sframe_hdr v) = 4" "h_start (sframe_hdr v) = 0x68"
  "h_length (set_ic_ns v h) = h_length h" "h_start (set_ic_ns v h) = h_start h"
  "h_length (set_ic_nr v h) = h_length h" "h_start (set_ic_nr v h) = h_start h"
  by (simp_all add: uframe_hdr_def sframe_hdr_def set_uc_ft_def set_sc_ft_def set_sc_nr_def
      set_ic_ns_def set_ic_nr_def)

lemma sframe_hdr_type: "frame_type (sframe_hdr v) = FRAME_TYPE_S"
  by (simp add: frame_type_bits sframe_hdr_def set_sc_ft_def set_sc_nr_def hdr_zero_def bit_bf_set)

lemma ucast_u16_u32: "(ucast (take_bit 15 (ucast (v :: u16) :: u32)) :: u16) = take_bit 15 v"
  by (rule bit_word_eqI) (auto simp: bit_ucast_iff bit_take_bit_iff)

lemma sframe_hdr_nr: "sc_nr (sframe_hdr v) = take_bit 15 v"
  by (simp add: sc_nr_def sframe_hdr_def set_sc_nr_def bf_simps ucast_u16_u32)

lemma ic_nr_eq_sc_nr: "ic_nr h = sc_nr h"
  by (simp add: ic_nr_def sc_nr_def)

lemma ic_fields [simp]:
  "ic_ns (set_ic_ns v h) = take_bit 15 v"
  "ic_nr (set_ic_ns v h) = ic_nr h"
  "ic_nr (set_ic_nr v h) = take_bit 15 v"
  "ic_ns (set_ic_nr v h) = ic_ns h"
  by (simp_all add: ic_ns_def ic_nr_def set_ic_ns_def set_ic_nr_def bf_simps ucast_u16_u32)

lemma frame_type_set_seq [simp]:
  "frame_type (set_ic_ns v h) = FRAME_TYPE_I \<longleftrightarrow> frame_type h = FRAME_TYPE_I"
  "frame_type (set_ic_nr v h) = FRAME_TYPE_I \<longleftrightarrow> frame_type h = FRAME_TYPE_I"
  by (auto simp: frame_type_bits set_ic_ns_def set_ic_nr_def bit_bf_set)

lemma prepare_iframe_type: "frame_type (b_h (iecsock_prepare_iframe b)) = FRAME_TYPE_I"
  by (simp add: iecsock_prepare_iframe_def frame_type_bits set_ic_ft_def bit_bf_set)

lemma prepare_iframe_fields [simp]:
  "b_data (iecsock_prepare_iframe b) = b_data b"
  "b_data_len (iecsock_prepare_iframe b) = b_data_len b"
  "h_length (b_h (iecsock_prepare_iframe b)) = b_data_len b + 4"
  "h_start (b_h (iecsock_prepare_iframe b)) = 0x68"
  by (simp_all add: iecsock_prepare_iframe_def set_ic_ft_def)

lemma take_bit_15_id: "unat (v :: u16) < 32768 \<Longrightarrow> take_bit 15 v = v"
  unfolding word_unat_eq_iff unsigned_take_bit_eq by (simp add: take_bit_nat_eq_self)

lemma length_hdr_bytes [simp]: "length (hdr_bytes h) = 6"
  by (simp add: hdr_bytes_def)

lemma hdr_of_bytes_hdr_bytes: "hdr_of_bytes (hdr_bytes h @ xs) = h"
proof -
  have "h_ctl (hdr_of_bytes (hdr_bytes h @ xs)) = h_ctl h"
  proof (rule bit_word_eqI)
    fix i assume "i < LENGTH(32)"
    then have i: "i < 8 \<or> 8 \<le> i \<and> i < 16 \<or> 16 \<le> i \<and> i < 24 \<or> 24 \<le> i \<and> i < 32" by auto
    have "bit (h_ctl (hdr_of_bytes (hdr_bytes h @ xs))) i \<longleftrightarrow>
        bit (raw h 0) i \<or> 8 \<le> i \<and> bit (raw h 1) (i - 8)
        \<or> 16 \<le> i \<and> bit (raw h 2) (i - 16) \<or> 24 \<le> i \<and> bit (raw h 3) (i - 24)"
      using \<open>i < LENGTH(32)\<close> less_imp_diff_less [of i 32]
      by (simp add: hdr_of_bytes_def hdr_bytes_def bit_or_iff bit_push_bit_iff bit_ucast_iff possible_bit_def)
    with i show "bit (h_ctl (hdr_of_bytes (hdr_bytes h @ xs))) i = bit (h_ctl h) i"
      by (elim disjE conjE) (auto simp add: bit_raw less_diff_conv2)
  qed
  then show ?thesis by (cases h) (simp add: hdr_of_bytes_def hdr_bytes_def)
qed

section \<open>Properties\<close>

text \<open>
  Every U frame the link layer builds is six octets starting with 0x68 and length 4 that
  read back as a U frame with the same function, and every S frame reads back as an S frame
  carrying the receive count modulo 2 to the 15.
\<close>

theorem control_frames_read_back:
  "hdr_of_bytes (hdr_bytes (uframe_hdr f)) = uframe_hdr f
   \<and> frame_type (uframe_hdr f) = FRAME_TYPE_U \<and> uframe_func (uframe_hdr f) = f
   \<and> h_start (uframe_hdr f) = 0x68 \<and> h_length (uframe_hdr f) = 4
   \<and> hdr_of_bytes (hdr_bytes (sframe_hdr v)) = sframe_hdr v
   \<and> frame_type (sframe_hdr v) = FRAME_TYPE_S \<and> sc_nr (sframe_hdr v) = take_bit 15 v
   \<and> h_start (sframe_hdr v) = 0x68 \<and> h_length (sframe_hdr v) = 4"
  using hdr_of_bytes_hdr_bytes [of _ "[]"]
  by (simp add: uframe_hdr_type uframe_hdr_func sframe_hdr_type sframe_hdr_nr)

text \<open>
  A buffer of at most 249 octets, prepared and numbered the way the write queue does it,
  is sent as its header followed by exactly its data, and the receiver reads back an I frame
  with the same length field, send and receive numbers and payload.
\<close>

theorem iframe_wire_roundtrip:
  assumes "length xs \<le> 249" and "b_data b = xs" and "b_data_len b = of_nat (length xs)"
    and "unat ns < 32768" and "unat nr < 32768"
  shows "\<exists>h bs. h = set_ic_ns ns (set_ic_nr nr (b_h (iecsock_prepare_iframe b)))
    \<and> iec_wire ((iecsock_prepare_iframe b)\<lparr>b_h := h\<rparr>) = Inr bs
    \<and> hdr_of_bytes bs = h \<and> frame_type h = FRAME_TYPE_I \<and> ic_ns h = ns \<and> ic_nr h = nr
    \<and> unat (h_length h) = length xs + 4 \<and> drop sizeof_iechdr bs = xs"
proof -
  let ?h = "set_ic_ns ns (set_ic_nr nr (b_h (iecsock_prepare_iframe b)))"
  have len: "unat (h_length ?h) = length xs + 4"
    using assms(1,3) by (simp add: unat_word_ariths unat_of_nat)
  have "iec_wire ((iecsock_prepare_iframe b)\<lparr>b_h := ?h\<rparr>) = Inr (hdr_bytes ?h @ xs)"
    using assms(2) len by (simp add: iec_wire_def Let_def)
  then show ?thesis
    using len assms(4,5)
    by (auto simp: hdr_of_bytes_hdr_bytes prepare_iframe_type take_bit_15_id)
qed

theorem iframe_wire_roundtrip_witness:
  "\<exists>b h bs. b_data b = [9, 8] \<and> iec_wire ((iecsock_prepare_iframe b)\<lparr>b_h := h\<rparr>) = Inr bs
    \<and> hdr_of_bytes bs = h \<and> ic_ns h = 3 \<and> ic_nr h = 5 \<and> drop sizeof_iechdr bs = [9, 8]"
proof -
  let ?b = "\<lparr>b_data_len = 2, b_h = hdr_zero, b_data = [9, 8]\<rparr>"
  have len: "length [9, 8 :: u8] \<le> 249" and data: "b_data ?b = [9, 8]"
    and dl: "b_data_len ?b = of_nat (length [9, 8 :: u8])"
    and ns: "unat (3 :: u16) < 32768" and nr: "unat (5 :: u16) < 32768"
    by simp_all
  from iframe_wire_roundtrip [OF len data dl ns nr] data show ?thesis by blast
qed

end
