(* ===== verification/IecSock.thy ===== *)
theory IecSock
  imports IecFrame
begin

text \<open>
  The link layer of \<open>src/ieclink/iecsock.c\<close>: a connection and the callbacks the event loop
  runs on it.  libevent and the operating system are outside the model.  The calls the code
  makes to them are recorded in order in the connection's \<open>io_log\<close>; what they answer comes
  in as an argument: \<open>e_pending\<close> (whether a timer is pending after the calls made so far),
  \<open>e_read\<close> (how many of the buffered octets a read hands over), and the results of the socket
  calls (\<open>conn_env\<close>, \<open>listen_env\<close>).  The hooks a program installs are functions on the
  connection and the program's own variables.  Debug output on \<open>stderr\<close> is left out.
\<close>

section \<open>Data\<close>

datatype station = IEC_SLAVE | IEC_MASTER

datatype timer = T0_TIMER | T1_TIMER | T2_TIMER | T3_TIMER | USER_EVENT | LISTEN_EVENT

datatype callback = T0_RUN | T1_RUN | T2_RUN | T3_RUN | CONNECT_WRITE | LISTEN_READ
  | USER_RUN | STDIN_READ

datatype ev_call =
    EvSet timer int callback
  | EvAdd timer "int option"
  | EvDel timer
  | BevNew int
  | BevWrite "u8 list"
  | BevWatermark int
  | BevEnable
  | BevDisable
  | BevFree
  | CloseFd int

record sockaddr_in =
  sin_family :: int
  sin_port :: u16
  sin_addr :: u32

record iecsock =
  s_sock :: int
  s_buf :: "u8 list"
  s_len :: u8
  s_left :: u8
  s_type :: station
  s_stopdt :: bool
  s_testfr :: bool
  s_w :: u16
  s_k :: u16
  s_va :: u16
  s_vr :: u16
  s_vs :: u16
  s_va_peer :: u16
  s_t0 :: u16
  s_t1 :: u16
  s_t2 :: u16
  s_t3 :: u16
  s_addr :: sockaddr_in
  s_write_q :: "iec_buf list"
  s_ackw_q :: "iec_buf list"
  s_xmit_cnt :: "64 word"
  s_usercb :: bool
  s_user_init :: bool
  io_in :: "u8 list"
  io_log :: "ev_call list"
  s_freed :: bool

record iecsock_options =
  o_w :: u16
  o_k :: u16
  o_t0 :: u16
  o_t1 :: u16
  o_t2 :: u16
  o_t3 :: u16

text \<open>
  The state an event callback works on: its connection, the connections it has registered
  anew, and the variables \<open>'g\<close> of the program that uses the link layer.
\<close>

record 'g st =
  st_s :: iecsock
  st_new :: "iecsock list"
  st_g :: 'g

type_synonym 'g hook = "'g st \<Rightarrow> 'g st res"

record 'g iechooks =
  connect_indication :: "'g hook option"
  activation_indication :: "'g hook option"
  deactivation_indication :: "'g hook option"
  disconnect_indication :: "(int \<Rightarrow> 'g hook) option"
  data_indication :: "(iec_buf \<Rightarrow> 'g hook) option"
  transmit_wakeup :: "'g hook option"

text \<open>Answers of the socket calls of one connection attempt.\<close>

record conn_env =
  ce_calloc :: bool
  ce_socket :: int
  ce_fcntl :: int
  ce_connect :: int
  ce_einprogress :: bool

record 'g env =
  e_hooks :: "'g iechooks"
  e_default :: "'g iechooks"
  e_calloc :: bool
  e_pending :: "ev_call list \<Rightarrow> timer \<Rightarrow> bool"
  e_read :: "u8 list \<Rightarrow> nat \<Rightarrow> nat"
  e_conn :: conn_env

definition IEC104_BUF_LEN :: nat where "IEC104_BUF_LEN = 255"
definition IEC_PORT_DEFAULT :: u16 where "IEC_PORT_DEFAULT = 2404"
definition IEC104_CTRL_LEN :: u8 where "IEC104_CTRL_LEN = 4"
definition IEC_APDU_MAX :: u8 where "IEC_APDU_MAX = 253"
definition IEC_APDU_MIN :: u8 where "IEC_APDU_MIN = 4"

definition log_call :: "ev_call \<Rightarrow> iecsock \<Rightarrow> iecsock" where
  "log_call c s = s\<lparr>io_log := io_log s @ [c]\<rparr>"

definition on_s :: "(iecsock \<Rightarrow> iecsock) \<Rightarrow> 'g st \<Rightarrow> 'g st" where
  "on_s f st = st\<lparr>st_s := f (st_s st)\<rparr>"

definition call_hook :: "'g hook option \<Rightarrow> 'g hook option \<Rightarrow> 'g hook" where
  "call_hook own deflt st =
     (case own of Some f \<Rightarrow> f st
      | None \<Rightarrow> (case deflt of Some f \<Rightarrow> f st | None \<Rightarrow> Inr st))"

section \<open>Sending control frames, timers\<close>

definition iecsock_uframe_send :: "uframe_func \<Rightarrow> iecsock \<Rightarrow> iecsock" where
  "iecsock_uframe_send func s =
     (log_call (BevWrite (hdr_bytes (uframe_hdr func))) s)\<lparr>s_xmit_cnt := s_xmit_cnt s + 1\<rparr>"

definition iecsock_sframe_send :: "iecsock \<Rightarrow> iecsock" where
  "iecsock_sframe_send s =
     (log_call (BevWrite (hdr_bytes (sframe_hdr (s_vr s)))) s)\<lparr>s_xmit_cnt := s_xmit_cnt s + 1\<rparr>"

definition t1_timer_start :: "iecsock \<Rightarrow> iecsock" where
  "t1_timer_start s = log_call (EvAdd T1_TIMER (Some (uint (s_t1 s)))) s"
definition t2_timer_start :: "iecsock \<Rightarrow> iecsock" where
  "t2_timer_start s = log_call (EvAdd T2_TIMER (Some (uint (s_t2 s)))) s"
definition t3_timer_start :: "iecsock \<Rightarrow> iecsock" where
  "t3_timer_start s = log_call (EvAdd T3_TIMER (Some (uint (s_t3 s)))) s"

definition t0_timer_stop :: "iecsock \<Rightarrow> iecsock" where "t0_timer_stop = log_call (EvDel T0_TIMER)"
definition t1_timer_stop :: "iecsock \<Rightarrow> iecsock" where "t1_timer_stop = log_call (EvDel T1_TIMER)"
definition t2_timer_stop :: "iecsock \<Rightarrow> iecsock" where "t2_timer_stop = log_call (EvDel T2_TIMER)"
definition t3_timer_stop :: "iecsock \<Rightarrow> iecsock" where "t3_timer_stop = log_call (EvDel T3_TIMER)"

definition t2_timer_run :: "iecsock \<Rightarrow> iecsock" where
  "t2_timer_run s = (let s = iecsock_sframe_send s in s\<lparr>s_va_peer := s_vr s\<rparr>)"

definition t3_timer_run :: "iecsock \<Rightarrow> iecsock" where
  "t3_timer_run s = (let s = t1_timer_start s; s = s\<lparr>s_testfr := True\<rparr> in iecsock_uframe_send TESTACT s)"

section \<open>Queues\<close>

fun flush_queue :: "iec_buf list \<Rightarrow> iec_buf list" where
  "flush_queue [] = []"
| "flush_queue (b # q) = flush_queue q"

definition iecsock_flush_queues :: "iecsock \<Rightarrow> iecsock" where
  "iecsock_flush_queues s =
     s\<lparr>s_write_q := flush_queue (s_write_q s), s_ackw_q := flush_queue (s_ackw_q s)\<rparr>"

text \<open>One turn of the sending loop, for the buffer \<open>b\<close> at the head of the queue.\<close>

definition write_one :: "'g env \<Rightarrow> iecsock \<Rightarrow> iec_buf \<Rightarrow> iec_buf list \<Rightarrow> iecsock res" where
  "write_one env s b q =
     (let s = s\<lparr>s_write_q := q\<rparr>;
          b = b\<lparr>b_h := set_ic_ns (s_vs s) (set_ic_nr (s_vr s) (b_h b))\<rparr>;
          s = (if e_pending env (io_log s) T1_TIMER then t1_timer_stop s else s);
          s = t1_timer_start s
      in res_bind (iec_wire b) (\<lambda>bs.
           let s = log_call (BevWrite bs) s;
               s = s\<lparr>s_ackw_q := s_ackw_q s @ [b]\<rparr>;
               s = s\<lparr>s_vs := word_of_int (c_rem (uint (s_vs s) + 1) 32767)\<rparr>
           in Inr (s\<lparr>s_xmit_cnt := s_xmit_cnt s + 1\<rparr>)))"

definition window_full :: "iecsock \<Rightarrow> bool" where
  "window_full s \<longleftrightarrow> uint (s_vs s) = c_rem (uint (s_va s) + uint (s_k s)) 32767"

lemma write_one_q: "write_one env s b q = Inr s' \<Longrightarrow> s_write_q s' = q"
  by (auto simp: write_one_def Let_def log_call_def t1_timer_start_def t1_timer_stop_def
      elim!: res_bindE split: if_splits)

function write_loop :: "'g env \<Rightarrow> iecsock \<Rightarrow> iecsock res" where
  "write_loop env s =
     (case s_write_q s of
        [] \<Rightarrow> Inr s
      | b # q \<Rightarrow>
          if window_full s then Inr s
          else (case write_one env s b q of Inl e \<Rightarrow> Inl e | Inr s' \<Rightarrow> write_loop env s'))"
  by pat_completeness auto
termination
  by (relation "measure (\<lambda>(env, s). length (s_write_q s))") (auto dest: write_one_q)

declare write_loop.simps [simp del]

definition iecsock_run_write_queue :: "'g env \<Rightarrow> iecsock \<Rightarrow> iecsock res" where
  "iecsock_run_write_queue env s =
     (if s_type s = IEC_SLAVE \<and> s_stopdt s then Inr s else write_loop env s)"

fun ackw_drop :: "u16 \<Rightarrow> iec_buf list \<Rightarrow> iec_buf list" where
  "ackw_drop nr [] = []"
| "ackw_drop nr (b # q) = (if ic_ns (b_h b) = nr then b # q else ackw_drop nr q)"

definition iecsock_run_ackw_queue :: "u16 \<Rightarrow> iecsock \<Rightarrow> iecsock" where
  "iecsock_run_ackw_queue nr s = s\<lparr>s_ackw_q := ackw_drop nr (s_ackw_q s)\<rparr>"

definition check_nr :: "iecsock \<Rightarrow> u16 \<Rightarrow> bool" where
  "check_nr s nr \<longleftrightarrow>
     c_rem (uint nr - uint (s_va s) + 32767) 32767 \<le> c_rem (uint (s_vs s) - uint (s_va s) + 32767) 32767"

definition check_ns :: "iecsock \<Rightarrow> u16 \<Rightarrow> bool" where
  "check_ns s ns \<longleftrightarrow> ns = s_vr s"

text \<open>The size is an unsigned 64-bit value.\<close>

definition iecsock_can_queue :: "iecsock \<Rightarrow> 64 word" where
  "iecsock_can_queue s =
     word_of_int (uint (s_k s) - c_rem (uint (s_vs s) - uint (s_va s) + 32767) 32767)"

section \<open>Opening and closing connections\<close>

definition DEFAULT_W :: u16 where "DEFAULT_W = 8"
definition DEFAULT_K :: u16 where "DEFAULT_K = 12"
definition DEFAULT_T0 :: u16 where "DEFAULT_T0 = 30"
definition DEFAULT_T1 :: u16 where "DEFAULT_T1 = 15"
definition DEFAULT_T2 :: u16 where "DEFAULT_T2 = 10"
definition DEFAULT_T3 :: u16 where "DEFAULT_T3 = 13"

text \<open>What \<open>calloc\<close> returns.\<close>

definition iecsock_zero :: iecsock where
  "iecsock_zero = \<lparr>s_sock = 0, s_buf = replicate IEC104_BUF_LEN 0, s_len = 0, s_left = 0,
     s_type = IEC_SLAVE, s_stopdt = False, s_testfr = False, s_w = 0, s_k = 0,
     s_va = 0, s_vr = 0, s_vs = 0, s_va_peer = 0, s_t0 = 0, s_t1 = 0, s_t2 = 0, s_t3 = 0,
     s_addr = \<lparr>sin_family = 0, sin_port = 0, sin_addr = 0\<rparr>, s_write_q = [], s_ackw_q = [],
     s_xmit_cnt = 0, s_usercb = False, s_user_init = False, io_in = [], io_log = [], s_freed = False\<rparr>"

definition iecsock_set_defaults :: "iecsock \<Rightarrow> iecsock" where
  "iecsock_set_defaults s =
     (let s = s\<lparr>s_t0 := DEFAULT_T0, s_t1 := DEFAULT_T1, s_t2 := DEFAULT_T2, s_t3 := DEFAULT_T3,
                s_w := DEFAULT_W, s_k := DEFAULT_K, s_write_q := [], s_ackw_q := []\<rparr>;
          s = log_call (EvSet T1_TIMER (-1) T1_RUN) s;
          s = log_call (EvSet T2_TIMER (-1) T2_RUN) s
      in log_call (EvSet T3_TIMER (-1) T3_RUN) s)"

text \<open>The family \<open>AF_INET\<close>; 127.0.0.1 as an address in network order.\<close>

definition AF_INET :: int where "AF_INET = 2"
definition LOOPBACK :: u32 where "LOOPBACK = 0x0100007F"

text \<open>
  A connection attempt returns its status and the connection it registered, whose call trace
  starts with the registration; a socket it had to close again is the middle component.
\<close>

definition iecsock_connect ::
  "conn_env \<Rightarrow> sockaddr_in option \<Rightarrow> int \<times> ev_call list \<times> iecsock option" where
  "iecsock_connect ce addr =
     (if \<not> ce_calloc ce then (-1, [], None)
      else if ce_socket ce = -1 then (-1, [], None)
      else if ce_fcntl ce = -1 then (-1, [CloseFd (ce_socket ce)], None)
      else
        let s = iecsock_set_defaults (iecsock_zero\<lparr>s_sock := ce_socket ce\<rparr>);
            s = s\<lparr>s_type := IEC_MASTER, s_stopdt := True\<rparr>;
            s = (case addr of
                   Some a \<Rightarrow> s\<lparr>s_addr := a\<rparr>
                 | None \<Rightarrow> s\<lparr>s_addr := \<lparr>sin_family = AF_INET, sin_port = htons IEC_PORT_DEFAULT,
                                       sin_addr = LOOPBACK\<rparr>\<rparr>)
        in if ce_connect ce \<noteq> -1 \<and> \<not> ce_einprogress ce then (-1, [CloseFd (s_sock s)], None)
           else
             let s = log_call (EvSet T0_TIMER (s_sock s) CONNECT_WRITE) s;
                 s = log_call (EvAdd T0_TIMER (Some (uint (s_t0 s)))) s
             in (0, [], Some s))"

definition register :: "int \<times> ev_call list \<times> iecsock option \<Rightarrow> 'g st \<Rightarrow> 'g st" where
  "register r st =
     (case r of
        (ret, calls, None) \<Rightarrow> on_s (\<lambda>s. s\<lparr>io_log := io_log s @ calls\<rparr>) st
      | (ret, calls, Some s) \<Rightarrow> st\<lparr>st_new := st_new st @ [s]\<rparr>)"

definition iecsock_close :: "'g env \<Rightarrow> 'g st \<Rightarrow> 'g st res" where
  "iecsock_close env st =
     (if s_freed (st_s st) then Inl UseAfterFree
      else
        let st = on_s iecsock_flush_queues st;
            st = on_s (log_call (EvDel T0_TIMER)) st;
            st = on_s (log_call (EvDel T1_TIMER)) st;
            st = on_s (log_call (EvDel T2_TIMER)) st;
            st = on_s (log_call (EvDel T3_TIMER)) st;
            st = on_s (log_call (EvDel USER_EVENT)) st;
            st = on_s (log_call BevDisable) st;
            st = on_s (log_call BevFree) st;
            st = on_s (log_call (CloseFd (s_sock (st_s st)))) st;
            st = (if s_type (st_s st) = IEC_MASTER
                  then register (iecsock_connect (e_conn env) (Some (s_addr (st_s st)))) st else st)
        in Inr (on_s (\<lambda>s. s\<lparr>s_freed := True\<rparr>) st))"

definition buferrorcb :: "'g env \<Rightarrow> int \<Rightarrow> 'g st \<Rightarrow> 'g st res" where
  "buferrorcb env what st =
     res_bind (call_hook (map_option (\<lambda>f. f what) (disconnect_indication (e_hooks env)))
                         (map_option (\<lambda>f. f what) (disconnect_indication (e_default env))) st)
       (iecsock_close env)"

definition t1_timer_run :: "'g env \<Rightarrow> int \<Rightarrow> 'g st \<Rightarrow> 'g st res" where
  "t1_timer_run env what st = buferrorcb env what st"

section \<open>Receiving frames\<close>

text \<open>A program that has just handed its connection to a hook may have lost it.\<close>

definition touch :: "'g st \<Rightarrow> 'g st res" where
  "touch st = (if s_freed (st_s st) then Inl UseAfterFree else Inr st)"

definition run_wakeup :: "'g env \<Rightarrow> 'g st \<Rightarrow> 'g st res" where
  "run_wakeup env st =
     (if s_va (st_s st) = s_vs (st_s st)
      then call_hook (transmit_wakeup (e_hooks env)) (transmit_wakeup (e_default env))
             (on_s t1_timer_stop st)
      else Inr st)"

definition ack_peer :: "iecsock \<Rightarrow> iecsock" where
  "ack_peer s =
     (if c_rem (uint (s_vr s) - uint (s_va_peer s) + 32767) 32767 = uint (s_w s)
      then let s = iecsock_sframe_send s in s\<lparr>s_va_peer := s_vr s\<rparr> else s)"

definition iecsock_iframe_recv :: "'g env \<Rightarrow> iec_buf \<Rightarrow> 'g st \<Rightarrow> (int \<times> 'g st) res" where
  "iecsock_iframe_recv env buf st =
     (let h = b_h buf; buf = buf\<lparr>b_data_len := h_length h - 4\<rparr>
      in if \<not> check_nr (st_s st) (ic_nr h) then Inr (-1, st)
         else
           let st = on_s (\<lambda>s. s\<lparr>s_va := ic_nr h\<rparr>) st
           in res_bind (run_wakeup env st) (\<lambda>st. res_bind (touch st) (\<lambda>st.
              let st = on_s t2_timer_stop st; st = on_s t2_timer_start st
              in if \<not> check_ns (st_s st) (ic_ns h) then Inr (-1, st)
                 else
                   let st = on_s (\<lambda>s. s\<lparr>s_vr := word_of_int (c_rem (uint (s_vr s) + 1) 32767)\<rparr>) st;
                       st = on_s ack_peer st
                   in res_bind (call_hook (map_option (\<lambda>f. f buf) (data_indication (e_hooks env)))
                                  (map_option (\<lambda>f. f buf) (data_indication (e_default env))) st)
                        (\<lambda>st. Inr (0, st)))))"

definition iecsock_sframe_recv :: "'g env \<Rightarrow> iec_buf \<Rightarrow> 'g st \<Rightarrow> (int \<times> 'g st) res" where
  "iecsock_sframe_recv env buf st =
     (let h = b_h buf; buf = buf\<lparr>b_data_len := h_length h - 2\<rparr>
      in if \<not> check_nr (st_s st) (ic_nr h) then Inr (-1, st)
         else
           let st = on_s (iecsock_run_ackw_queue (ic_nr h)) st;
               st = on_s (\<lambda>s. s\<lparr>s_va := ic_nr h\<rparr>) st
           in res_bind (run_wakeup env st) (\<lambda>st. Inr (0, st)))"

definition iecsock_uframe_recv :: "'g env \<Rightarrow> iec_buf \<Rightarrow> 'g st \<Rightarrow> (int \<times> 'g st) res" where
  "iecsock_uframe_recv env buf st =
     (let s = st_s st;
          act = call_hook (activation_indication (e_hooks env)) (activation_indication (e_default env));
          deact = call_hook (deactivation_indication (e_hooks env)) (deactivation_indication (e_default env))
      in case uframe_func (b_h buf) of
           STARTACT \<Rightarrow>
             if s_type s \<noteq> IEC_SLAVE then Inr (-1, st)
             else
               let s = iecsock_uframe_send STARTCON (s\<lparr>s_stopdt := False\<rparr>)
               in res_bind (iecsock_run_write_queue env s) (\<lambda>s.
                  res_bind (act (st\<lparr>st_s := s\<rparr>)) (\<lambda>st. Inr (0, st)))
         | STARTCON \<Rightarrow>
             if s_type s \<noteq> IEC_MASTER then Inr (-1, st)
             else
               let s = (t1_timer_stop s)\<lparr>s_stopdt := False\<rparr>
               in res_bind (act (st\<lparr>st_s := s\<rparr>)) (\<lambda>st. Inr (0, st))
         | STOPACT \<Rightarrow>
             if s_type s \<noteq> IEC_SLAVE then Inr (-1, st)
             else
               let s = iecsock_uframe_send STOPCON (s\<lparr>s_stopdt := True\<rparr>)
               in res_bind (deact (st\<lparr>st_s := s\<rparr>)) (\<lambda>st. Inr (0, st))
         | STOPCON \<Rightarrow>
             if s_type s \<noteq> IEC_MASTER then Inr (-1, st)
             else res_bind (deact (st\<lparr>st_s := s\<lparr>s_stopdt := True\<rparr>\<rparr>)) (\<lambda>st. Inr (0, st))
         | TESTACT \<Rightarrow>
             let s = iecsock_uframe_send TESTCON s;
                 s = (if s_type s = IEC_SLAVE \<and> \<not> s_testfr s then t3_timer_stop s else s)
             in Inr (0, st\<lparr>st_s := s\<rparr>)
         | TESTCON \<Rightarrow>
             if \<not> s_testfr s then Inr (-1, st)
             else Inr (0, st\<lparr>st_s := (t1_timer_stop s)\<lparr>s_testfr := False\<rparr>\<rparr>))"

text \<open>
  The buffer a received frame is copied into: \<open>len\<close> octets from the header on, of which
  \<open>h->length + 2\<close> come from the connection's buffer.
\<close>

definition frame_copy :: "iecsock \<Rightarrow> iec_buf res" where
  "frame_copy s =
     (let n = unat (h_length (hdr_of_bytes (s_buf s))) + 2;
          bs = take n (s_buf s) @ replicate (unat (s_len s) - n) 0
      in if unat (s_len s) < n \<or> length (s_buf s) < n then Inl OutOfBounds
         else Inr \<lparr>b_data_len = 0, b_h = hdr_of_bytes bs, b_data = drop sizeof_iechdr bs\<rparr>)"

definition iecsock_frame_recv :: "'g env \<Rightarrow> 'g st \<Rightarrow> (int \<times> 'g st) res" where
  "iecsock_frame_recv env st =
     (let h = hdr_of_bytes (s_buf (st_s st))
      in if \<not> e_calloc env then Inr (-1, st)
         else
           let st = on_s t3_timer_stop st; st = on_s t3_timer_start st
           in res_bind (frame_copy (st_s st)) (\<lambda>buf.
                case frame_type h of
                  FRAME_TYPE_I \<Rightarrow>
                    if s_type (st_s st) = IEC_SLAVE \<and> s_stopdt (st_s st) then Inr (0, st)
                    else iecsock_iframe_recv env buf st
                | FRAME_TYPE_S \<Rightarrow> iecsock_sframe_recv env buf st
                | FRAME_TYPE_U \<Rightarrow> iecsock_uframe_recv env buf st))"

section \<open>Reading the stream\<close>

text \<open>\<open>bufferevent_read\<close>: the octets handed over go to position \<open>pos\<close> of the buffer.\<close>

definition bev_read :: "'g env \<Rightarrow> nat \<Rightarrow> nat \<Rightarrow> iecsock \<Rightarrow> (nat \<times> iecsock) res" where
  "bev_read env pos n s =
     (let r = e_read env (io_in s) n; bs = take r (io_in s)
      in if length (s_buf s) < pos + n then Inl OutOfBounds
         else Inr (r, s\<lparr>s_buf := take pos (s_buf s) @ bs @ drop (pos + length bs) (s_buf s),
                        io_in := drop r (io_in s)\<rparr>))"

definition iecsock_buffer_read ::
  "'g env \<Rightarrow> ('g env \<Rightarrow> 'g st \<Rightarrow> (int \<times> 'g st) res) \<Rightarrow> 'g st \<Rightarrow> 'g st res" where
  "iecsock_buffer_read env frame_recv st =
     (if s_left (st_s st) = 0 then
        res_bind (bev_read env 0 sizeof_iechdr (st_s st)) (\<lambda>(ret, s).
          if ret \<noteq> sizeof_iechdr then Inl AssertFailed
          else
            let h = hdr_of_bytes (s_buf s); st = st\<lparr>st_s := s\<rparr>
            in res_bind
                 (if h_start h \<noteq> 0x68 \<or> h_length h < IEC_APDU_MIN \<or> IEC_APDU_MAX < h_length h
                  then iecsock_close env st else Inr st) (\<lambda>st. res_bind (touch st) (\<lambda>st.
               let st = on_s (\<lambda>s. s\<lparr>s_left := h_length h - IEC104_CTRL_LEN, s_len := 6\<rparr>) st
               in if s_left (st_s st) \<noteq> 0
                  then Inr (on_s (log_call (BevWatermark (uint (s_left (st_s st))))) st)
                  else res_bind (frame_recv env st) (\<lambda>(ret, st). res_bind (touch st) (\<lambda>st.
                    if ret = 0
                    then Inr (on_s (\<lambda>s. log_call (BevWatermark 6) (s\<lparr>s_left := 0, s_len := 0\<rparr>)) st)
                    else iecsock_close env (on_s (log_call (BevWatermark 0)) st))))))
      else
        res_bind (bev_read env (unat (s_len (st_s st))) (unat (s_left (st_s st))) (st_s st)) (\<lambda>(ret, s).
          let s = s\<lparr>s_left := s_left s - of_nat ret, s_len := s_len s + of_nat ret\<rparr>;
              st = st\<lparr>st_s := s\<rparr>
          in if s_left s \<noteq> 0 then Inr st
             else res_bind (frame_recv env st) (\<lambda>(ret, st).
               res_bind (if ret \<noteq> 0 then res_bind (touch st) (iecsock_close env) else Inr st) (\<lambda>st.
               res_bind (touch st) (\<lambda>st.
                 Inr (on_s (\<lambda>s. log_call (BevWatermark 6) (s\<lparr>s_left := 0, s_len := 0\<rparr>)) st))))))"

text \<open>The read callback loops while octets are buffered; \<open>None\<close> is a loop out of fuel.\<close>

fun bufreadcb :: "nat \<Rightarrow> 'g env \<Rightarrow> 'g st \<Rightarrow> 'g st res option" where
  "bufreadcb 0 env st = None"
| "bufreadcb (Suc fuel) env st =
     (case touch st of
        Inl e \<Rightarrow> Some (Inl e)
      | Inr st \<Rightarrow>
          if io_in (st_s st) = [] then Some (Inr st)
          else (case iecsock_buffer_read env iecsock_frame_recv st of
                  Inl e \<Rightarrow> Some (Inl e)
                | Inr st \<Rightarrow> bufreadcb fuel env st))"

definition bufwritecb :: "'g st \<Rightarrow> 'g st" where
  "bufwritecb st = st"

section \<open>Establishing connections\<close>

definition t0_timer_run :: "'g env \<Rightarrow> 'g st \<Rightarrow> 'g st" where
  "t0_timer_run env st =
     (let st = register (iecsock_connect (e_conn env) (Some (s_addr (st_s st)))) st
      in on_s (\<lambda>s. s\<lparr>s_freed := True\<rparr>) st)"

text \<open>
  The write callback of a connecting socket: \<open>timeout\<close> is the flag \<open>EV_TIMEOUT\<close>, \<open>opt\<close> the
  pending socket error, \<open>bev\<close> whether \<open>bufferevent_new\<close> returned an object.
\<close>

definition connect_writecb :: "'g env \<Rightarrow> bool \<Rightarrow> int \<Rightarrow> bool \<Rightarrow> 'g st \<Rightarrow> 'g st res" where
  "connect_writecb env timeout opt bev st =
     (if timeout then Inr (on_s (\<lambda>s. log_call (EvAdd T0_TIMER (Some (uint (s_t0 s)))) s) st)
      else if opt \<noteq> 0 then
        let st = on_s (\<lambda>s. log_call (CloseFd (s_sock s)) s) st;
            st = on_s (log_call (EvSet T0_TIMER (-1) T0_RUN)) st
        in Inr (on_s (\<lambda>s. log_call (EvAdd T0_TIMER (Some (uint (s_t0 s)))) s) st)
      else
        let st = on_s t0_timer_stop st;
            st = on_s (\<lambda>s. log_call (BevNew (s_sock s)) s) st;
            st = (if bev then st
                  else on_s (\<lambda>s. (log_call (CloseFd (s_sock s)) s)\<lparr>s_freed := True\<rparr>) st)
        in res_bind (touch st) (\<lambda>st.
             let st = on_s (log_call (BevWatermark 6)) st;
                 st = on_s (log_call BevEnable) st;
                 st = on_s (iecsock_uframe_send STARTACT) st;
                 st = on_s t1_timer_start st
             in call_hook None (connect_indication (e_default env)) st))"

text \<open>Answers of the calls of the listening side for one incoming connection.\<close>

record listen_env =
  le_calloc :: bool
  le_accept :: int
  le_addr :: sockaddr_in
  le_setsockopt :: int
  le_bev :: bool

text \<open>
  The read callback of a listening socket: the calls on the listener's behalf, a fresh
  connection (or none, when a call fails) and the program's variables after its connect hook.
\<close>

definition listen_readcb ::
  "'g env \<Rightarrow> listen_env \<Rightarrow> 'g \<Rightarrow> (ev_call list \<times> 'g st option \<times> 'g) res" where
  "listen_readcb env le g =
     (let calls = [EvAdd LISTEN_EVENT None] in
      if \<not> le_calloc le then Inr (calls, None, g)
      else
        let s = iecsock_set_defaults iecsock_zero;
            s = s\<lparr>s_type := IEC_MASTER, s_stopdt := True\<rparr>;
            s = s\<lparr>s_addr := le_addr le, s_sock := le_accept le\<rparr>
        in if le_accept le = -1 then Inr (calls, None, g)
           else if le_setsockopt le = -1 then Inr (calls @ [CloseFd (s_sock s)], None, g)
           else if \<not> le_bev le then Inr (calls @ [CloseFd (s_sock s)], None, g)
           else
             let s = log_call (BevNew (s_sock s)) s;
                 s = log_call (BevWatermark 6) s;
                 s = log_call BevEnable s;
                 s = iecsock_uframe_send STARTACT s;
                 s = t1_timer_start s
             in res_bind (call_hook None (connect_indication (e_default env))
                            \<lparr>st_s = s, st_new = [], st_g = g\<rparr>)
                  (\<lambda>st. Inr (calls, Some st, st_g st)))"

record bind_env =
  be_calloc :: bool
  be_socket :: int
  be_fcntl :: int
  be_setsockopt :: int
  be_bind :: int
  be_listen :: int

definition INADDR_ANY :: u32 where "INADDR_ANY = 0"

text \<open>The status, the address bound when listening succeeds, and the calls on the listener.\<close>

definition iecsock_listen ::
  "bind_env \<Rightarrow> sockaddr_in option \<Rightarrow> int \<Rightarrow> int \<times> sockaddr_in option \<times> ev_call list" where
  "iecsock_listen be addr backlog =
     (if \<not> be_calloc be then (-1, None, [])
      else if be_socket be = -1 then (-1, None, [])
      else if be_fcntl be = -1 then (-1, None, [CloseFd (be_socket be)])
      else if be_setsockopt be = -1 then (-1, None, [CloseFd (be_socket be)])
      else
        let sock_addr = (case addr of
               None \<Rightarrow> \<lparr>sin_family = AF_INET, sin_port = htons IEC_PORT_DEFAULT, sin_addr = INADDR_ANY\<rparr>
             | Some a \<Rightarrow> a)
        in if be_bind be = -1 then (-1, None, [CloseFd (be_socket be)])
           else if be_listen be = -1 then (-1, None, [CloseFd (be_socket be)])
           else (0, Some sock_addr,
                  [EvSet LISTEN_EVENT (be_socket be) LISTEN_READ, EvAdd LISTEN_EVENT None]))"

section \<open>The user's timer, options and hooks\<close>

definition iecsock_user_timer_set :: "bool \<Rightarrow> iecsock \<Rightarrow> iecsock" where
  "iecsock_user_timer_set cb s =
     (if \<not> cb then s
      else log_call (EvSet USER_EVENT (-1) USER_RUN) (s\<lparr>s_usercb := True, s_user_init := True\<rparr>))"

definition iecsock_user_timer_run :: "'g hook \<Rightarrow> 'g st \<Rightarrow> 'g st res" where
  "iecsock_user_timer_run cb st = (if s_usercb (st_s st) then cb st else Inr st)"

definition iecsock_user_timer_start :: "int \<Rightarrow> iecsock \<Rightarrow> iecsock" where
  "iecsock_user_timer_start tv s =
     (if s_user_init s then log_call (EvAdd USER_EVENT (Some tv)) s else s)"

definition iecsock_user_timer_stop :: "iecsock \<Rightarrow> iecsock" where
  "iecsock_user_timer_stop s = log_call (EvDel USER_EVENT) s"

definition iecsock_set_options :: "iecsock_options \<Rightarrow> iecsock \<Rightarrow> iecsock" where
  "iecsock_set_options opt s =
     s\<lparr>s_t0 := o_t0 opt, s_t1 := o_t1 opt, s_t2 := o_t2 opt, s_t3 := o_t3 opt,
       s_w := o_w opt, s_k := o_k opt\<rparr>"

definition iecsock_set_hooks :: "'g iechooks \<Rightarrow> 'g env \<Rightarrow> 'g env" where
  "iecsock_set_hooks hooks env =
     env\<lparr>e_hooks := \<lparr>connect_indication = connect_indication hooks,
        activation_indication = activation_indication hooks,
        deactivation_indication = deactivation_indication hooks,
        disconnect_indication = disconnect_indication hooks,
        data_indication = data_indication hooks,
        transmit_wakeup = transmit_wakeup hooks\<rparr>\<rparr>"

end
