(* ===== verification/IecWindow.thy ===== *)
theory IecWindow
  imports IecSock
begin

text \<open>
  The sliding windows of the link layer: how many frames are in flight, which receive
  numbers are accepted, what the write queue sends, and that every callback keeps the
  windows inside their limits whatever the peer sends.
\<close>

section \<open>Counting modulo 32767\<close>

definition outstanding :: "iecsock \<Rightarrow> int" where
  "outstanding s = (uint (s_vs s) - uint (s_va s)) mod 32767"

definition unacked :: "iecsock \<Rightarrow> int" where
  "unacked s = (uint (s_vr s) - uint (s_va_peer s)) mod 32767"

definition iframe_ok :: "iec_buf \<Rightarrow> bool" where
  "iframe_ok b \<longleftrightarrow> frame_type (b_h b) = FRAME_TYPE_I \<and> h_start (b_h b) = 0x68 \<and> length (b_data b) \<le> 249
     \<and> unat (h_length (b_h b)) = length (b_data b) + 4"

definition wf_win :: "iecsock \<Rightarrow> bool" where
  "wf_win s \<longleftrightarrow> uint (s_va s) \<le> 32767 \<and> uint (s_vs s) < 32767 \<and> uint (s_vr s) < 32767
     \<and> uint (s_va_peer s) < 32767 \<and> 0 < uint (s_k s) \<and> uint (s_k s) < 32767
     \<and> 0 < uint (s_w s) \<and> uint (s_w s) < 32767
     \<and> outstanding s \<le> uint (s_k s) \<and> unacked s < uint (s_w s)
     \<and> (\<forall>b \<in> set (s_write_q s). iframe_ok b)"

lemma mod_diff_sub:
  fixes a b c m :: int
  assumes "0 < m" and "(c - a) mod m \<le> (b - a) mod m"
  shows "(b - c) mod m = (b - a) mod m - (c - a) mod m"
proof -
  have "(b - c) mod m = ((b - a) mod m - (c - a) mod m) mod m"
    by (simp add: mod_diff_eq)
  also have "\<dots> = (b - a) mod m - (c - a) mod m"
    using assms pos_mod_bound [of m "b - a"] pos_mod_sign [of m "c - a"]
    by (intro mod_pos_pos_trivial) linarith+
  finally show ?thesis .
qed

lemma mod_succ:
  fixes a b m :: int
  assumes "0 < m" and "(b - a) mod m < m - 1"
  shows "((b + 1) mod m - a) mod m = (b - a) mod m + 1"
proof -
  have "((b + 1) mod m - a) mod m = ((b - a) mod m + 1) mod m"
    by (simp add: mod_simps algebra_simps)
  also have "\<dots> = (b - a) mod m + 1"
    using assms pos_mod_sign [of m "b - a"] by (intro mod_pos_pos_trivial) linarith+
  finally show ?thesis .
qed

lemma mod_offset_iff:
  fixes a b k m :: int
  assumes "0 \<le> b" "b < m" "0 \<le> k" "k < m"
  shows "b = (a + k) mod m \<longleftrightarrow> (b - a) mod m = k"
proof
  assume "b = (a + k) mod m"
  then have "(b - a) mod m = (a + k - a) mod m" by (simp add: mod_diff_left_eq)
  then show "(b - a) mod m = k" using assms by simp
next
  assume k: "(b - a) mod m = k"
  have "(a + k) mod m = (a + (b - a)) mod m" by (simp add: k [symmetric] mod_simps)
  then show "b = (a + k) mod m" using assms by simp
qed

lemma uint_succ_32767:
  assumes "uint (v :: u16) < 32767"
  shows "uint (word_of_int (c_rem (uint v + 1) 32767) :: u16) = (uint v + 1) mod 32767"
  using assms by (simp add: c_rem_nonneg uint_word_of_int mod_pos_pos_trivial
      order_le_less_trans [OF zmod_le_nonneg_dividend])

lemma c_rem_window:
  assumes "wf_win s"
  shows "c_rem (uint (s_vs s) - uint (s_va s) + 32767) 32767 = outstanding s"
    and "c_rem (uint (s_vr s) - uint (s_va_peer s) + 32767) 32767 = unacked s"
proof -
  have "0 \<le> uint (s_vs s)" "0 \<le> uint (s_vr s)" by simp_all
  moreover have "uint (s_va s) \<le> 32767" "uint (s_va_peer s) < 32767"
    using assms by (simp_all add: wf_win_def)
  ultimately have "0 \<le> uint (s_vs s) - uint (s_va s) + 32767" "0 \<le> uint (s_vr s) - uint (s_va_peer s) + 32767"
    by linarith+
  then show "c_rem (uint (s_vs s) - uint (s_va s) + 32767) 32767 = outstanding s"
    and "c_rem (uint (s_vr s) - uint (s_va_peer s) + 32767) 32767 = unacked s"
    by (simp_all add: outstanding_def unacked_def c_rem_nonneg)
qed

lemma window_full_iff:
  assumes "wf_win s"
  shows "window_full s \<longleftrightarrow> outstanding s = uint (s_k s)"
proof -
  have "c_rem (uint (s_va s) + uint (s_k s)) 32767 = (uint (s_va s) + uint (s_k s)) mod 32767"
    by (simp add: c_rem_nonneg)
  with assms show ?thesis
    using mod_offset_iff [of "uint (s_vs s)" 32767 "uint (s_k s)" "uint (s_va s)"]
    by (simp add: window_full_def outstanding_def wf_win_def)
qed

lemma check_nr_iff:
  assumes "wf_win s" and "uint nr \<le> 32767"
  shows "check_nr s nr \<longleftrightarrow> (uint nr - uint (s_va s)) mod 32767 \<le> outstanding s"
proof -
  have "0 \<le> uint nr" by simp
  moreover have "uint (s_va s) \<le> 32767" using assms by (simp add: wf_win_def)
  ultimately have "0 \<le> uint nr - uint (s_va s) + 32767" by linarith
  then show ?thesis by (simp add: check_nr_def c_rem_window [OF assms(1)] c_rem_nonneg)
qed

lemma uint_ic_nr: "uint (ic_nr h) \<le> 32767"
proof -
  have "uint (bf_get 17 15 (h_ctl h)) = take_bit 15 (uint (drop_bit 17 (h_ctl h)))"
    by (simp add: bf_get_def unsigned_take_bit_eq)
  also have "\<dots> \<le> 32767" using take_bit_int_less_exp [of 15 "uint (drop_bit 17 (h_ctl h))"] by simp
  finally show ?thesis by (simp add: ic_nr_def uint_up_ucast unsigned_ucast_eq take_bit_int_eq_self)
qed

section \<open>What the write queue sends\<close>

lemmas sess_defs = log_call_def t1_timer_start_def t1_timer_stop_def t2_timer_start_def
  t2_timer_stop_def t3_timer_start_def t3_timer_stop_def iecsock_uframe_send_def
  iecsock_sframe_send_def

text \<open>The frames written to the peer, in order.\<close>

fun tx_of :: "ev_call \<Rightarrow> u8 list list" where
  "tx_of (BevWrite bs) = [bs]"
| "tx_of _ = []"

definition tx :: "iecsock \<Rightarrow> u8 list list" where
  "tx s = concat (map tx_of (io_log s))"

text \<open>A buffer numbered for sending.\<close>

definition numbered :: "int \<Rightarrow> u16 \<Rightarrow> iec_buf \<Rightarrow> iec_buf" where
  "numbered ns vr b = b\<lparr>b_h := set_ic_ns (word_of_int (ns mod 32767)) (set_ic_nr vr (b_h b))\<rparr>"

definition wire :: "iec_buf \<Rightarrow> u8 list" where
  "wire b = hdr_bytes (b_h b) @ b_data b"

lemma iframe_ok_numbered [simp]: "iframe_ok (numbered ns vr b) \<longleftrightarrow> iframe_ok b"
  by (simp add: iframe_ok_def numbered_def)

lemma iec_wire_ok: "iframe_ok b \<Longrightarrow> iec_wire b = Inr (wire b)"
  by (simp add: iframe_ok_def iec_wire_def wire_def Let_def)

lemma word_of_int_uint_mod: "uint (v :: u16) < 32767 \<Longrightarrow> word_of_int (uint v mod 32767) = v"
  by simp

text \<open>Everything but the send counter, the write queue and the log is untouched.\<close>

definition same_but_sent :: "iecsock \<Rightarrow> iecsock \<Rightarrow> bool" where
  "same_but_sent s s' \<longleftrightarrow> s' = s\<lparr>s_vs := s_vs s', s_write_q := s_write_q s', s_ackw_q := s_ackw_q s',
     s_xmit_cnt := s_xmit_cnt s', io_log := io_log s'\<rparr>"

lemma same_but_sent_refl [simp]: "same_but_sent s s"
  by (simp add: same_but_sent_def)

lemma same_but_sent_trans: "same_but_sent s t \<Longrightarrow> same_but_sent t u \<Longrightarrow> same_but_sent s u"
  unfolding same_but_sent_def by (cases s; cases t; cases u) simp

lemma same_but_sent_fields:
  assumes "same_but_sent s s'"
  shows "s_va s' = s_va s" "s_vr s' = s_vr s" "s_va_peer s' = s_va_peer s" "s_k s' = s_k s"
    "s_w s' = s_w s" "s_type s' = s_type s" "s_stopdt s' = s_stopdt s" "s_freed s' = s_freed s"
    "s_t1 s' = s_t1 s" "io_in s' = io_in s" "s_buf s' = s_buf s" "s_left s' = s_left s" "s_len s' = s_len s"
    "s_testfr s' = s_testfr s"
proof -
  from assms obtain a b c d e where
    "s' = s\<lparr>s_vs := a, s_write_q := b, s_ackw_q := c, s_xmit_cnt := d, io_log := e\<rparr>"
    unfolding same_but_sent_def by blast
  then show "s_va s' = s_va s" "s_vr s' = s_vr s" "s_va_peer s' = s_va_peer s" "s_k s' = s_k s"
    "s_w s' = s_w s" "s_type s' = s_type s" "s_stopdt s' = s_stopdt s" "s_freed s' = s_freed s"
    "s_t1 s' = s_t1 s" "io_in s' = io_in s" "s_buf s' = s_buf s" "s_left s' = s_left s" "s_len s' = s_len s"
    "s_testfr s' = s_testfr s"
    by simp_all
qed

lemma write_one_law:
  assumes wf: "wf_win s" and room: "outstanding s < uint (s_k s)" and ok: "iframe_ok b"
    and q: "set q \<subseteq> set (s_write_q s)"
  shows "\<exists>s'. write_one env s b q = Inr s' \<and> s_write_q s' = q \<and> wf_win s'
    \<and> outstanding s' = outstanding s + 1 \<and> uint (s_vs s') = (uint (s_vs s) + 1) mod 32767
    \<and> s_ackw_q s' = s_ackw_q s @ [numbered (uint (s_vs s)) (s_vr s) b]
    \<and> tx s' = tx s @ [wire (numbered (uint (s_vs s)) (s_vr s) b)] \<and> same_but_sent s s'"
proof -
  let ?b = "numbered (uint (s_vs s)) (s_vr s) b"
  have vs: "uint (s_vs s) < 32767" "uint (s_k s) < 32767" using wf by (simp_all add: wf_win_def)
  have b: "b\<lparr>b_h := set_ic_ns (s_vs s) (set_ic_nr (s_vr s) (b_h b))\<rparr> = ?b"
    using vs by (simp add: numbered_def)
  define s' where "s' = s\<lparr>s_write_q := q,
      io_log := io_log s @ (if e_pending env (io_log s) T1_TIMER then [EvDel T1_TIMER] else [])
        @ [EvAdd T1_TIMER (Some (uint (s_t1 s))), BevWrite (wire ?b)],
      s_ackw_q := s_ackw_q s @ [?b], s_vs := word_of_int (c_rem (uint (s_vs s) + 1) 32767),
      s_xmit_cnt := s_xmit_cnt s + 1\<rparr>"
  have eq: "write_one env s b q = Inr s'"
    using iec_wire_ok [of ?b] ok by (simp add: write_one_def Let_def b s'_def sess_defs)
  have succ: "uint (s_vs s') = (uint (s_vs s) + 1) mod 32767"
    using uint_succ_32767 [OF vs(1)] by (simp add: s'_def)
  have out: "outstanding s' = outstanding s + 1"
    using mod_succ [of 32767 "uint (s_vs s)" "uint (s_va s)"] room vs succ
    by (simp add: outstanding_def s'_def)
  moreover have "wf_win s'"
    using wf q out room succ by (auto simp: wf_win_def s'_def unacked_def)
  ultimately show ?thesis
    using eq succ by (simp add: s'_def tx_def same_but_sent_def)
qed

lemma write_loop_law:
  "wf_win s \<Longrightarrow> n = min (length (s_write_q s)) (nat (uint (s_k s) - outstanding s)) \<Longrightarrow>
   fs = map (\<lambda>i. numbered (uint (s_vs s) + int i) (s_vr s) (s_write_q s ! i)) [0..<n] \<Longrightarrow>
   \<exists>s'. write_loop env s = Inr s' \<and> wf_win s' \<and> s_write_q s' = drop n (s_write_q s)
    \<and> outstanding s' = outstanding s + int n \<and> s_ackw_q s' = s_ackw_q s @ fs
    \<and> tx s' = tx s @ map wire fs \<and> same_but_sent s s'"
proof (induction env s arbitrary: n fs rule: write_loop.induct)
  case (1 env s)
  show ?case
  proof (cases "s_write_q s")
    case Nil
    with "1.prems" show ?thesis by (subst write_loop.simps) simp
  next
    case (Cons b q)
    show ?thesis
    proof (cases "window_full s")
      case True
      with "1.prems" Cons window_full_iff [of s] show ?thesis by (subst write_loop.simps) simp
    next
      case False
      then have room: "outstanding s < uint (s_k s)"
        using window_full_iff [OF "1.prems"(1)] "1.prems"(1) by (auto simp: wf_win_def)
      have ok: "iframe_ok b" "set q \<subseteq> set (s_write_q s)"
        using "1.prems"(1) Cons by (auto simp: wf_win_def)
      obtain s1 where s1: "write_one env s b q = Inr s1" "s_write_q s1 = q" "wf_win s1"
          "outstanding s1 = outstanding s + 1" "uint (s_vs s1) = (uint (s_vs s) + 1) mod 32767"
          "s_ackw_q s1 = s_ackw_q s @ [numbered (uint (s_vs s)) (s_vr s) b]"
          "tx s1 = tx s @ [wire (numbered (uint (s_vs s)) (s_vr s) b)]" "same_but_sent s s1"
        using write_one_law [OF "1.prems"(1) room ok, of env] by blast
      let ?m = "min (length q) (nat (uint (s_k s) - outstanding s1))"
      let ?fs = "map (\<lambda>i. numbered (uint (s_vs s1) + int i) (s_vr s1) (q ! i)) [0..<?m]"
      note fields = same_but_sent_fields [OF s1(8)]
      have n: "n = Suc ?m" using "1.prems"(2) Cons room s1(4) by (auto simp: min_def)
      have num: "numbered (uint (s_vs s1) + int i) v c = numbered (uint (s_vs s) + int (Suc i)) v c" for i v c
        using s1(5) by (simp add: numbered_def mod_simps algebra_simps)
      have fs: "fs = numbered (uint (s_vs s)) (s_vr s) b # ?fs"
        using "1.prems"(3) Cons fields(2) unfolding n by (simp add: num map_upt_Suc del: upt_Suc)
      have "write_loop env s = write_loop env s1"
        using Cons False s1(1) by (subst write_loop.simps) simp
      moreover from "1.IH" [OF Cons False s1(1,3), of ?m ?fs] obtain s' where
        "write_loop env s1 = Inr s'" "wf_win s'" "s_write_q s' = drop ?m q"
        "outstanding s' = outstanding s1 + int ?m" "s_ackw_q s' = s_ackw_q s1 @ ?fs"
        "tx s' = tx s1 @ map wire ?fs" "same_but_sent s1 s'"
        using s1(2) fields by auto
      ultimately show ?thesis
        using s1 n fs Cons same_but_sent_trans [OF s1(8)] by auto
    qed
  qed
qed

lemma run_write_queue_wf:
  "wf_win s \<Longrightarrow> iecsock_run_write_queue env s = Inr s' \<Longrightarrow> wf_win s' \<and> same_but_sent s s'"
  using write_loop_law [of s _ _ env] by (fastforce simp: iecsock_run_write_queue_def split: if_splits)

lemma run_write_queue_ok: "wf_win s \<Longrightarrow> \<exists>s'. iecsock_run_write_queue env s = Inr s'"
  using write_loop_law [of s _ _ env] by (auto simp: iecsock_run_write_queue_def)

section \<open>Frames in flight\<close>

definition seqnos :: "iec_buf list \<Rightarrow> int list" where
  "seqnos q = map (\<lambda>b. uint (ic_ns (b_h b))) q"

definition seq_from :: "int \<Rightarrow> nat \<Rightarrow> int list" where
  "seq_from a n = map (\<lambda>i. (a + int i) mod 32767) [0..<n]"

text \<open>
  The frames sent and not yet acknowledged are the last ones of the acknowledge queue, in
  order: their numbers run from \<open>va\<close> to just before \<open>vs\<close>.
\<close>

definition flight_ok :: "iecsock \<Rightarrow> bool" where
  "flight_ok s \<longleftrightarrow> (\<exists>pre. seqnos (s_ackw_q s) = pre @ seq_from (uint (s_va s)) (nat (outstanding s)))"

lemma seq_from_split: "d \<le> n \<Longrightarrow> seq_from a n = seq_from a d @ seq_from (a + int d) (n - d)"
  by (rule nth_equalityI) (auto simp: seq_from_def nth_append algebra_simps)

lemma seq_from_mod: "a mod 32767 = b mod 32767 \<Longrightarrow> seq_from a n = seq_from b n"
  by (auto simp: seq_from_def intro: mod_add_cong)

lemma outstanding_nonneg [simp]: "0 \<le> outstanding s"
  by (simp add: outstanding_def)

lemma uint_can_queue:
  assumes "wf_win s"
  shows "uint (iecsock_can_queue s) = uint (s_k s) - outstanding s"
proof -
  have b: "0 \<le> uint (s_k s) - outstanding s" "uint (s_k s) - outstanding s < 32767"
    using assms outstanding_nonneg [of s] by (simp_all add: wf_win_def del: outstanding_nonneg)
  have "uint (word_of_int (uint (s_k s) - outstanding s) :: 64 word) = (uint (s_k s) - outstanding s) mod 2 ^ 64"
    by (subst uint_word_of_int) simp
  also have "\<dots> = uint (s_k s) - outstanding s" using b by (intro mod_pos_pos_trivial) simp_all
  finally show ?thesis by (simp only: iecsock_can_queue_def c_rem_window(1) [OF assms])
qed

lemma uint_ic_ns_numbered:
  "uint (ic_ns (b_h (numbered n v b))) = n mod 32767"
proof -
  have lt: "n mod 32767 < 32767" by simp
  have "uint (word_of_int (n mod 32767) :: u16) = n mod 32767"
    using lt by (simp add: uint_word_of_int mod_pos_pos_trivial order_less_trans [OF lt])
  moreover have "take_bit 15 (n mod 32767) = n mod 32767"
    using lt by (intro take_bit_int_eq_self) auto
  ultimately show ?thesis by (simp add: numbered_def unsigned_take_bit_eq)
qed

lemma run_write_queue_flight:
  assumes "wf_win s" and "flight_ok s" and "iecsock_run_write_queue env s = Inr s'"
  shows "flight_ok s'"
proof (cases "s_type s = IEC_SLAVE \<and> s_stopdt s")
  case True
  with assms show ?thesis by (simp add: iecsock_run_write_queue_def)
next
  case False
  define n where "n = min (length (s_write_q s)) (nat (uint (s_k s) - outstanding s))"
  define fs where "fs = map (\<lambda>i. numbered (uint (s_vs s) + int i) (s_vr s) (s_write_q s ! i)) [0..<n]"
  have r: "outstanding s' = outstanding s + int n" "s_ackw_q s' = s_ackw_q s @ fs" "same_but_sent s s'"
    using write_loop_law [OF assms(1) n_def fs_def, of env] assms(3) False
    by (auto simp: iecsock_run_write_queue_def)
  have "seqnos fs = seq_from (uint (s_vs s)) n"
    by (simp add: fs_def seqnos_def seq_from_def uint_ic_ns_numbered)
  also have "\<dots> = seq_from (uint (s_va s) + outstanding s) n"
    by (rule seq_from_mod) (simp add: outstanding_def mod_simps)
  finally have "seq_from (uint (s_va s)) (nat (outstanding s)) @ seqnos fs = seq_from (uint (s_va s)) (nat (outstanding s'))"
    using r(1) seq_from_split [of "nat (outstanding s)" "nat (outstanding s')" "uint (s_va s)"]
    by (simp add: nat_add_distrib)
  with assms(2) r show ?thesis
    by (auto simp: flight_ok_def seqnos_def same_but_sent_fields [OF r(3)])
qed

text \<open>Acknowledging up to a number inside the window moves the window, nothing else.\<close>

lemma outstanding_ack:
  assumes "wf_win s" and "check_nr s nr" and "uint nr \<le> 32767"
  shows "outstanding (s\<lparr>s_va := nr\<rparr>) = outstanding s - (uint nr - uint (s_va s)) mod 32767"
    and "(uint nr - uint (s_va s)) mod 32767 \<le> outstanding s"
proof -
  show d: "(uint nr - uint (s_va s)) mod 32767 \<le> outstanding s"
    using assms check_nr_iff by blast
  show "outstanding (s\<lparr>s_va := nr\<rparr>) = outstanding s - (uint nr - uint (s_va s)) mod 32767"
    using mod_diff_sub [of 32767 "uint nr" "uint (s_va s)" "uint (s_vs s)"] d by (simp add: outstanding_def)
qed

lemma wf_win_ack:
  assumes "wf_win s" and "check_nr s nr" and "uint nr \<le> 32767"
  shows "wf_win (s\<lparr>s_va := nr\<rparr>)"
proof -
  have "0 \<le> (uint nr - uint (s_va s)) mod 32767" by simp
  then have "outstanding (s\<lparr>s_va := nr\<rparr>) \<le> outstanding s"
    using outstanding_ack [OF assms] by linarith
  with assms show ?thesis by (auto simp: wf_win_def unacked_def)
qed

lemma seq_from_ack:
  assumes "wf_win s" and "check_nr s nr" and "uint nr \<le> 32767"
  obtains acked where "seq_from (uint (s_va s)) (nat (outstanding s))
    = acked @ seq_from (uint nr) (nat (outstanding (s\<lparr>s_va := nr\<rparr>)))"
proof -
  let ?d = "(uint nr - uint (s_va s)) mod 32767"
  note o = outstanding_ack [OF assms]
  have "seq_from (uint (s_va s) + int (nat ?d)) m = seq_from (uint nr) m" for m
    by (rule seq_from_mod) (simp add: mod_simps)
  then show ?thesis
    using that seq_from_split [of "nat ?d" "nat (outstanding s)" "uint (s_va s)"] o
    by (simp add: nat_diff_distrib)
qed

lemma flight_ok_ack:
  assumes "wf_win s" and "check_nr s nr" and "uint nr \<le> 32767" and "flight_ok s"
  shows "flight_ok (s\<lparr>s_va := nr\<rparr>)"
proof -
  obtain acked where d: "seq_from (uint (s_va s)) (nat (outstanding s))
      = acked @ seq_from (uint nr) (nat (outstanding (s\<lparr>s_va := nr\<rparr>)))"
    by (rule seq_from_ack [OF assms(1-3)])
  obtain pre where "seqnos (s_ackw_q s) = pre @ seq_from (uint (s_va s)) (nat (outstanding s))"
    using assms(4) by (auto simp: flight_ok_def)
  then have "seqnos (s_ackw_q s) = (pre @ acked) @ seq_from (uint nr) (nat (outstanding (s\<lparr>s_va := nr\<rparr>)))"
    using d by simp
  then show ?thesis unfolding flight_ok_def by (intro exI [of _ "pre @ acked"]) simp
qed

lemma ackw_drop_seqnos: "seqnos (ackw_drop nr q) = dropWhile (\<lambda>x. x \<noteq> uint nr) (seqnos q)"
  by (induction q) (auto simp: seqnos_def word_uint_eq_iff)

lemma flight_ok_sack:
  assumes "wf_win s" and "check_nr s nr" and "uint nr < 32767" and "flight_ok s"
  shows "flight_ok ((iecsock_run_ackw_queue nr s)\<lparr>s_va := nr\<rparr>)"
proof -
  let ?s = "(iecsock_run_ackw_queue nr s)\<lparr>s_va := nr\<rparr>" and ?n = "nat (outstanding (s\<lparr>s_va := nr\<rparr>))"
  have o: "outstanding ?s = outstanding (s\<lparr>s_va := nr\<rparr>)"
    by (simp add: outstanding_def iecsock_run_ackw_queue_def)
  obtain pre where pre: "seqnos (s_ackw_q s) = pre @ seq_from (uint nr) ?n"
    using flight_ok_ack [OF assms(1,2) _ assms(4)] assms(3) by (auto simp: flight_ok_def)
  have "\<exists>pre'. seqnos (ackw_drop nr (s_ackw_q s)) = pre' @ seq_from (uint nr) ?n"
  proof (cases ?n)
    case 0
    then show ?thesis by (simp add: seq_from_def)
  next
    case (Suc m)
    have "seq_from (uint nr) ?n = uint nr # seq_from (uint nr + 1) m"
      using seq_from_split [of 1 ?n "uint nr"] Suc assms(3) by (simp add: seq_from_def)
    then show ?thesis using pre by (auto simp: ackw_drop_seqnos dropWhile_append3)
  qed
  then show ?thesis using o by (simp add: flight_ok_def iecsock_run_ackw_queue_def)
qed

section \<open>Every callback keeps the windows\<close>

lemma wf_win_frame [simp]:
  "wf_win (log_call c s) = wf_win s"
  "wf_win (s\<lparr>io_log := l\<rparr>) = wf_win s"
  "wf_win (s\<lparr>s_xmit_cnt := x\<rparr>) = wf_win s"
  "wf_win (s\<lparr>s_testfr := t\<rparr>) = wf_win s"
  "wf_win (s\<lparr>s_stopdt := t\<rparr>) = wf_win s"
  "wf_win (s\<lparr>s_freed := t\<rparr>) = wf_win s"
  "wf_win (s\<lparr>s_left := l1\<rparr>) = wf_win s"
  "wf_win (s\<lparr>s_len := l2\<rparr>) = wf_win s"
  "wf_win (s\<lparr>s_buf := bs\<rparr>) = wf_win s"
  "wf_win (s\<lparr>io_in := bs\<rparr>) = wf_win s"
  "wf_win (s\<lparr>s_ackw_q := q\<rparr>) = wf_win s"
  by (simp_all add: wf_win_def outstanding_def unacked_def log_call_def)

lemma wf_win_ops [simp]:
  "wf_win (t1_timer_start s) = wf_win s" "wf_win (t1_timer_stop s) = wf_win s"
  "wf_win (t2_timer_start s) = wf_win s" "wf_win (t2_timer_stop s) = wf_win s"
  "wf_win (t3_timer_start s) = wf_win s" "wf_win (t3_timer_stop s) = wf_win s"
  "wf_win (t0_timer_stop s) = wf_win s"
  "wf_win (iecsock_uframe_send f s) = wf_win s"
  "wf_win (iecsock_sframe_send s) = wf_win s"
  "wf_win (iecsock_run_ackw_queue nr s) = wf_win s"
  "wf_win (t3_timer_run s) = wf_win s"
  by (simp_all add: t1_timer_start_def t1_timer_stop_def t2_timer_start_def t2_timer_stop_def
      t3_timer_start_def t3_timer_stop_def t0_timer_stop_def iecsock_uframe_send_def
      iecsock_sframe_send_def iecsock_run_ackw_queue_def t3_timer_run_def Let_def)

lemma wf_win_peer_acked: "wf_win s \<Longrightarrow> wf_win (s\<lparr>s_va_peer := s_vr s\<rparr>)"
  by (simp add: wf_win_def outstanding_def unacked_def)

lemma wf_win_t2_timer_run: "wf_win s \<Longrightarrow> wf_win (t2_timer_run s)"
  using wf_win_peer_acked [of "iecsock_sframe_send s"] by (simp add: t2_timer_run_def Let_def)

lemma wf_win_flush: "wf_win s \<Longrightarrow> wf_win (iecsock_flush_queues s)"
proof -
  have "flush_queue q = []" for q by (induction q) auto
  moreover assume "wf_win s"
  ultimately show ?thesis by (simp add: iecsock_flush_queues_def wf_win_def outstanding_def unacked_def)
qed

text \<open>Accepting the next frame in sequence, with the acknowledgement it may trigger.\<close>

lemma unacked_succ:
  assumes "wf_win s" and "s' = s\<lparr>s_vr := word_of_int (c_rem (uint (s_vr s) + 1) 32767)\<rparr>"
  shows "unacked s' = unacked s + 1" and "uint (s_vr s') = (uint (s_vr s) + 1) mod 32767"
proof -
  have vr: "uint (s_vr s) < 32767" and u: "unacked s < 32766" using assms by (auto simp: wf_win_def)
  show succ: "uint (s_vr s') = (uint (s_vr s) + 1) mod 32767"
    using uint_succ_32767 [OF vr] assms(2) by simp
  show "unacked s' = unacked s + 1"
    using mod_succ [of 32767 "uint (s_vr s)" "uint (s_va_peer s)"] u succ assms(2)
    by (simp add: unacked_def)
qed

lemma ack_peer_wf:
  assumes "wf_win s" and "s' = s\<lparr>s_vr := word_of_int (c_rem (uint (s_vr s) + 1) 32767)\<rparr>"
  shows "wf_win (ack_peer s')"
proof -
  note u = unacked_succ [OF assms]
  have f: "s_w s' = s_w s" "s_va_peer s' = s_va_peer s" using assms(2) by simp_all
  have "0 \<le> uint (s_vr s')" by simp
  moreover have "uint (s_va_peer s') < 32767" using assms(1) f by (simp add: wf_win_def)
  ultimately have "0 \<le> uint (s_vr s') - uint (s_va_peer s') + 32767" by linarith
  then have c: "c_rem (uint (s_vr s') - uint (s_va_peer s') + 32767) 32767 = unacked s'"
    by (simp add: unacked_def c_rem_nonneg)
  have vr: "uint (s_vr s') < 32767" using u(2) by simp
  have o: "outstanding s' = outstanding s" using assms(2) by (simp add: outstanding_def)
  show ?thesis
  proof (cases "unacked s' = uint (s_w s')")
    case True
    have "wf_win (s'\<lparr>s_va_peer := s_vr s'\<rparr>)"
      using assms vr o by (auto simp: wf_win_def unacked_def outstanding_def)
    with True c show ?thesis
      by (simp add: ack_peer_def Let_def iecsock_sframe_send_def log_call_def wf_win_def
          outstanding_def unacked_def)
  next
    case False
    then have "unacked s' < uint (s_w s')" using u(1) f assms(1) by (auto simp: wf_win_def)
    then have "wf_win s'" using assms vr o by (auto simp: wf_win_def)
    with False c show ?thesis by (simp add: ack_peer_def)
  qed
qed

lemma wf_win_connect: "iecsock_connect ce addr = (r, l, Some s) \<Longrightarrow> wf_win s"
  by (auto simp: iecsock_connect_def iecsock_set_defaults_def iecsock_zero_def Let_def log_call_def
      wf_win_def outstanding_def unacked_def DEFAULT_K_def DEFAULT_W_def split: if_splits option.splits)

text \<open>
  What the link layer asks of a program: its hooks keep the program's own invariant \<open>ginv\<close>
  and the windows of the connection they are called with.
\<close>

definition link_inv :: "('g \<Rightarrow> bool) \<Rightarrow> 'g st \<Rightarrow> bool" where
  "link_inv ginv st \<longleftrightarrow> wf_win (st_s st) \<and> (\<forall>s \<in> set (st_new st). wf_win s) \<and> ginv (st_g st)"

locale link_hooks =
  fixes env :: "'g env" and ginv :: "'g \<Rightarrow> bool"
  assumes wakeup_inv: "link_inv ginv st \<Longrightarrow>
      call_hook (transmit_wakeup (e_hooks env)) (transmit_wakeup (e_default env)) st = Inr st' \<Longrightarrow> link_inv ginv st'"
    and data_inv: "link_inv ginv st \<Longrightarrow>
      call_hook (map_option (\<lambda>f. f b) (data_indication (e_hooks env)))
        (map_option (\<lambda>f. f b) (data_indication (e_default env))) st = Inr st' \<Longrightarrow> link_inv ginv st'"
    and act_inv: "link_inv ginv st \<Longrightarrow>
      call_hook (activation_indication (e_hooks env)) (activation_indication (e_default env)) st = Inr st' \<Longrightarrow>
      link_inv ginv st'"
    and deact_inv: "link_inv ginv st \<Longrightarrow>
      call_hook (deactivation_indication (e_hooks env)) (deactivation_indication (e_default env)) st = Inr st' \<Longrightarrow>
      link_inv ginv st'"
    and disc_inv: "link_inv ginv st \<Longrightarrow>
      call_hook (map_option (\<lambda>f. f what) (disconnect_indication (e_hooks env)))
        (map_option (\<lambda>f. f what) (disconnect_indication (e_default env))) st = Inr st' \<Longrightarrow> link_inv ginv st'"
    and conn_inv: "link_inv ginv st \<Longrightarrow>
      call_hook None (connect_indication (e_default env)) st = Inr st' \<Longrightarrow> link_inv ginv st'"
begin

lemma on_s_inv: "link_inv ginv st \<Longrightarrow> wf_win (f (st_s st)) \<Longrightarrow> link_inv ginv (on_s f st)"
  by (simp add: link_inv_def on_s_def)

lemma on_s_keeps: "(\<And>s. wf_win (f s) = wf_win s) \<Longrightarrow> link_inv ginv (on_s f st) = link_inv ginv st"
  by (simp add: link_inv_def on_s_def)

lemma set_s_inv: "link_inv ginv st \<Longrightarrow> wf_win s \<Longrightarrow> link_inv ginv (st\<lparr>st_s := s\<rparr>)"
  by (simp add: link_inv_def)

lemma inv_wf: "link_inv ginv st \<Longrightarrow> wf_win (st_s st)"
  by (simp add: link_inv_def)

lemma touch_inv: "touch st = Inr st' \<Longrightarrow> st' = st"
  by (simp add: touch_def split: if_splits)

lemma run_wakeup_inv:
  assumes "link_inv ginv st" and "run_wakeup env st = Inr st'"
  shows "link_inv ginv st'"
proof (cases "s_va (st_s st) = s_vs (st_s st)")
  case True
  moreover have "link_inv ginv (on_s t1_timer_stop st)"
    using assms(1) by (simp add: on_s_inv inv_wf)
  ultimately show ?thesis using assms(2) wakeup_inv by (simp add: run_wakeup_def)
qed (use assms in \<open>simp add: run_wakeup_def\<close>)

lemma register_inv:
  assumes "link_inv ginv st" and "\<And>r l s. c = (r, l, Some s) \<Longrightarrow> wf_win s"
  shows "link_inv ginv (register c st)"
  using assms by (auto simp: register_def link_inv_def on_s_def split: prod.splits option.splits)

lemma freed_inv: "link_inv ginv st \<Longrightarrow> link_inv ginv (on_s (\<lambda>s. s\<lparr>s_freed := True\<rparr>) st)"
  by (simp add: on_s_inv inv_wf)

lemma log_inv: "link_inv ginv st \<Longrightarrow> link_inv ginv (on_s (log_call c) st)"
  by (simp add: on_s_inv inv_wf)

lemma close_inv:
  assumes "link_inv ginv st" and "iecsock_close env st = Inr st'"
  shows "link_inv ginv st'"
proof -
  have "link_inv ginv (on_s iecsock_flush_queues st)"
    using assms(1) by (intro on_s_inv wf_win_flush inv_wf)
  then show ?thesis
    using assms(2) unfolding iecsock_close_def Let_def
    by (auto simp del: wf_win_frame intro!: freed_inv log_inv register_inv wf_win_connect split: if_splits)
qed

lemma iframe_recv_inv:
  assumes inv: "link_inv ginv st" and ret: "iecsock_iframe_recv env b st = Inr (r, st')"
  shows "link_inv ginv st'"
proof (cases "check_nr (st_s st) (ic_nr (b_h b))")
  case False
  with assms show ?thesis by (simp add: iecsock_iframe_recv_def Let_def)
next
  case True
  let ?st1 = "on_s (\<lambda>s. s\<lparr>s_va := ic_nr (b_h b)\<rparr>) st"
  let ?b = "b\<lparr>b_data_len := h_length (b_h b) - 4\<rparr>"
  have "link_inv ginv ?st1"
    using wf_win_ack [OF inv_wf [OF inv] True uint_ic_nr] by (intro on_s_inv inv)
  moreover obtain st2 where st2: "run_wakeup env ?st1 = Inr st2"
    using ret True by (auto simp: iecsock_iframe_recv_def Let_def elim!: res_bindE)
  ultimately have inv2: "link_inv ginv st2" by (rule run_wakeup_inv)
  let ?st3 = "on_s t2_timer_start (on_s t2_timer_stop st2)"
  have inv3: "link_inv ginv ?st3" using inv2 by (simp add: link_inv_def on_s_def)
  have nf: "touch st2 = Inr st2" using ret True st2 by (auto simp: iecsock_iframe_recv_def Let_def touch_def split: if_splits)
  show ?thesis
  proof (cases "check_ns (st_s ?st3) (ic_ns (b_h b))")
    case False
    with ret True st2 nf inv3 show ?thesis by (simp add: iecsock_iframe_recv_def Let_def)
  next
    case ns: True
    let ?st4 = "on_s ack_peer (on_s (\<lambda>s. s\<lparr>s_vr := word_of_int (c_rem (uint (s_vr s) + 1) 32767)\<rparr>) ?st3)"
    have "link_inv ginv ?st4"
      using inv3 ack_peer_wf [OF inv_wf [OF inv3] refl] by (simp add: link_inv_def on_s_def)
    moreover have "call_hook (map_option (\<lambda>f. f ?b) (data_indication (e_hooks env)))
        (map_option (\<lambda>f. f ?b) (data_indication (e_default env))) ?st4 = Inr st'"
      using ret True st2 nf ns by (auto simp: iecsock_iframe_recv_def Let_def elim!: res_bindE)
    ultimately show ?thesis by (rule data_inv)
  qed
qed

lemma sframe_recv_inv:
  assumes inv: "link_inv ginv st" and ret: "iecsock_sframe_recv env b st = Inr (r, st')"
  shows "link_inv ginv st'"
proof (cases "check_nr (st_s st) (ic_nr (b_h b))")
  case False
  with assms show ?thesis by (simp add: iecsock_sframe_recv_def Let_def)
next
  case True
  let ?s1 = "(iecsock_run_ackw_queue (ic_nr (b_h b)) (st_s st))\<lparr>s_va := ic_nr (b_h b)\<rparr>"
  have "wf_win (st_s st\<lparr>s_va := ic_nr (b_h b)\<rparr>)"
    using wf_win_ack [OF inv_wf [OF inv] True uint_ic_nr] .
  then have "wf_win ?s1" by (simp add: iecsock_run_ackw_queue_def wf_win_def outstanding_def unacked_def)
  then have "link_inv ginv (st\<lparr>st_s := ?s1\<rparr>)" using inv by (intro set_s_inv)
  moreover have "run_wakeup env (st\<lparr>st_s := ?s1\<rparr>) = Inr st'"
    using ret True by (auto simp: iecsock_sframe_recv_def on_s_def Let_def elim!: res_bindE)
  ultimately show ?thesis by (rule run_wakeup_inv)
qed

lemma uframe_recv_inv:
  assumes inv: "link_inv ginv st" and ret: "iecsock_uframe_recv env b st = Inr (r, st')"
  shows "link_inv ginv st'"
proof -
  note wf = inv_wf [OF inv]
  have upd: "link_inv ginv (st\<lparr>st_s := s\<rparr>)" if "wf_win s" for s using set_s_inv [OF inv that] .
  show ?thesis
  proof (cases "uframe_func (b_h b)")
    case STARTACT
    let ?s = "iecsock_uframe_send STARTCON (st_s st\<lparr>s_stopdt := False\<rparr>)"
    have "wf_win ?s" using wf by simp
    moreover from STARTACT ret have "st' = st \<or> (\<exists>s. iecsock_run_write_queue env ?s = Inr s \<and>
        call_hook (activation_indication (e_hooks env)) (activation_indication (e_default env))
          (st\<lparr>st_s := s\<rparr>) = Inr st')"
      by (auto simp: iecsock_uframe_recv_def Let_def elim!: res_bindE split: if_splits)
    ultimately show ?thesis using inv act_inv upd run_write_queue_wf by blast
  next
    case STARTCON
    then show ?thesis
      using ret inv wf upd [of "t1_timer_stop (st_s st)\<lparr>s_stopdt := False\<rparr>"] act_inv
      by (auto simp: iecsock_uframe_recv_def Let_def elim!: res_bindE split: if_splits)
  next
    case STOPACT
    then show ?thesis
      using ret inv wf upd [of "iecsock_uframe_send STOPCON (st_s st\<lparr>s_stopdt := True\<rparr>)"] deact_inv
      by (auto simp: iecsock_uframe_recv_def Let_def elim!: res_bindE split: if_splits)
  next
    case STOPCON
    then show ?thesis using ret inv wf upd [of "st_s st\<lparr>s_stopdt := True\<rparr>"] deact_inv
      by (auto simp: iecsock_uframe_recv_def Let_def elim!: res_bindE split: if_splits)
  next
    case TESTACT
    then show ?thesis using ret inv wf upd
      by (auto simp: iecsock_uframe_recv_def Let_def split: if_splits)
  next
    case TESTCON
    then show ?thesis using ret inv wf upd
      by (auto simp: iecsock_uframe_recv_def Let_def split: if_splits)
  qed
qed

lemma frame_recv_inv:
  assumes inv: "link_inv ginv st" and ret: "iecsock_frame_recv env st = Inr (r, st')"
  shows "link_inv ginv st'"
proof (cases "e_calloc env")
  case False
  with assms show ?thesis by (simp add: iecsock_frame_recv_def)
next
  case True
  let ?st = "on_s t3_timer_start (on_s t3_timer_stop st)"
  have "link_inv ginv ?st" using inv by (simp add: link_inv_def on_s_def)
  with True ret show ?thesis
    by (auto simp: iecsock_frame_recv_def Let_def elim!: res_bindE split: if_splits frame_type.splits
        intro: iframe_recv_inv sframe_recv_inv uframe_recv_inv)
qed

lemma bev_read_wf: "bev_read env pos n s = Inr (r, s') \<Longrightarrow> wf_win s' = wf_win s"
  by (auto simp: bev_read_def Let_def split: if_splits)

lemma left_inv:
  "link_inv ginv st \<Longrightarrow> link_inv ginv (on_s (\<lambda>s. log_call c (s\<lparr>s_left := a, s_len := l\<rparr>)) st)"
  "link_inv ginv st \<Longrightarrow> link_inv ginv (on_s (\<lambda>s. s\<lparr>s_left := a, s_len := l\<rparr>) st)"
  by (simp_all add: on_s_inv inv_wf)

lemma buffer_read_inv:
  assumes inv: "link_inv ginv st" and ret: "iecsock_buffer_read env iecsock_frame_recv st = Inr st'"
  shows "link_inv ginv st'"
proof (cases "s_left (st_s st) = 0")
  case True
  obtain s where s: "bev_read env 0 sizeof_iechdr (st_s st) = Inr (sizeof_iechdr, s)"
    using ret True by (auto simp: iecsock_buffer_read_def elim!: res_bindE split: if_splits prod.splits)
  then have inv1: "link_inv ginv (st\<lparr>st_s := s\<rparr>)" using inv by (simp add: set_s_inv bev_read_wf inv_wf)
  let ?h = "hdr_of_bytes (s_buf s)"
  let ?bad = "h_start ?h \<noteq> 0x68 \<or> h_length ?h < IEC_APDU_MIN \<or> IEC_APDU_MAX < h_length ?h"
  let ?upd = "on_s (\<lambda>s. s\<lparr>s_left := h_length ?h - IEC104_CTRL_LEN, s_len := 6\<rparr>)"
  define st1 where "st1 = (if ?bad then iecsock_close env (st\<lparr>st_s := s\<rparr>) else Inr (st\<lparr>st_s := s\<rparr>))"
  obtain st2 where st2: "st1 = Inr st2" "touch st2 = Inr st2"
    using ret True s unfolding iecsock_buffer_read_def Let_def
    by (auto elim!: res_bindE simp: st1_def) (metis touch_inv)
  then have "link_inv ginv st2" using inv1 close_inv by (auto simp: st1_def split: if_splits)
  then have inv2: "link_inv ginv (?upd st2)" by (simp add: on_s_keeps)
  have "(if s_left (st_s (?upd st2)) \<noteq> 0 then Inr (on_s (log_call (BevWatermark (uint (s_left (st_s (?upd st2)))))) (?upd st2))
     else res_bind (iecsock_frame_recv env (?upd st2)) (\<lambda>(ret, st). res_bind (touch st) (\<lambda>st.
       if ret = 0 then Inr (on_s (\<lambda>s. log_call (BevWatermark 6) (s\<lparr>s_left := 0, s_len := 0\<rparr>)) st)
       else iecsock_close env (on_s (log_call (BevWatermark 0)) st)))) = Inr st'"
    using ret True s st2 by (simp add: iecsock_buffer_read_def Let_def st1_def)
  with inv2 show ?thesis
    by (auto elim!: res_bindE dest!: touch_inv frame_recv_inv [OF inv2] split: if_splits
        simp: on_s_keeps) (use log_inv close_inv in blast)
next
  case False
  obtain n s where s: "bev_read env (unat (s_len (st_s st))) (unat (s_left (st_s st))) (st_s st) = Inr (n, s)"
    using ret False by (auto simp: iecsock_buffer_read_def elim!: res_bindE)
  let ?s = "s\<lparr>s_left := s_left s - of_nat n, s_len := s_len s + of_nat n\<rparr>"
  have inv2: "link_inv ginv (st\<lparr>st_s := ?s\<rparr>)" using inv s by (simp add: set_s_inv bev_read_wf inv_wf)
  with ret False s show ?thesis
    by (auto simp: iecsock_buffer_read_def Let_def elim!: res_bindE dest!: touch_inv split: if_splits
        simp: on_s_keeps) (use frame_recv_inv close_inv in blast)+
qed

lemma bufreadcb_inv:
  "bufreadcb fuel env st = Some (Inr st') \<Longrightarrow> link_inv ginv st \<Longrightarrow> link_inv ginv st'"
  by (induction fuel arbitrary: st)
    (auto split: sum.splits if_splits dest!: touch_inv dest: buffer_read_inv)

lemma buferrorcb_inv:
  "link_inv ginv st \<Longrightarrow> buferrorcb env what st = Inr st' \<Longrightarrow> link_inv ginv st'"
  by (auto simp: buferrorcb_def elim!: res_bindE intro: close_inv disc_inv)

lemma connect_writecb_inv:
  assumes "link_inv ginv st" and "connect_writecb env timeout opt bev st = Inr st'"
  shows "link_inv ginv st'"
  using assms
  by (auto simp: connect_writecb_def Let_def elim!: res_bindE dest!: touch_inv split: if_splits
      simp: on_s_keeps dest: conn_inv [rotated])

end

section \<open>Every sequence of events keeps the windows\<close>

text \<open>
  What can happen to a connection, one callback of the event loop at a time: octets arrive, the
  read, write and error callbacks and the timers run, and the program runs its own callbacks.
  The answers of libevent and the operating system may change from one event to the next, within
  the environments \<open>E\<close>.
\<close>

inductive link_step :: "'g env set \<Rightarrow> 'g hook set \<Rightarrow> 'g st \<Rightarrow> 'g st \<Rightarrow> bool" for E app where
  step_arrive: "link_step E app st (on_s (\<lambda>s. s\<lparr>io_in := io_in s @ bs\<rparr>) st)"
| step_read: "env \<in> E \<Longrightarrow> bufreadcb fuel env st = Some (Inr st') \<Longrightarrow> link_step E app st st'"
| step_write: "link_step E app st (bufwritecb st)"
| step_error: "env \<in> E \<Longrightarrow> buferrorcb env what st = Inr st' \<Longrightarrow> link_step E app st st'"
| step_connect: "env \<in> E \<Longrightarrow> connect_writecb env timeout opt bev st = Inr st' \<Longrightarrow> link_step E app st st'"
| step_t0: "env \<in> E \<Longrightarrow> link_step E app st (t0_timer_run env st)"
| step_t1: "env \<in> E \<Longrightarrow> t1_timer_run env what st = Inr st' \<Longrightarrow> link_step E app st st'"
| step_t2: "link_step E app st (on_s t2_timer_run st)"
| step_t3: "link_step E app st (on_s t3_timer_run st)"
| step_user: "f \<in> app \<Longrightarrow> iecsock_user_timer_run f st = Inr st' \<Longrightarrow> link_step E app st st'"
| step_app: "f \<in> app \<Longrightarrow> f st = Inr st' \<Longrightarrow> link_step E app st st'"

locale link_program =
  fixes E :: "'g env set" and app :: "'g hook set" and ginv :: "'g \<Rightarrow> bool"
  assumes hooks: "env \<in> E \<Longrightarrow> link_hooks env ginv"
    and app_inv: "f \<in> app \<Longrightarrow> link_inv ginv st \<Longrightarrow> f st = Inr st' \<Longrightarrow> link_inv ginv st'"
begin

lemma step_inv:
  assumes "link_step E app st st'" and "link_inv ginv st"
  shows "link_inv ginv st'"
  using assms
proof (cases rule: link_step.cases)
  case (step_t0 env)
  then show ?thesis
    using assms(2) wf_win_connect
    by (auto simp: t0_timer_run_def Let_def register_def link_inv_def on_s_def
        split: prod.splits option.splits)
next
  case step_t2
  then show ?thesis using assms(2) wf_win_t2_timer_run by (simp add: link_inv_def on_s_def)
next
  case (step_read env fuel)
  then show ?thesis using assms(2) link_hooks.bufreadcb_inv [OF hooks] by blast
next
  case (step_error env what)
  then show ?thesis using assms(2) link_hooks.buferrorcb_inv [OF hooks] by blast
next
  case (step_connect env timeout opt bev)
  then show ?thesis using assms(2) link_hooks.connect_writecb_inv [OF hooks] by blast
next
  case (step_t1 env what)
  then show ?thesis
    using assms(2) link_hooks.buferrorcb_inv [OF hooks] unfolding t1_timer_run_def by blast
next
  case (step_user f)
  then show ?thesis
    using assms(2) app_inv by (auto simp: iecsock_user_timer_run_def split: if_splits)
next
  case (step_app f)
  then show ?thesis using assms(2) app_inv by blast
qed (auto simp: link_inv_def on_s_def bufwritecb_def)

lemma reach_inv: "(link_step E app)\<^sup>*\<^sup>* st st' \<Longrightarrow> link_inv ginv st \<Longrightarrow> link_inv ginv st'"
  by (induction rule: rtranclp_induct) (auto intro: step_inv)

end

end
