(* ===== verification/IecTransfer.thy ===== *)
theory IecTransfer
  imports IecWindow
begin

text \<open>
  What a received frame does, branch by branch, and what two ends do together: the octets one
  end writes are read by the other as the same frames, and their payloads reach its program in
  the order in which they were queued.
\<close>

section \<open>Receiving an I frame\<close>

text \<open>No program is woken up when everything sent has been acknowledged.\<close>

definition no_wakeup :: "'g env \<Rightarrow> bool" where
  "no_wakeup env \<longleftrightarrow> transmit_wakeup (e_hooks env) = None \<and> transmit_wakeup (e_default env) = None"

text \<open>The connection after a frame in sequence that acknowledges up to \<open>nr\<close>.\<close>

definition accepted :: "u16 \<Rightarrow> iecsock \<Rightarrow> iecsock" where
  "accepted nr s =
     (let s = s\<lparr>s_va := nr\<rparr>;
          s = (if s_va s = s_vs s then t1_timer_stop s else s);
          s = t2_timer_start (t2_timer_stop s)
      in ack_peer (s\<lparr>s_vr := word_of_int (c_rem (uint (s_vr s) + 1) 32767)\<rparr>))"

lemma run_wakeup_none:
  "no_wakeup env \<Longrightarrow> run_wakeup env st = Inr (on_s (\<lambda>s. if s_va s = s_vs s then t1_timer_stop s else s) st)"
  by (simp add: no_wakeup_def run_wakeup_def call_hook_def on_s_def)

lemma on_s_simps:
  "on_s f (on_s g st) = on_s (\<lambda>s. f (g s)) st" "st_s (on_s f st) = f (st_s st)"
  "touch st = (if s_freed (st_s st) then Inl UseAfterFree else Inr st)"
  by (simp_all add: on_s_def touch_def)

lemma iframe_recv_accept:
  assumes "check_nr (st_s st) (ic_nr (b_h b))" and "check_ns (st_s st) (ic_ns (b_h b))"
    and "no_wakeup env" and "\<not> s_freed (st_s st)"
  shows "iecsock_iframe_recv env b st =
     (let b' = b\<lparr>b_data_len := h_length (b_h b) - 4\<rparr> in
      res_bind (call_hook (map_option (\<lambda>f. f b') (data_indication (e_hooks env)))
                          (map_option (\<lambda>f. f b') (data_indication (e_default env)))
                 (st\<lparr>st_s := accepted (ic_nr (b_h b)) (st_s st)\<rparr>))
        (\<lambda>st. Inr (0, st)))"
proof -
  define F where "F = (\<lambda>s. t2_timer_start (t2_timer_stop (let s = s\<lparr>s_va := ic_nr (b_h b)\<rparr> in
      if s_va s = s_vs s then t1_timer_stop s else s)))"
  have F: "s_freed (F (st_s st)) = s_freed (st_s st)" "s_vr (F (st_s st)) = s_vr (st_s st)"
    by (simp_all add: F_def sess_defs Let_def)
  have "st\<lparr>st_s := accepted (ic_nr (b_h b)) (st_s st)\<rparr>
      = on_s (\<lambda>s. ack_peer ((F s)\<lparr>s_vr := word_of_int (c_rem (uint (s_vr (F s)) + 1) 32767)\<rparr>)) st"
    by (simp add: on_s_def accepted_def F_def Let_def)
  then show ?thesis
    using assms F
    by (simp add: iecsock_iframe_recv_def Let_def run_wakeup_none on_s_simps check_ns_def F_def sess_defs)
qed

lemma accepted_fields:
  "s_vs (accepted nr s) = s_vs s" "s_va (accepted nr s) = nr" "s_freed (accepted nr s) = s_freed s"
  "s_left (accepted nr s) = s_left s" "s_len (accepted nr s) = s_len s" "s_buf (accepted nr s) = s_buf s"
  "io_in (accepted nr s) = io_in s" "s_type (accepted nr s) = s_type s" "s_stopdt (accepted nr s) = s_stopdt s"
  "s_w (accepted nr s) = s_w s" "s_k (accepted nr s) = s_k s" "s_ackw_q (accepted nr s) = s_ackw_q s"
  "s_write_q (accepted nr s) = s_write_q s"
  by (simp_all add: accepted_def ack_peer_def sess_defs Let_def)

lemma ack_peer_eq:
  assumes "wf_win s" and "s' = s\<lparr>s_vr := word_of_int (c_rem (uint (s_vr s) + 1) 32767)\<rparr>"
  shows "ack_peer s' = (if unacked s + 1 = uint (s_w s)
    then (iecsock_sframe_send s')\<lparr>s_va_peer := s_vr s'\<rparr> else s')"
proof -
  have "0 \<le> uint (s_vr s')" by simp
  moreover have "uint (s_va_peer s') < 32767" using assms by (simp add: wf_win_def)
  ultimately have "0 \<le> uint (s_vr s') - uint (s_va_peer s') + 32767" by linarith
  then have "c_rem (uint (s_vr s') - uint (s_va_peer s') + 32767) 32767 = unacked s'"
    by (simp add: unacked_def c_rem_nonneg)
  then show ?thesis
    using unacked_succ(1) [OF assms] assms(2) by (simp add: ack_peer_def Let_def sess_defs)
qed

lemma accepted_law:
  assumes "wf_win s" and "check_nr s nr" and "uint nr \<le> 32767"
  shows "wf_win (accepted nr s)" and "uint (s_vr (accepted nr s)) = (uint (s_vr s) + 1) mod 32767"
    and "unacked (accepted nr s) = (if unacked s + 1 = uint (s_w s) then 0 else unacked s + 1)"
    and "tx (accepted nr s) = tx s @ (if unacked s + 1 = uint (s_w s)
           then [hdr_bytes (sframe_hdr (s_vr (accepted nr s)))] else [])"
proof -
  define s2 where "s2 = t2_timer_start (t2_timer_stop
      (let s = s\<lparr>s_va := nr\<rparr> in if s_va s = s_vs s then t1_timer_stop s else s))"
  define s3 where "s3 = s2\<lparr>s_vr := word_of_int (c_rem (uint (s_vr s2) + 1) 32767)\<rparr>"
  have wf2: "wf_win s2" using wf_win_ack [OF assms] by (auto simp: s2_def Let_def)
  have acc: "accepted nr s = ack_peer s3" by (simp add: accepted_def s2_def s3_def Let_def)
  note u = unacked_succ [OF wf2 s3_def] and p = ack_peer_eq [OF wf2 s3_def]
  have same: "unacked s2 = unacked s" "s_w s2 = s_w s" "s_vr s2 = s_vr s" "tx s2 = tx s" "tx s3 = tx s2"
    by (simp_all add: s2_def s3_def unacked_def Let_def sess_defs tx_def)
  show "wf_win (accepted nr s)" using ack_peer_wf [OF wf2 s3_def] acc by simp
  show "uint (s_vr (accepted nr s)) = (uint (s_vr s) + 1) mod 32767"
    using u(2) p same acc by (simp add: sess_defs)
  show "unacked (accepted nr s) = (if unacked s + 1 = uint (s_w s) then 0 else unacked s + 1)"
    using u(1) p same acc by (simp add: unacked_def sess_defs)
  show "tx (accepted nr s) = tx s @ (if unacked s + 1 = uint (s_w s)
           then [hdr_bytes (sframe_hdr (s_vr (accepted nr s)))] else [])"
    using p same acc by (simp add: sess_defs tx_def)
qed

section \<open>Reading one frame from the stream\<close>

text \<open>\<open>bufferevent_read\<close> hands over what it has, up to what is asked for.\<close>

definition reads_all :: "'g env \<Rightarrow> bool" where
  "reads_all env \<longleftrightarrow> (\<forall>buf n. e_read env buf n = min n (length buf))"

definition rx_ready :: "iecsock \<Rightarrow> bool" where
  "rx_ready s \<longleftrightarrow> \<not> s_freed s \<and> s_left s = 0 \<and> length (s_buf s) = IEC104_BUF_LEN"

text \<open>The connection when a whole frame stands in its buffer.\<close>

definition framed :: "u8 list \<Rightarrow> u8 list \<Rightarrow> iecsock \<Rightarrow> iecsock" where
  "framed f rest s = s\<lparr>s_buf := f @ drop (length f) (s_buf s), io_in := rest, s_left := 0,
     s_len := of_nat (length f),
     io_log := io_log s @ (if length f = 6 then [] else [BevWatermark (int (length f) - 6)])\<rparr>"

definition frame_done :: "iecsock \<Rightarrow> iecsock" where
  "frame_done s = log_call (BevWatermark 6) (s\<lparr>s_left := 0, s_len := 0\<rparr>)"

lemma apdu_bounds:
  "h_length h < IEC_APDU_MIN \<longleftrightarrow> unat (h_length h) < 4"
  "IEC_APDU_MAX < h_length h \<longleftrightarrow> 253 < unat (h_length h)"
  by (simp_all add: IEC_APDU_MIN_def IEC_APDU_MAX_def word_less_nat_alt)

lemma unat_ctrl_len: "4 \<le> unat (h_length h) \<Longrightarrow> unat (h_length h - IEC104_CTRL_LEN) = unat (h_length h) - 4"
  by (simp add: IEC104_CTRL_LEN_def unat_sub word_le_nat_alt)

lemma buffer_read_header:
  assumes "rx_ready (st_s st)" and "reads_all env" and "io_in (st_s st) = hdr_bytes h @ xs"
    and "h_start h = 0x68" and "4 < unat (h_length h)" and "unat (h_length h) \<le> 253"
  shows "iecsock_buffer_read env fr st =
    Inr (on_s (\<lambda>s. s\<lparr>s_buf := hdr_bytes h @ drop 6 (s_buf s), io_in := xs,
       s_left := h_length h - 4, s_len := 6,
       io_log := io_log s @ [BevWatermark (int (unat (h_length h)) - 4)]\<rparr>) st)"
proof -
  have bad: "\<not> h_length h < IEC_APDU_MIN" "\<not> IEC_APDU_MAX < h_length h"
    using assms(5,6) by (simp_all add: apdu_bounds)
  have u: "unat (h_length h - 4) = unat (h_length h) - 4"
    using unat_ctrl_len [of h] assms(5) by (simp add: IEC104_CTRL_LEN_def)
  then have ne: "h_length h \<noteq> 4" using assms(5) by auto
  have "int (unat (h_length h - 4)) = int (unat (h_length h)) - 4"
    unfolding u using assms(5) by (intro of_nat_diff [of 4, simplified]) simp
  then have ui: "uint (h_length h - 4) = int (unat (h_length h)) - 4" by simp
  show ?thesis
    using assms(1-4) bad ne ui
    by (simp add: iecsock_buffer_read_def rx_ready_def bev_read_def reads_all_def Let_def
        IEC104_BUF_LEN_def hdr_of_bytes_hdr_bytes touch_def on_s_def log_call_def IEC104_CTRL_LEN_def)
qed

lemma buffer_read_body:
  assumes "\<not> s_freed (st_s st)" and "reads_all env" and "s_left (st_s st) = l" and "l \<noteq> 0"
    and "s_len (st_s st) = 6" and "length (s_buf (st_s st)) = IEC104_BUF_LEN" and "unat l \<le> 249"
    and "io_in (st_s st) = xs @ rest" and "length xs = unat l"
    and "frame_recv env (on_s (\<lambda>s. s\<lparr>s_buf := take 6 (s_buf s) @ xs @ drop (6 + length xs) (s_buf s),
         io_in := rest, s_left := 0, s_len := 6 + l\<rparr>) st) = Inr (0, st1)"
    and "\<not> s_freed (st_s st1)"
  shows "iecsock_buffer_read env frame_recv st = Inr (on_s frame_done st1)"
proof -
  have l: "of_nat (length xs) = l" using assms(9) by simp
  show ?thesis
    using assms l
    by (simp add: iecsock_buffer_read_def bev_read_def reads_all_def Let_def IEC104_BUF_LEN_def
        on_s_def touch_def frame_done_def)
qed

lemma buffer_read_control:
  assumes "rx_ready (st_s st)" and "reads_all env" and "io_in (st_s st) = hdr_bytes h @ rest"
    and "h_start h = 0x68" and "h_length h = 4"
    and "frame_recv env (on_s (framed (hdr_bytes h) rest) st) = Inr (0, st1)" and "\<not> s_freed (st_s st1)"
  shows "iecsock_buffer_read env frame_recv st = Inr (on_s frame_done st1)"
proof -
  have bad: "\<not> h_length h < IEC_APDU_MIN" "\<not> IEC_APDU_MAX < h_length h"
    using assms(5) by (simp_all add: IEC_APDU_MIN_def IEC_APDU_MAX_def)
  have "on_s (framed (hdr_bytes h) rest) st = st\<lparr>st_s := st_s st\<lparr>s_buf := hdr_bytes h @ drop 6 (s_buf (st_s st)),
      io_in := rest, s_left := 0, s_len := 6\<rparr>\<rparr>"
    by (simp add: on_s_def framed_def)
  then show ?thesis
    using assms bad
    by (simp add: iecsock_buffer_read_def rx_ready_def bev_read_def reads_all_def Let_def
        IEC104_BUF_LEN_def hdr_of_bytes_hdr_bytes touch_def on_s_def frame_done_def IEC104_CTRL_LEN_def)
qed

text \<open>
  A whole frame at the front of the stream is consumed in at most two turns of the read loop, by
  one call of the frame handler on a buffer that holds exactly this frame.
\<close>

lemma read_frame:
  assumes rdy: "rx_ready (st_s st)" and rd: "reads_all env" and h: "h_start h = 0x68"
    and len: "unat (h_length h) = length xs + 4" "length xs \<le> 249"
    and inp: "io_in (st_s st) = hdr_bytes h @ xs @ rest"
    and recv: "iecsock_frame_recv env (on_s (framed (hdr_bytes h @ xs) rest) st) = Inr (0, st1)"
    and live: "\<not> s_freed (st_s st1)"
  shows "\<exists>k \<le> 2. \<forall>n. bufreadcb (k + n) env st = bufreadcb n env (on_s frame_done st1)"
proof (cases "xs = []")
  case True
  then have "unat (h_length h) = unat (4 :: u8)" using len by simp
  then have "h_length h = 4" by (simp only: word_unat_eq_iff)
  then have "iecsock_buffer_read env iecsock_frame_recv st = Inr (on_s frame_done st1)"
    using buffer_read_control [OF rdy rd _ h] inp recv live True by simp
  then have "bufreadcb (1 + n) env st = bufreadcb n env (on_s frame_done st1)" for n
    using rdy inp by (simp add: rx_ready_def touch_def hdr_bytes_def)
  then show ?thesis by (intro exI [of _ 1]) simp
next
  case False
  let ?F = "\<lambda>s. s\<lparr>s_buf := hdr_bytes h @ drop 6 (s_buf s), io_in := xs @ rest,
       s_left := h_length h - 4, s_len := 6,
       io_log := io_log s @ [BevWatermark (int (unat (h_length h)) - 4)]\<rparr>"
  have hl: "4 < unat (h_length h)" "unat (h_length h) \<le> 253" using False len by (simp_all add: length_greater_0_conv)
  have one: "iecsock_buffer_read env iecsock_frame_recv st = Inr (on_s ?F st)"
    using buffer_read_header [OF rdy rd inp h hl] .
  have l: "unat (h_length h - 4) = length xs"
    using unat_ctrl_len [of h] hl len by (simp add: IEC104_CTRL_LEN_def)
  then have lw: "h_length h - 4 = of_nat (length xs)" by (simp flip: l)
  have ne: "h_length h - 4 \<noteq> 0" using l False by auto
  have eq: "on_s (\<lambda>s. s\<lparr>s_buf := take 6 (s_buf s) @ xs @ drop (6 + length xs) (s_buf s),
         io_in := rest, s_left := 0, s_len := 6 + (h_length h - 4)\<rparr>) (on_s ?F st)
      = on_s (framed (hdr_bytes h @ xs) rest) st"
    using False len by (cases "st_s st") (simp add: on_s_def framed_def lw add.commute)
  have two: "iecsock_buffer_read env iecsock_frame_recv (on_s ?F st) = Inr (on_s frame_done st1)"
    by (rule buffer_read_body [OF _ rd refl, where xs = xs and rest = rest])
      (use rdy len(2) l ne recv eq live in \<open>simp_all add: on_s_simps(2) rx_ready_def IEC104_BUF_LEN_def\<close>)
  have "bufreadcb (2 + n) env st = bufreadcb n env (on_s frame_done st1)" for n
    using one two rdy inp False by (simp add: numeral_2_eq_2 rx_ready_def touch_def on_s_def hdr_bytes_def)
  then show ?thesis by blast
qed

section \<open>Delivering the frames of one end to the program of the other\<close>

text \<open>A program that keeps what it is handed.\<close>

definition deliver :: "iec_buf \<Rightarrow> u8 list list hook" where
  "deliver b st = Inr (st\<lparr>st_g := st_g st @ [take (unat (b_data_len b)) (b_data b)]\<rparr>)"

definition delivering :: "u8 list list env \<Rightarrow> bool" where
  "delivering env \<longleftrightarrow> no_wakeup env \<and> reads_all env \<and> e_calloc env
     \<and> data_indication (e_hooks env) = Some deliver"

definition listening :: "iecsock \<Rightarrow> bool" where
  "listening s \<longleftrightarrow> wf_win s \<and> rx_ready s \<and> \<not> (s_type s = IEC_SLAVE \<and> s_stopdt s)"

lemma frame_copy_framed:
  assumes "length xs \<le> 249" and "unat (h_length h) = length xs + 4" and "length (s_buf s) = IEC104_BUF_LEN"
    and "s_buf s' = s_buf (framed (hdr_bytes h @ xs) rest s)" and "s_len s' = s_len (framed (hdr_bytes h @ xs) rest s)"
  shows "frame_copy s' = Inr \<lparr>b_data_len = 0, b_h = h, b_data = xs\<rparr>" and "hdr_of_bytes (s_buf s') = h"
proof -
  have l: "unat (of_nat (length xs + 6) :: u8) = length xs + 6"
    using assms(1) by (simp only: unat_of_nat take_bit_nat_eq_self_iff) simp
  show hb: "hdr_of_bytes (s_buf s') = h" using assms(4) by (simp add: framed_def hdr_of_bytes_hdr_bytes)
  have "take (length xs + 6) (s_buf s') = hdr_bytes h @ xs" using assms(4) by (simp add: framed_def)
  then show "frame_copy s' = Inr \<lparr>b_data_len = 0, b_h = h, b_data = xs\<rparr>"
    using assms l by (simp add: frame_copy_def Let_def hb framed_def hdr_of_bytes_hdr_bytes add.commute)
qed

lemma one_iframe:
  assumes env: "delivering env" and lst: "listening (st_s st)" and b: "iframe_ok b"
    and ns: "ic_ns (b_h b) = s_vr (st_s st)" and nr: "check_nr (st_s st) (ic_nr (b_h b))"
    and inp: "io_in (st_s st) = wire b @ rest"
  shows "\<exists>st'. (\<exists>k \<le> 2. \<forall>n. bufreadcb (k + n) env st = bufreadcb n env st') \<and> listening (st_s st')
    \<and> io_in (st_s st') = rest \<and> s_vs (st_s st') = s_vs (st_s st) \<and> s_va (st_s st') = ic_nr (b_h b)
    \<and> uint (s_vr (st_s st')) = (uint (s_vr (st_s st)) + 1) mod 32767 \<and> st_g st' = st_g st @ [b_data b]"
proof -
  let ?h = "b_h b" and ?xs = "b_data b" and ?nr = "ic_nr (b_h b)"
  have bk: "frame_type ?h = FRAME_TYPE_I" "h_start ?h = 0x68" "length ?xs \<le> 249" "unat (h_length ?h) = length ?xs + 4"
    using b by (simp_all add: iframe_ok_def)
  let ?s = "t3_timer_start (t3_timer_stop (framed (hdr_bytes ?h @ ?xs) rest (st_s st)))"
  let ?b = "\<lparr>b_data_len = 0, b_h = ?h, b_data = ?xs\<rparr>"
  have s: "wf_win ?s = wf_win (st_s st)" "s_vr ?s = s_vr (st_s st)" "s_va ?s = s_va (st_s st)" "s_vs ?s = s_vs (st_s st)"
      "s_freed ?s = s_freed (st_s st)" "s_type ?s = s_type (st_s st)" "s_stopdt ?s = s_stopdt (st_s st)"
      "io_in ?s = rest" "length (s_buf (st_s st)) = IEC104_BUF_LEN \<Longrightarrow> length (s_buf ?s) = IEC104_BUF_LEN"
    using bk(3) by (simp_all add: framed_def sess_defs IEC104_BUF_LEN_def)
  have l: "wf_win (st_s st)" "rx_ready (st_s st)" "length (s_buf (st_s st)) = IEC104_BUF_LEN"
      "\<not> s_freed (st_s st)" "\<not> (s_type (st_s st) = IEC_SLAVE \<and> s_stopdt (st_s st))"
    using lst by (simp_all add: listening_def rx_ready_def)
  have cn: "check_nr ?s ?nr" using nr s by (simp add: check_nr_def)
  have copy: "frame_copy ?s = Inr ?b" and hdr: "hdr_of_bytes (s_buf (framed (hdr_bytes ?h @ ?xs) rest (st_s st))) = ?h"
    using frame_copy_framed [OF bk(3,4) l(3)] by (simp_all add: sess_defs)
  let ?st1 = "st\<lparr>st_s := accepted ?nr ?s, st_g := st_g st @ [?xs]\<rparr>"
  have dl: "unat (h_length ?h - 4) = length ?xs"
    using unat_ctrl_len [of ?h] bk(4) by (simp add: IEC104_CTRL_LEN_def)
  have "iecsock_iframe_recv env ?b (st\<lparr>st_s := ?s\<rparr>) = Inr (0, ?st1)"
    using iframe_recv_accept [of "st\<lparr>st_s := ?s\<rparr>" ?b env] cn ns s(2,5) l(4) env dl
    by (simp add: check_ns_def delivering_def call_hook_def deliver_def Let_def)
  then have "iecsock_frame_recv env (on_s (framed (hdr_bytes ?h @ ?xs) rest) st) = Inr (0, ?st1)"
    using env copy hdr bk(1) s(6,7) l(5) by (auto simp: iecsock_frame_recv_def delivering_def on_s_def Let_def)
  then obtain k where "k \<le> 2" "\<And>n. bufreadcb (k + n) env st = bufreadcb n env (on_s frame_done ?st1)"
    using read_frame [OF l(2) _ bk(2,4,3), of env rest ?st1] env inp l(4) s(5)
    by (auto simp: delivering_def wire_def accepted_fields)
  moreover have "wf_win (accepted ?nr ?s)" "uint (s_vr (accepted ?nr ?s)) = (uint (s_vr (st_s st)) + 1) mod 32767"
    using accepted_law [OF _ cn uint_ic_nr] l(1) s(1,2) by simp_all
  ultimately show ?thesis
    using l s by (intro exI [of _ "on_s frame_done ?st1"])
      (auto simp: listening_def rx_ready_def frame_done_def on_s_def log_call_def accepted_fields)
qed

lemma check_nr_self:
  assumes "wf_win s" and "s_va s = nr"
  shows "check_nr s nr"
  using assms by (simp add: check_nr_iff wf_win_def)

lemma read_iframes:
  assumes "delivering env" and "listening (st_s st)" and "\<And>b. b \<in> set fs \<Longrightarrow> iframe_ok b \<and> ic_nr (b_h b) = nr"
    and "fs \<noteq> [] \<Longrightarrow> check_nr (st_s st) nr" and "seqnos fs = seq_from (uint (s_vr (st_s st))) (length fs)"
    and "io_in (st_s st) = concat (map wire fs)"
  shows "\<exists>st'. (\<exists>k \<le> 2 * length fs. \<forall>n. bufreadcb (k + n) env st = bufreadcb n env st') \<and> listening (st_s st')
    \<and> io_in (st_s st') = [] \<and> uint (s_vr (st_s st')) = (uint (s_vr (st_s st)) + int (length fs)) mod 32767
    \<and> st_g st' = st_g st @ map b_data fs"
  using assms(2-)
proof (induction fs arbitrary: st)
  case Nil
  then show ?case
    by (intro exI [of _ st]) (simp add: listening_def wf_win_def)
next
  case (Cons b fs)
  have b: "iframe_ok b" "ic_nr (b_h b) = nr" "check_nr (st_s st) (ic_nr (b_h b))"
    using Cons.prems(2,3) by auto
  have vr: "uint (s_vr (st_s st)) < 32767" using Cons.prems(1) by (simp add: listening_def wf_win_def)
  have sq: "uint (ic_ns (b_h b)) # seqnos fs
      = uint (s_vr (st_s st)) mod 32767 # seq_from (uint (s_vr (st_s st)) + 1) (length fs)"
    using Cons.prems(4) seq_from_split [of 1 "Suc (length fs)" "uint (s_vr (st_s st))"]
    by (simp add: seqnos_def) (simp add: seq_from_def)
  then have ns: "ic_ns (b_h b) = s_vr (st_s st)" using vr by (simp add: word_uint_eq_iff)
  obtain st1 k where st1: "k \<le> 2" "\<And>n. bufreadcb (k + n) env st = bufreadcb n env st1" "listening (st_s st1)"
      "io_in (st_s st1) = concat (map wire fs)" "s_va (st_s st1) = nr"
      "uint (s_vr (st_s st1)) = (uint (s_vr (st_s st)) + 1) mod 32767" "st_g st1 = st_g st @ [b_data b]"
    using one_iframe [OF assms(1) Cons.prems(1) b(1) ns b(3), of "concat (map wire fs)"] Cons.prems(5) b(2) by auto
  have "seqnos fs = seq_from (uint (s_vr (st_s st1))) (length fs)"
    using sq seq_from_mod [of "uint (s_vr (st_s st)) + 1" "uint (s_vr (st_s st1))"] st1(6) by simp
  moreover have "check_nr (st_s st1) nr"
    using st1(3,5) check_nr_self by (simp add: listening_def)
  ultimately obtain st' k' where st': "k' \<le> 2 * length fs" "\<And>n. bufreadcb (k' + n) env st1 = bufreadcb n env st'"
      "listening (st_s st')" "io_in (st_s st') = []" "st_g st' = st_g st1 @ map b_data fs"
      "uint (s_vr (st_s st')) = (uint (s_vr (st_s st1)) + int (length fs)) mod 32767"
    using Cons.IH [OF st1(3)] Cons.prems(2) st1(4) by auto
  have "bufreadcb ((k + k') + n) env st = bufreadcb n env st'" for n
    using st1(2) [of "k' + n"] st'(2) by (simp add: add.assoc)
  then have "\<exists>j \<le> 2 * length (b # fs). \<forall>n. bufreadcb (j + n) env st = bufreadcb n env st'"
    using st1(1) st'(1) by (intro exI [of _ "k + k'"]) simp
  then show ?case
    using st' st1 by (intro exI [of _ st']) (simp add: mod_simps algebra_simps)
qed

section \<open>A concrete environment and connection\<close>

definition quiet_hooks :: "'g iechooks" where
  "quiet_hooks = \<lparr>connect_indication = None, activation_indication = None, deactivation_indication = None,
     disconnect_indication = None, data_indication = None, transmit_wakeup = None\<rparr>"

definition plain_env :: "'g iechooks \<Rightarrow> 'g env" where
  "plain_env hooks = \<lparr>e_hooks = hooks, e_default = quiet_hooks, e_calloc = True,
     e_pending = (\<lambda>_ _. False), e_read = (\<lambda>buf n. min n (length buf)),
     e_conn = \<lparr>ce_calloc = True, ce_socket = 5, ce_fcntl = 0, ce_connect = -1, ce_einprogress = True\<rparr>\<rparr>"

text \<open>A connection with the default parameters and \<open>q\<close> waiting to be sent.\<close>

definition fresh :: "iec_buf list \<Rightarrow> iecsock" where
  "fresh q = (iecsock_set_defaults iecsock_zero)\<lparr>s_write_q := q\<rparr>"

lemma fresh_fields [simp]:
  "s_write_q (fresh q) = q" "s_vs (fresh q) = 0" "s_va (fresh q) = 0" "s_vr (fresh q) = 0"
  "s_va_peer (fresh q) = 0" "s_k (fresh q) = 12" "s_w (fresh q) = 8" "s_type (fresh q) = IEC_SLAVE"
  "s_stopdt (fresh q) = False" "s_freed (fresh q) = False" "s_left (fresh q) = 0" "io_in (fresh q) = []"
  "length (s_buf (fresh q)) = IEC104_BUF_LEN" "s_ackw_q (fresh q) = []" "s_testfr (fresh q) = False"
  by (simp_all add: fresh_def iecsock_set_defaults_def iecsock_zero_def Let_def log_call_def
      DEFAULT_K_def DEFAULT_W_def)

lemma fresh_wf: "(\<And>b. b \<in> set q \<Longrightarrow> iframe_ok b) \<Longrightarrow> wf_win (fresh q) \<and> listening (fresh q)"
  by (simp add: listening_def rx_ready_def wf_win_def outstanding_def unacked_def)

lemma fresh_window: "outstanding (fresh q) = 0" "unacked (fresh q) = 0" "tx (fresh q) = []"
  by (simp_all add: outstanding_def unacked_def)
    (simp add: tx_def fresh_def iecsock_set_defaults_def iecsock_zero_def Let_def log_call_def)

lemma quiet_calls [simp]:
  "call_hook (activation_indication (e_hooks (plain_env quiet_hooks))) (activation_indication (e_default (plain_env quiet_hooks))) st = Inr st"
  "call_hook (map_option (\<lambda>f. f b) (data_indication (e_hooks (plain_env quiet_hooks))))
     (map_option (\<lambda>f. f b) (data_indication (e_default (plain_env quiet_hooks)))) st = Inr st"
  by (simp_all add: plain_env_def quiet_hooks_def call_hook_def)

text \<open>The buffer the client makes of an ASDU.\<close>

definition asdu_buf :: "u8 list \<Rightarrow> iec_buf" where
  "asdu_buf xs = iecsock_prepare_iframe \<lparr>b_data_len = of_nat (length xs), b_h = hdr_zero, b_data = xs\<rparr>"

lemma asdu_buf_ok: "length xs \<le> 249 \<Longrightarrow> iframe_ok (asdu_buf xs) \<and> b_data (asdu_buf xs) = xs"
  by (simp add: asdu_buf_def iframe_ok_def prepare_iframe_type unat_word_ariths unat_of_nat)

lemma plain_env_simps:
  "no_wakeup (plain_env quiet_hooks)" "reads_all (plain_env hooks)"
  "delivering (plain_env (quiet_hooks\<lparr>data_indication := Some deliver\<rparr>))"
  by (simp_all add: no_wakeup_def reads_all_def delivering_def plain_env_def quiet_hooks_def)

section \<open>Properties\<close>

text \<open>
  C5. Sending and receiving together: when an active end runs its write queue, it sends the
  frames its window has room for, and an end that is in step with it and reads exactly those
  octets hands the payloads of the queue's first ASDUs to its program, in order, each once; it
  then expects the next number the sender will use.  Two turns of the read loop per frame and
  one to see the empty buffer are enough.
\<close>

theorem link_transfer:
  assumes snd: "wf_win s" "\<not> (s_type s = IEC_SLAVE \<and> s_stopdt s)"
    and rcv: "delivering env'" "listening (st_s st)"
    and sync: "s_vr (st_s st) = s_vs s" "check_nr (st_s st) (s_vr s)"
    and n: "n = min (length (s_write_q s)) (nat (uint (s_k s) - outstanding s))"
  shows "\<exists>s' frames st'. iecsock_run_write_queue env s = Inr s' \<and> tx s' = tx s @ frames
    \<and> length frames = n \<and> s_write_q s' = drop n (s_write_q s)
    \<and> bufreadcb (2 * n + 1) env' (on_s (\<lambda>r. r\<lparr>io_in := concat frames\<rparr>) st) = Some (Inr st')
    \<and> st_g st' = st_g st @ map b_data (take n (s_write_q s)) \<and> s_vr (st_s st') = s_vs s'
    \<and> listening (st_s st')"
proof -
  define fs where "fs = map (\<lambda>i. numbered (uint (s_vs s) + int i) (s_vr s) (s_write_q s ! i)) [0..<n]"
  have vr: "uint (s_vr s) < 32767" "uint (s_vs s) < 32767" using snd(1) by (simp_all add: wf_win_def)
  obtain s' where s': "iecsock_run_write_queue env s = Inr s'" "wf_win s'" "s_write_q s' = drop n (s_write_q s)"
      "outstanding s' = outstanding s + int n" "tx s' = tx s @ map wire fs" "same_but_sent s s'"
    using write_loop_law [OF snd(1) n fs_def, of env] snd(2) by (auto simp: iecsock_run_write_queue_def)
  have vs': "uint (s_vs s') = (uint (s_vs s) + int n) mod 32767"
  proof -
    have "uint (s_vs s') mod 32767 = (uint (s_va s) + outstanding s') mod 32767"
      using same_but_sent_fields(1) [OF s'(6)] by (simp add: outstanding_def mod_simps)
    also have "\<dots> = (uint (s_vs s) + int n) mod 32767"
      using mod_add_cong [of "uint (s_va s) + outstanding s" 32767 "uint (s_vs s)" "int n" "int n"]
      unfolding s'(4) by (simp add: outstanding_def mod_simps add.assoc)
    finally show ?thesis using s'(2) by (simp add: wf_win_def)
  qed
  let ?st = "on_s (\<lambda>r. r\<lparr>io_in := concat (map wire fs)\<rparr>) st"
  have "int (unat (s_vr s)) = uint (s_vr s)" by simp
  then have "unat (s_vr s) < 32768" using vr(1) by linarith
  then have fs: "iframe_ok b \<and> ic_nr (b_h b) = s_vr s" if "b \<in> set fs" for b
    using that snd(1) n by (auto simp: fs_def wf_win_def numbered_def iframe_ok_def take_bit_15_id)
  have sq: "seqnos fs = seq_from (uint (s_vs s)) n"
    by (simp add: fs_def seqnos_def seq_from_def uint_ic_ns_numbered)
  have len: "length fs = n" by (simp add: fs_def)
  have dat: "map b_data fs = map b_data (take n (s_write_q s))"
    by (rule nth_equalityI) (auto simp: fs_def numbered_def n)
  have "listening (st_s ?st)" "check_nr (st_s ?st) (s_vr s)" "s_vr (st_s ?st) = s_vs s"
    using rcv(2) sync by (auto simp: listening_def rx_ready_def on_s_def check_nr_def)
  then obtain st' k where st': "k \<le> 2 * n" "\<And>m. bufreadcb (k + m) env' ?st = bufreadcb m env' st'"
      "listening (st_s st')" "io_in (st_s st') = []" "st_g st' = st_g st @ map b_data fs"
      "uint (s_vr (st_s st')) = (uint (s_vs s) + int n) mod 32767"
    using read_iframes [OF rcv(1), of ?st fs "s_vr s"] fs sq len by (auto simp: on_s_def)
  have "bufreadcb (2 * n + 1) env' ?st = bufreadcb (Suc (2 * n - k)) env' st'"
    using st'(2) [of "Suc (2 * n - k)"] st'(1) by simp
  also have "\<dots> = Some (Inr st')" using st'(3,4) by (simp add: touch_def listening_def rx_ready_def)
  finally show ?thesis
    using s' st' vs' len dat
    by (intro exI [of _ s'] exI [of _ "map wire fs"] exI [of _ st']) (simp add: word_uint_eq_iff)
qed

theorem link_transfer_witness:
  "\<exists>s' frames st'. iecsock_run_write_queue (plain_env quiet_hooks :: unit env) (fresh [asdu_buf [1, 2], asdu_buf [3]]) = Inr s'
    \<and> length frames = 2
    \<and> bufreadcb 5 (plain_env (quiet_hooks\<lparr>data_indication := Some deliver\<rparr>))
        (on_s (\<lambda>r. r\<lparr>io_in := concat frames\<rparr>) \<lparr>st_s = fresh [], st_new = [], st_g = []\<rparr>) = Some (Inr st')
    \<and> st_g st' = [[1, 2], [3]]"
proof -
  let ?q = "[asdu_buf [1, 2], asdu_buf [3]]" and ?st = "\<lparr>st_s = fresh [], st_new = [], st_g = []\<rparr>"
  have wf: "wf_win (fresh ?q)" and act: "\<not> (s_type (fresh ?q) = IEC_SLAVE \<and> s_stopdt (fresh ?q))"
    and lst: "listening (st_s ?st)" and vr: "s_vr (st_s ?st) = s_vs (fresh ?q)"
    using fresh_wf [of ?q] fresh_wf [of "[]"] asdu_buf_ok [of "[1, 2]"] asdu_buf_ok [of "[3]"] by auto
  have nr: "check_nr (st_s ?st) (s_vr (fresh ?q))" by (simp add: check_nr_def c_rem_def)
  have n: "2 = min (length (s_write_q (fresh ?q))) (nat (uint (s_k (fresh ?q)) - outstanding (fresh ?q)))"
    by (simp add: fresh_window)
  show ?thesis
    using link_transfer [OF wf act plain_env_simps(3) lst vr nr n, of "plain_env quiet_hooks :: unit env"]
      asdu_buf_ok [of "[1, 2]"] asdu_buf_ok [of "[3]"] by auto
qed

text \<open>
  The write queue sends exactly the frames the window has room for, oldest first, with
  consecutive send numbers modulo 32767 and the current receive number; they join the queue of
  frames waiting for their acknowledgement, the number in flight never exceeds \<open>k\<close>, and nothing
  else of the connection changes.  A slave whose data transfer is stopped sends nothing.
\<close>

theorem write_queue_fills_window:
  assumes "wf_win s" and "n = min (length (s_write_q s)) (nat (uint (s_k s) - outstanding s))"
    and "fs = map (\<lambda>i. numbered (uint (s_vs s) + int i) (s_vr s) (s_write_q s ! i)) [0..<n]"
  shows "\<exists>s'. iecsock_run_write_queue env s = Inr s' \<and> wf_win s' \<and>
    (if s_type s = IEC_SLAVE \<and> s_stopdt s then s' = s
     else tx s' = tx s @ map wire fs \<and> s_ackw_q s' = s_ackw_q s @ fs
       \<and> s_write_q s' = drop n (s_write_q s) \<and> seqnos fs = seq_from (uint (s_vs s)) n
       \<and> outstanding s' = outstanding s + int n \<and> outstanding s' \<le> uint (s_k s') \<and> same_but_sent s s')"
proof -
  have "seqnos fs = seq_from (uint (s_vs s)) n"
    by (simp add: assms(3) seqnos_def seq_from_def uint_ic_ns_numbered)
  then show ?thesis
    using write_loop_law [OF assms, of env] assms(1)
    by (auto simp: iecsock_run_write_queue_def wf_win_def)
qed

theorem write_queue_fills_window_witness:
  "\<exists>s'. iecsock_run_write_queue (plain_env quiet_hooks :: unit env) (fresh (replicate 15 (asdu_buf [7]))) = Inr s'
    \<and> outstanding s' = 12 \<and> length (s_write_q s') = 3 \<and> seqnos (s_ackw_q s') = [0, 1, 2, 3, 4, 5, 6, 7, 8, 9, 10, 11]"
proof -
  let ?s = "fresh (replicate 15 (asdu_buf [7]))"
  define fs where "fs = map (\<lambda>i. numbered (uint (s_vs ?s) + int i) (s_vr ?s) (s_write_q ?s ! i)) [0..<12]"
  have wf: "wf_win ?s" using fresh_wf [of "replicate 15 (asdu_buf [7])"] asdu_buf_ok [of "[7]"] by auto
  have n: "12 = min (length (s_write_q ?s)) (nat (uint (s_k ?s) - outstanding ?s))" by (simp add: fresh_window)
  have "seq_from 0 12 = [0, 1, 2, 3, 4, 5, 6, 7, 8, 9, 10, 11]" by (simp add: seq_from_def upt_rec)
  then show ?thesis
    using write_queue_fills_window [OF wf n fs_def, of "plain_env quiet_hooks :: unit env"]
    by (auto simp: fresh_window)
qed





text \<open>
  A slave that receives STARTDT act confirms it, becomes active and sends its queued frames
  up to its window right after the confirmation; a master refuses it unchanged.
\<close>

theorem startdt_activates_slave:
  assumes "wf_win (st_s st)" and "uframe_func (b_h b) = STARTACT" and "s = st_s st"
    and "n = min (length (s_write_q s)) (nat (uint (s_k s) - outstanding s))"
    and "fs = map (\<lambda>i. numbered (uint (s_vs s) + int i) (s_vr s) (s_write_q s ! i)) [0..<n]"
  shows "if s_type s = IEC_MASTER then iecsock_uframe_recv env b st = Inr (-1, st)
    else (\<exists>s'. iecsock_uframe_recv env b st =
        res_bind (call_hook (activation_indication (e_hooks env)) (activation_indication (e_default env)) (st\<lparr>st_s := s'\<rparr>))
          (\<lambda>st. Inr (0, st))
      \<and> \<not> s_stopdt s' \<and> wf_win s' \<and> tx s' = tx s @ hdr_bytes (uframe_hdr STARTCON) # map wire fs
      \<and> s_write_q s' = drop n (s_write_q s))"
proof (cases "s_type s")
  case IEC_MASTER
  then show ?thesis using assms(2,3) by (simp add: iecsock_uframe_recv_def Let_def)
next
  case IEC_SLAVE
  let ?s = "iecsock_uframe_send STARTCON (s\<lparr>s_stopdt := False\<rparr>)"
  have wf: "wf_win ?s" using assms(1,3) by simp
  have same: "s_write_q ?s = s_write_q s" "s_k ?s = s_k s" "outstanding ?s = outstanding s" "s_vs ?s = s_vs s"
      "s_vr ?s = s_vr s" "tx ?s = tx s @ [hdr_bytes (uframe_hdr STARTCON)]" "\<not> s_stopdt ?s"
    by (simp_all add: iecsock_uframe_send_def log_call_def outstanding_def tx_def)
  obtain s' where s': "write_loop env ?s = Inr s'" "wf_win s'" "s_write_q s' = drop n (s_write_q s)"
      "tx s' = tx ?s @ map wire fs" "same_but_sent ?s s'"
    using write_loop_law [OF wf, of n fs env] assms(4,5) same by auto
  have "\<not> s_stopdt s'" using same_but_sent_fields(7) [OF s'(5)] same(7) by simp
  then show ?thesis
    using IEC_SLAVE assms(2,3) s' same
    by (auto simp: iecsock_uframe_recv_def iecsock_run_write_queue_def Let_def intro!: exI [of _ s'])
qed

theorem startdt_activates_slave_witness:
  "\<exists>s'. iecsock_uframe_recv (plain_env quiet_hooks) \<lparr>b_data_len = 0, b_h = uframe_hdr STARTACT, b_data = []\<rparr>
     \<lparr>st_s = fresh [asdu_buf [1]], st_new = [], st_g = ()\<rparr> = Inr (0, \<lparr>st_s = s', st_new = [], st_g = ()\<rparr>)
     \<and> s_write_q s' = [] \<and> length (tx s') = 2"
proof -
  let ?st = "\<lparr>st_s = fresh [asdu_buf [1]], st_new = [], st_g = ()\<rparr>"
  let ?b = "\<lparr>b_data_len = 0, b_h = uframe_hdr STARTACT, b_data = []\<rparr>"
  have wf: "wf_win (st_s ?st)" using fresh_wf [of "[asdu_buf [1]]"] asdu_buf_ok [of "[1]"] by simp
  have f: "uframe_func (b_h ?b) = STARTACT" by (simp add: uframe_hdr_func)
  have n: "1 = min (length (s_write_q (st_s ?st))) (nat (uint (s_k (st_s ?st)) - outstanding (st_s ?st)))"
    by (simp add: fresh_window)
  from startdt_activates_slave [OF wf f refl n refl, of "plain_env quiet_hooks"] show ?thesis
    by (auto simp: fresh_window)
qed

text \<open>
  C24. Which U frames an end refuses: a master the two activations, a slave the two
  confirmations, either a TESTFR confirmation it did not ask for.  A refused frame changes
  nothing; a TESTFR activation is always answered, and its confirmation ends the test.
\<close>

theorem uframe_roles:
  assumes "s = st_s st" and "f = uframe_func (b_h b)"
  shows "((f = STARTACT \<or> f = STOPACT) \<and> s_type s = IEC_MASTER
      \<or> (f = STARTCON \<or> f = STOPCON) \<and> s_type s = IEC_SLAVE
      \<or> f = TESTCON \<and> \<not> s_testfr s
      \<longrightarrow> iecsock_uframe_recv env b st = Inr (-1, st))
    \<and> (f = TESTACT \<longrightarrow> (\<exists>s'. iecsock_uframe_recv env b st = Inr (0, st\<lparr>st_s := s'\<rparr>)
      \<and> tx s' = tx s @ [hdr_bytes (uframe_hdr TESTCON)]))
    \<and> (f = TESTCON \<and> s_testfr s \<longrightarrow> (\<exists>s'. iecsock_uframe_recv env b st = Inr (0, st\<lparr>st_s := s'\<rparr>)
      \<and> \<not> s_testfr s' \<and> tx s' = tx s))"
  using assms by (auto simp: iecsock_uframe_recv_def Let_def sess_defs tx_def)

theorem uframe_roles_witness:
  "iecsock_uframe_recv (plain_env quiet_hooks) \<lparr>b_data_len = 0, b_h = uframe_hdr STARTCON, b_data = []\<rparr>
     \<lparr>st_s = fresh [], st_new = [], st_g = ()\<rparr> = Inr (-1, \<lparr>st_s = fresh [], st_new = [], st_g = ()\<rparr>)"
  using uframe_roles [of "fresh []" "\<lparr>st_s = fresh [], st_new = [], st_g = ()\<rparr>" STARTCON
      "\<lparr>b_data_len = 0, b_h = uframe_hdr STARTCON, b_data = []\<rparr>" "plain_env quiet_hooks"]
  by (simp add: uframe_hdr_func)

text \<open>
  The free window: in a consistent connection the number of further ASDUs it accepts is the
  window \<open>k\<close> less the frames in flight, without wrap-around, and it is zero exactly when the
  write queue would stop.
\<close>

lemma can_queue_is_free_window:
  assumes "wf_win s"
  shows "uint (iecsock_can_queue s) = uint (s_k s) - outstanding s
    \<and> (iecsock_can_queue s = 0 \<longleftrightarrow> window_full s)"
proof -
  have u: "uint (iecsock_can_queue s) = uint (s_k s) - outstanding s" using uint_can_queue [OF assms] .
  then have "iecsock_can_queue s = 0 \<longleftrightarrow> outstanding s = uint (s_k s)"
    unfolding word_uint_eq_iff by auto
  with u show ?thesis using window_full_iff [OF assms] by simp
qed

end
