(* ===== verification/IecLink.thy ===== *)
theory IecLink
  imports IecTransfer
begin

text \<open>
  The client of \<open>src/ieclink/ieclink.c\<close>: it reads ASDUs in hexadecimal, one per line, from its
  standard input, queues them on its connection while the window has room and keeps the rest in
  the linked list \<open>asdulist\<close>; what it receives it prints the same way.  The list lives in an
  explicit store of allocated nodes, because \<open>asdulistlast\<close> points into it.  Of the arrays
  \<open>rbuf\<close> and \<open>asdubuf\<close> the model keeps the part in use, so that \<open>rbuflen\<close> and \<open>asdulen\<close> are
  the lengths of \<open>g_rbuf\<close> and \<open>g_asdubuf\<close>.
\<close>

section \<open>State\<close>

type_synonym addr = nat

record asduhead =
  a_next :: "addr option"
  a_bytes :: "u8 list"

datatype lastptr = ListHead | NextOf addr

record lk =
  g_asdubuf :: "u8 list"
  g_rbuf :: "u8 list"
  g_nodes :: "(addr \<times> asduhead) list"
  g_brk :: addr
  g_asdulist :: "addr option"
  g_asdulistlast :: lastptr
  g_curlistsize :: int
  g_endmsg :: bool
  g_stdout :: string

definition IEC104_ASDU_MAX :: nat where "IEC104_ASDU_MAX = 249"
definition RBUF_SIZE :: nat where "RBUF_SIZE = 1024"
definition limlistsize :: int where "limlistsize = 12"

definition lk_init :: lk where
  "lk_init = \<lparr>g_asdubuf = [], g_rbuf = [], g_nodes = [], g_brk = 0, g_asdulist = None,
     g_asdulistlast = ListHead, g_curlistsize = 0, g_endmsg = False, g_stdout = ''''\<rparr>"

text \<open>\<open>xmalloc\<close> ends the program when there is no memory.\<close>

definition xmalloc :: "bool \<Rightarrow> unit res" where
  "xmalloc mem = (if mem then Inr () else Inl (Exit 1))"

definition xfree :: "addr \<Rightarrow> (addr \<times> asduhead) list \<Rightarrow> (addr \<times> asduhead) list" where
  "xfree a nodes = filter (\<lambda>p. fst p \<noteq> a) nodes"

section \<open>Sending\<close>

definition iec_asdu_send :: "'g env \<Rightarrow> u8 list \<Rightarrow> iecsock \<Rightarrow> iecsock res" where
  "iec_asdu_send env bytes s =
     (if \<not> e_calloc env then Inr s
      else
        let b = \<lparr>b_data_len = of_nat (length bytes), b_h = hdr_zero, b_data = bytes\<rparr>;
            b = iecsock_prepare_iframe b;
            s = s\<lparr>s_write_q := s_write_q s @ [b]\<rparr>
        in iecsock_run_write_queue env s)"

section \<open>Reading the standard input\<close>

definition tolower :: "u8 \<Rightarrow> u8" where
  "tolower c = (if 0x41 \<le> c \<and> c \<le> 0x5A then c + 0x20 else c)"

text \<open>One hexadecimal digit, \<open>None\<close> for the jump to \<open>discard\<close>.\<close>

definition hex_digit :: "u8 \<Rightarrow> nat option" where
  "hex_digit ch =
     (let c = tolower ch
      in if 0x30 \<le> c \<and> c \<le> 0x39 then Some (unat c - 0x30)
         else if 0x61 \<le> c \<and> c \<le> 0x66 then Some (10 + unat c - 0x61)
         else None)"

text \<open>
  The loop over the pairs of digits of a line: the octets collected and the rest of the line
  when it stops, \<open>[]\<close> when \<open>cp\<close> has reached its end.
\<close>

fun parse_pairs :: "u8 list \<Rightarrow> u8 list \<Rightarrow> u8 list \<times> u8 list" where
  "parse_pairs acc (c1 # c2 # cs) =
     (case hex_digit c1 of
        None \<Rightarrow> (acc, c1 # c2 # cs)
      | Some d1 \<Rightarrow>
          (case hex_digit c2 of
             None \<Rightarrow> (acc, c2 # cs)
           | Some d2 \<Rightarrow>
               parse_pairs (if length acc < IEC104_ASDU_MAX then acc @ [of_nat (d1 * 16 + d2)] else acc) cs))"
| "parse_pairs acc cs = (acc, cs)"

text \<open>A new node at the end of the list, written through \<open>asdulistlast\<close>.\<close>

definition asdulist_append :: "bool \<Rightarrow> u8 list \<Rightarrow> lk \<Rightarrow> lk res" where
  "asdulist_append mem bytes g =
     res_bind (xmalloc mem) (\<lambda>_.
       let a = g_brk g;
           g = g\<lparr>g_brk := g_brk g + 1, g_nodes := (a, \<lparr>a_next = None, a_bytes = bytes\<rparr>) # g_nodes g\<rparr>
       in res_bind
            (case g_asdulistlast g of
               ListHead \<Rightarrow> Inr (g\<lparr>g_asdulist := Some a\<rparr>)
             | NextOf l \<Rightarrow>
                 (case map_of (g_nodes g) l of
                    None \<Rightarrow> Inl UseAfterFree
                  | Some n \<Rightarrow> Inr (g\<lparr>g_nodes := (l, n\<lparr>a_next := Some a\<rparr>) # xfree l (g_nodes g)\<rparr>)))
            (\<lambda>g. Inr (g\<lparr>g_asdulistlast := NextOf a, g_curlistsize := g_curlistsize g + 1\<rparr>)))"

text \<open>What is done with one line: the octets of a complete line are sent or saved.\<close>

definition stdin_line :: "'g env \<Rightarrow> u8 list \<Rightarrow> lk st \<Rightarrow> lk st res" where
  "stdin_line env line st =
     (let (bytes, cp) = parse_pairs (g_asdubuf (st_g st)) line;
          st = st\<lparr>st_g := (st_g st)\<lparr>g_asdubuf := bytes\<rparr>\<rparr>
      in if cp = [] \<and> bytes \<noteq> [] then
           if iecsock_can_queue (st_s st) \<noteq> 0
           then res_bind (iec_asdu_send env bytes (st_s st)) (\<lambda>s. Inr (st\<lparr>st_s := s\<rparr>))
           else res_bind (asdulist_append (e_calloc env) bytes (st_g st)) (\<lambda>g. Inr (st\<lparr>st_g := g\<rparr>))
         else Inr st)"

text \<open>
  The loop over the complete lines of the buffer: what is left of it, or \<open>None\<close> when a line that
  starts with \<open>>\<close> ended the message and the function returned.
\<close>

function stdin_lines :: "'g env \<Rightarrow> u8 list \<Rightarrow> lk st \<Rightarrow> (u8 list option \<times> lk st) res" where
  "stdin_lines env bs st =
     (if 0x0A \<notin> set bs then Inr (Some bs, st)
      else
        let line = takeWhile (\<lambda>c. c \<noteq> 0x0A) bs; rest = drop (length line + 1) bs
        in res_bind (stdin_line env line st) (\<lambda>st.
             if bs ! 0 = 0x3E
             then Inr (None, st\<lparr>st_g := (st_g st)\<lparr>g_rbuf := [], g_endmsg := True\<rparr>\<rparr>)
             else stdin_lines env rest (st\<lparr>st_g := (st_g st)\<lparr>g_asdubuf := []\<rparr>\<rparr>)))"
  by pat_completeness auto
termination
  by (relation "measure (\<lambda>(env, bs, st). length bs)") (auto intro!: diff_less simp: length_pos_if_in_set)

declare stdin_lines.simps [simp del]

text \<open>
  \<open>read\<close>: the standard input as the chunks it will hand over, at most \<open>n\<close> octets of the first
  one at a time; the end of the chunks stands for the end of input and for \<open>EAGAIN\<close>.
\<close>

fun read_stdin :: "nat \<Rightarrow> u8 list list \<Rightarrow> u8 list \<times> u8 list list" where
  "read_stdin n [] = ([], [])"
| "read_stdin n (c # cs) = (take n c, if length c \<le> n then cs else drop n c # cs)"

lemma read_stdin_shorter:
  "(x, y) = read_stdin n cs \<Longrightarrow> x \<noteq> [] \<Longrightarrow> length (concat y) < length (concat cs)"
  by (cases cs) (auto split: if_splits)

function stdin_read :: "'g env \<Rightarrow> u8 list list \<Rightarrow> lk st \<Rightarrow> (u8 list list \<times> lk st) res" where
  "stdin_read env input st =
     (let (chunk, input') = read_stdin (RBUF_SIZE - length (g_rbuf (st_g st))) input
      in if chunk = [] then Inr (input', st)
         else
           res_bind (stdin_lines env (g_rbuf (st_g st) @ chunk) st) (\<lambda>(left, st).
             case left of
               None \<Rightarrow> Inr (input', st)
             | Some bs \<Rightarrow>
                 let bs = (if length bs = RBUF_SIZE then [] else bs);
                     st = st\<lparr>st_g := (st_g st)\<lparr>g_rbuf := bs\<rparr>\<rparr>
                 in if g_curlistsize (st_g st) = limlistsize
                    then Inr (input', on_s (log_call (EvDel USER_EVENT)) st)
                    else stdin_read env input' st))"
  by pat_completeness auto
termination
  by (relation "measure (\<lambda>(env, input, st). length (concat input))")
    (auto dest: read_stdin_shorter)

declare stdin_read.simps [simp del]

section \<open>Hooks\<close>

text \<open>The loop that sends saved ASDUs while the window has room: the node it stops at.\<close>

function kick_loop :: "'g env \<Rightarrow> addr option \<Rightarrow> lk st \<Rightarrow> (addr option \<times> lk st) res" where
  "kick_loop env p st =
     (case p of
        None \<Rightarrow> Inr (None, st)
      | Some a \<Rightarrow>
          if iecsock_can_queue (st_s st) \<noteq> 0 then
            (case map_of (g_nodes (st_g st)) a of
               None \<Rightarrow> Inl UseAfterFree
             | Some n \<Rightarrow>
                 res_bind (iec_asdu_send env (a_bytes n) (st_s st)) (\<lambda>s.
                   kick_loop env (a_next n)
                     (st\<lparr>st_s := s, st_g := (st_g st)\<lparr>g_nodes := xfree a (g_nodes (st_g st))\<rparr>\<rparr>)))
          else Inr (Some a, st))"
  by pat_completeness auto
termination
  by (relation "measure (\<lambda>(env, p, st). length (g_nodes (st_g st)))")
    (auto simp: xfree_def dest!: map_of_SomeD intro!: length_filter_less)

declare kick_loop.simps [simp del]

definition print :: "string \<Rightarrow> lk st \<Rightarrow> lk st" where
  "print txt st = st\<lparr>st_g := (st_g st)\<lparr>g_stdout := g_stdout (st_g st) @ txt\<rparr>\<rparr>"

definition NL :: string where "NL = [CHR 0x0A]"

definition iec_kick_callback :: "'g env \<Rightarrow> lk hook" where
  "iec_kick_callback env st =
     res_bind (kick_loop env (g_asdulist (st_g st)) st) (\<lambda>(p, st).
       let st = st\<lparr>st_g := (st_g st)\<lparr>g_asdulist := p\<rparr>\<rparr>
       in if p = None \<and> \<not> g_endmsg (st_g st) then
            let st = st\<lparr>st_g := (st_g st)\<lparr>g_asdulistlast := ListHead\<rparr>\<rparr>
            in Inr (on_s (log_call (EvAdd USER_EVENT None)) st)
          else if p = None \<and> g_endmsg (st_g st) then
            let st = print (''<'' @ NL) st;
                st = on_s (log_call (EvAdd USER_EVENT None)) st
            in Inr (st\<lparr>st_g := (st_g st)\<lparr>g_endmsg := False\<rparr>\<rparr>)
          else Inr st)"

definition disconnect_hook :: "int \<Rightarrow> lk hook" where
  "disconnect_hook reason st = Inr (print (''-'' @ NL) st)"

text \<open>The conversion \<open>%02X\<close> of an octet.\<close>

definition hex_char :: "nat \<Rightarrow> char" where
  "hex_char n = ''0123456789ABCDEF'' ! n"

definition fmt_02X :: "u8 \<Rightarrow> string" where
  "fmt_02X v = [hex_char (unat v div 16), hex_char (unat v mod 16)]"

definition data_received_hook :: "iec_buf \<Rightarrow> lk hook" where
  "data_received_hook b st =
     (if length (b_data b) < unat (b_data_len b) then Inl OutOfBounds
      else Inr (print (concat (map fmt_02X (take (unat (b_data_len b)) (b_data b))) @ NL) st))"

definition activation_hook :: "lk hook" where
  "activation_hook st =
     (let st = on_s (\<lambda>s. log_call (EvSet USER_EVENT 0 STDIN_READ) (s\<lparr>s_user_init := True\<rparr>)) st;
          st = on_s (log_call (EvAdd USER_EVENT None)) st
      in Inr (print (''+'' @ NL) st))"

definition connect_hook :: "lk hook" where
  "connect_hook st = Inr st"

text \<open>The table of default hooks the program fills in; a connection's own table stays empty.\<close>

definition default_hooks :: "'g env \<Rightarrow> lk iechooks" where
  "default_hooks env = quiet_hooks\<lparr>disconnect_indication := Some disconnect_hook,
     connect_indication := Some connect_hook, data_indication := Some data_received_hook,
     activation_indication := Some activation_hook, transmit_wakeup := Some (iec_kick_callback env)\<rparr>"

definition ieclink_env :: "lk env \<Rightarrow> lk env" where
  "ieclink_env env = env\<lparr>e_hooks := quiet_hooks, e_default := default_hooks env\<rparr>"

section \<open>The program\<close>

text \<open>
  The start of the program: \<open>argv\<close> without the terminating null pointer, \<open>pton\<close> the answer of
  \<open>inet_pton\<close>.  The result is that of the connection attempt the event loop starts with.
\<close>

definition ieclink_main ::
  "(string \<Rightarrow> u32 option) \<Rightarrow> conn_env \<Rightarrow> bool \<Rightarrow> bool \<Rightarrow> string list
    \<Rightarrow> (int \<times> ev_call list \<times> iecsock option) res" where
  "ieclink_main pton ce calloc freopen argv =
     (if length argv \<le> 3 then Inl NullDeref
      else if \<not> calloc then Inl NullDeref
      else if \<not> freopen then Inl (Exit 2)
      else
        let addr = \<lparr>sin_family = AF_INET, sin_port = htons IEC_PORT_DEFAULT, sin_addr = 0\<rparr>
        in case pton (argv ! 1) of
             Some a \<Rightarrow>
               if atoi (argv ! 2) > 0
               then Inr (iecsock_connect ce
                      (Some (addr\<lparr>sin_addr := a, sin_port := htons (word_of_int (atoi (argv ! 2)))\<rparr>)))
               else Inr (iecsock_connect ce None)
           | None \<Rightarrow> Inr (iecsock_connect ce None))"

section \<open>The client keeps the windows of its connections\<close>

definition lk_ok :: "lk \<Rightarrow> bool" where
  "lk_ok g \<longleftrightarrow> length (g_asdubuf g) \<le> IEC104_ASDU_MAX
     \<and> (\<forall>p \<in> set (g_nodes g). length (a_bytes (snd p)) \<le> IEC104_ASDU_MAX)"

lemma lk_ok_frame [simp]:
  "lk_ok (g\<lparr>g_rbuf := bs\<rparr>) = lk_ok g" "lk_ok (g\<lparr>g_asdulist := p\<rparr>) = lk_ok g"
  "lk_ok (g\<lparr>g_asdulistlast := l\<rparr>) = lk_ok g" "lk_ok (g\<lparr>g_endmsg := e\<rparr>) = lk_ok g"
  "lk_ok (g\<lparr>g_stdout := txt\<rparr>) = lk_ok g" "lk_ok (g\<lparr>g_curlistsize := c\<rparr>) = lk_ok g"
  by (simp_all add: lk_ok_def)

definition ieclink_app :: "lk hook set" where
  "ieclink_app = {f. \<exists>env input. f = (\<lambda>st. res_bind (stdin_read (ieclink_env env) input st) (\<lambda>(input, st). Inr st))}"

lemma asdu_send_wf:
  assumes "wf_win s" and "length bytes \<le> IEC104_ASDU_MAX" and "iec_asdu_send env bytes s = Inr s'"
  shows "wf_win s'"
proof (cases "e_calloc env")
  case True
  let ?s = "s\<lparr>s_write_q := s_write_q s @ [asdu_buf bytes]\<rparr>"
  have "wf_win ?s"
    using assms(1,2) asdu_buf_ok [of bytes]
    by (auto simp: wf_win_def outstanding_def unacked_def IEC104_ASDU_MAX_def)
  with True assms(3) show ?thesis
    using run_write_queue_wf by (auto simp: iec_asdu_send_def Let_def asdu_buf_def)
qed (use assms in \<open>simp add: iec_asdu_send_def\<close>)

lemma asdulist_append_ok:
  assumes "asdulist_append mem bytes g = Inr g'" and "lk_ok g" and "length bytes \<le> IEC104_ASDU_MAX"
  shows "lk_ok g'"
  using assms
  by (auto simp: asdulist_append_def xmalloc_def xfree_def lk_ok_def Let_def
      elim!: res_bindE split: if_splits lastptr.splits option.splits dest!: map_of_SomeD)
    force+

lemma parse_pairs_length:
  "length acc \<le> IEC104_ASDU_MAX \<Longrightarrow> length (fst (parse_pairs acc cs)) \<le> IEC104_ASDU_MAX"
  by (induction acc cs rule: parse_pairs.induct) (auto split: option.splits)

lemma stdin_line_inv:
  assumes "stdin_line env line st = Inr st'" and "link_inv lk_ok st"
  shows "link_inv lk_ok st'"
proof -
  obtain bytes cp where p: "parse_pairs (g_asdubuf (st_g st)) line = (bytes, cp)" by fastforce
  have ok: "length bytes \<le> IEC104_ASDU_MAX"
    using parse_pairs_length [of "g_asdubuf (st_g st)" line] p assms(2) by (simp add: link_inv_def lk_ok_def)
  let ?st = "st\<lparr>st_g := (st_g st)\<lparr>g_asdubuf := bytes\<rparr>\<rparr>"
  have "link_inv lk_ok ?st" using assms(2) ok by (simp add: link_inv_def lk_ok_def)
  then show ?thesis
    using assms(1) p ok asdu_send_wf asdulist_append_ok
    by (auto simp: stdin_line_def Let_def link_inv_def elim!: res_bindE split: if_splits)
qed

text \<open>What the handling of each line keeps, reading the standard input keeps.\<close>

locale stdin_kept =
  fixes Q :: "lk st \<Rightarrow> bool"
  assumes line_kept: "stdin_line (env :: lk env) line st = Inr st' \<Longrightarrow> Q st \<Longrightarrow> Q st'"
    and rbuf_kept: "Q st \<Longrightarrow> Q (st\<lparr>st_g := (st_g st)\<lparr>g_rbuf := r\<rparr>\<rparr>)"
    and endmsg_kept: "Q st \<Longrightarrow> Q (st\<lparr>st_g := (st_g st)\<lparr>g_endmsg := True\<rparr>\<rparr>)"
    and asdubuf_kept: "Q st \<Longrightarrow> Q (st\<lparr>st_g := (st_g st)\<lparr>g_asdubuf := []\<rparr>\<rparr>)"
    and event_kept: "Q st \<Longrightarrow> Q (on_s (log_call (EvDel USER_EVENT)) st)"
begin

lemma lines_kept: "stdin_lines (env :: lk env) bs st = Inr (left, st') \<Longrightarrow> Q st \<Longrightarrow> Q st'"
proof (induction env bs st rule: stdin_lines.induct)
  case (1 env bs st)
  show ?case
  proof (cases "0x0A \<in> set bs")
    case False
    with "1.prems" show ?thesis by (simp add: stdin_lines.simps [of env bs st])
  next
    case True
    let ?line = "takeWhile (\<lambda>c. c \<noteq> 0x0A) bs"
    obtain st1 where st1: "stdin_line env ?line st = Inr st1"
        "(if bs ! 0 = 0x3E then Inr (None, st1\<lparr>st_g := (st_g st1)\<lparr>g_rbuf := [], g_endmsg := True\<rparr>\<rparr>)
          else stdin_lines env (drop (Suc (length ?line)) bs) (st1\<lparr>st_g := (st_g st1)\<lparr>g_asdubuf := []\<rparr>\<rparr>)) = Inr (left, st')"
      using "1.prems"(1) [unfolded stdin_lines.simps [of env bs st]] True
      by (auto simp: Let_def elim!: res_bindE)
    have inv: "Q st1" using line_kept [OF st1(1) "1.prems"(2)] .
    show ?thesis
    proof (cases "bs ! 0 = 0x3E")
      case True
      with st1(2) endmsg_kept [OF rbuf_kept [OF inv, of "[]"]] show ?thesis by auto
    next
      case False
      with "1.IH" [OF _ refl refl st1(1) False] True st1(2) asdubuf_kept [OF inv] show ?thesis by auto
    qed
  qed
qed

lemma read_kept: "stdin_read (env :: lk env) input st = Inr (input', st') \<Longrightarrow> Q st \<Longrightarrow> Q st'"
proof (induction env input st rule: stdin_read.induct)
  case (1 env input st)
  obtain chunk inp where r: "read_stdin (RBUF_SIZE - length (g_rbuf (st_g st))) input = (chunk, inp)" by fastforce
  show ?case
  proof (cases "chunk = []")
    case True
    with "1.prems" r show ?thesis by (simp add: stdin_read.simps [of env input st])
  next
    case False
    obtain left st1 where st1: "stdin_lines env (g_rbuf (st_g st) @ chunk) st = Inr (left, st1)"
      using "1.prems"(1) [unfolded stdin_read.simps [of env input st]] False r by (auto elim!: res_bindE)
    have inv: "Q st1" using lines_kept [OF st1 "1.prems"(2)] .
    show ?thesis
    proof (cases left)
      case None
      with "1.prems"(1) False r st1 inv show ?thesis by (simp add: stdin_read.simps [of env input st])
    next
      case (Some bs)
      let ?st = "st1\<lparr>st_g := (st_g st1)\<lparr>g_rbuf := (if length bs = RBUF_SIZE then [] else bs)\<rparr>\<rparr>"
      have "(if g_curlistsize (st_g ?st) = limlistsize
          then Inr (inp, on_s (log_call (EvDel USER_EVENT)) ?st) else stdin_read env inp ?st) = Inr (input', st')"
        using "1.prems"(1) [unfolded stdin_read.simps [of env input st]] False r st1 Some by (simp add: Let_def)
      then show ?thesis
        using "1.IH" [OF r [symmetric] refl False st1 refl Some refl refl] rbuf_kept [OF inv] event_kept [OF rbuf_kept [OF inv]]
        by (auto split: if_splits)
    qed
  qed
qed

end

interpretation stdin_inv: stdin_kept "link_inv lk_ok"
proof
  fix st assume "link_inv lk_ok st"
  then show "link_inv lk_ok (st\<lparr>st_g := (st_g st)\<lparr>g_asdubuf := []\<rparr>\<rparr>)" by (simp add: link_inv_def lk_ok_def)
qed (auto simp: link_inv_def on_s_def dest: stdin_line_inv [unfolded link_inv_def])

lemma kick_loop_inv:
  "kick_loop env p st = Inr (p', st') \<Longrightarrow> link_inv lk_ok st \<Longrightarrow> link_inv lk_ok st'"
proof (induction env p st rule: kick_loop.induct)
  case (1 env p st)
  consider (stop) "p = None \<or> iecsock_can_queue (st_s st) = 0"
    | (send) a where "p = Some a" "iecsock_can_queue (st_s st) \<noteq> 0" by fastforce
  then show ?case
  proof cases
    case stop
    with "1.prems" show ?thesis by (auto simp: kick_loop.simps [of env p st] split: option.splits)
  next
    case send
    note eq = "1.prems"(1) [unfolded kick_loop.simps [of env p st]]
    obtain n where n: "map_of (g_nodes (st_g st)) a = Some n" using eq send by (auto split: option.splits)
    obtain s where s: "iec_asdu_send env (a_bytes n) (st_s st) = Inr s"
      using eq send n by (auto elim!: res_bindE)
    let ?st = "st\<lparr>st_s := s, st_g := (st_g st)\<lparr>g_nodes := xfree a (g_nodes (st_g st))\<rparr>\<rparr>"
    have "length (a_bytes n) \<le> IEC104_ASDU_MAX"
      using map_of_SomeD [OF n] "1.prems"(2) by (auto simp: link_inv_def lk_ok_def)
    then have "link_inv lk_ok ?st"
      using "1.prems"(2) asdu_send_wf [OF _ _ s] by (auto simp: link_inv_def lk_ok_def xfree_def)
    moreover have "kick_loop env (a_next n) ?st = Inr (p', st')" using eq send n s by simp
    ultimately show ?thesis using "1.IH" [OF send n s] by simp
  qed
qed

lemma kick_callback_inv: "iec_kick_callback env st = Inr st' \<Longrightarrow> link_inv lk_ok st \<Longrightarrow> link_inv lk_ok st'"
  by (auto simp: iec_kick_callback_def print_def Let_def link_inv_def on_s_def
      elim!: res_bindE split: if_splits dest!: kick_loop_inv)

lemma print_inv [simp]: "link_inv lk_ok (print txt st) = link_inv lk_ok st"
  by (simp add: print_def link_inv_def lk_ok_def)

lemma ieclink_calls:
  "call_hook (transmit_wakeup (e_hooks (ieclink_env env))) (transmit_wakeup (e_default (ieclink_env env)))
     = iec_kick_callback env"
  "call_hook (map_option (\<lambda>f. f b) (data_indication (e_hooks (ieclink_env env))))
     (map_option (\<lambda>f. f b) (data_indication (e_default (ieclink_env env)))) = data_received_hook b"
  "call_hook (activation_indication (e_hooks (ieclink_env env))) (activation_indication (e_default (ieclink_env env)))
     = activation_hook"
  "call_hook (deactivation_indication (e_hooks (ieclink_env env))) (deactivation_indication (e_default (ieclink_env env)))
     = Inr"
  "call_hook (map_option (\<lambda>f. f what) (disconnect_indication (e_hooks (ieclink_env env))))
     (map_option (\<lambda>f. f what) (disconnect_indication (e_default (ieclink_env env)))) = disconnect_hook what"
  "call_hook None (connect_indication (e_default (ieclink_env env))) = connect_hook"
  by (simp_all add: ieclink_env_def default_hooks_def quiet_hooks_def call_hook_def fun_eq_iff)

lemma hooks_inv:
  "data_received_hook b st = Inr st' \<Longrightarrow> link_inv lk_ok st \<Longrightarrow> link_inv lk_ok st'"
  "activation_hook st = Inr st' \<Longrightarrow> link_inv lk_ok st \<Longrightarrow> link_inv lk_ok st'"
  "disconnect_hook what st = Inr st' \<Longrightarrow> link_inv lk_ok st \<Longrightarrow> link_inv lk_ok st'"
  "connect_hook st = Inr st' \<Longrightarrow> link_inv lk_ok st \<Longrightarrow> link_inv lk_ok st'"
proof -
  have upd: "wf_win (s\<lparr>s_user_init := i\<rparr>) = wf_win s" for s i
    by (simp add: wf_win_def outstanding_def unacked_def)
  show "activation_hook st = Inr st' \<Longrightarrow> link_inv lk_ok st \<Longrightarrow> link_inv lk_ok st'"
    by (auto simp: activation_hook_def print_def Let_def on_s_def link_inv_def upd)
qed (auto simp: data_received_hook_def disconnect_hook_def connect_hook_def split: if_splits)

interpretation ieclink: link_program "range ieclink_env" ieclink_app lk_ok
proof (rule link_program.intro)
  fix env assume "env \<in> range ieclink_env"
  then obtain env0 where env: "env = ieclink_env env0" by blast
  show "link_hooks env lk_ok"
    unfolding env by unfold_locales (auto simp: ieclink_calls dest: kick_callback_inv hooks_inv)
next
  fix f st st' assume "f \<in> ieclink_app" "link_inv lk_ok st" "f st = Inr st'"
  then show "link_inv lk_ok st'"
    by (auto simp: ieclink_app_def elim!: res_bindE dest: stdin_inv.read_kept)
qed

end
