(* ===== verification/IecLinkProps.thy ===== *)
theory IecLinkProps
  imports IecLink
begin

text \<open>
  What the client does: hexadecimal lines round-trip, ASDUs go out in the order in which they
  came in, saved ones included, and the windows hold in every reachable state.
\<close>

section \<open>Hexadecimal lines\<close>

definition octets :: "string \<Rightarrow> u8 list" where
  "octets str = map of_char str"

lemma nibbles: "unat (x :: u8) div 16 < 16" "unat x mod 16 < 16"
  using unsigned_less [of x, where ?'a = nat] by (simp_all add: less_mult_imp_div_less)

lemma hex_digit_char: "n < 16 \<Longrightarrow> hex_digit (of_char (hex_char n)) = Some n"
proof -
  have "\<forall>n \<in> set [0..<16]. hex_digit (of_char (hex_char n)) = Some n" by code_simp
  then show "n < 16 \<Longrightarrow> hex_digit (of_char (hex_char n)) = Some n" by simp
qed

lemma parse_fmt:
  "length (acc @ xs) \<le> IEC104_ASDU_MAX \<Longrightarrow>
   parse_pairs acc (octets (concat (map fmt_02X xs)) @ rest) = parse_pairs (acc @ xs) rest"
proof (induction xs arbitrary: acc)
  case (Cons x xs)
  have "of_nat (unat x div 16 * 16 + unat x mod 16) = x" by simp
  with Cons show ?case by (simp add: octets_def fmt_02X_def hex_digit_char nibbles)
qed (simp add: octets_def)

lemma hex_char_not_nl: "n < 16 \<Longrightarrow> of_char (hex_char n) \<noteq> (0x0A :: u8) \<and> of_char (hex_char n) \<noteq> (0x3E :: u8)"
proof -
  have "\<forall>n \<in> set [0..<16]. of_char (hex_char n) \<noteq> (0x0A :: u8) \<and> of_char (hex_char n) \<noteq> (0x3E :: u8)" by code_simp
  then show "n < 16 \<Longrightarrow> of_char (hex_char n) \<noteq> (0x0A :: u8) \<and> of_char (hex_char n) \<noteq> (0x3E :: u8)" by simp
qed

lemma fmt_not_nl: "c \<in> set (octets (concat (map fmt_02X xs))) \<Longrightarrow> c \<noteq> 0x0A \<and> c \<noteq> 0x3E"
  using hex_char_not_nl nibbles by (auto simp: octets_def fmt_02X_def)

section \<open>Sending one ASDU\<close>

text \<open>A connection on which everything queued is sent at once: active, with nothing waiting.\<close>

definition flowing :: "iecsock \<Rightarrow> bool" where
  "flowing s \<longleftrightarrow> wf_win s \<and> s_write_q s = [] \<and> \<not> (s_type s = IEC_SLAVE \<and> s_stopdt s)"

lemma asdu_send_law:
  assumes fl: "flowing s" and room: "outstanding s < uint (s_k s)" and mem: "e_calloc env"
    and len: "length bytes \<le> IEC104_ASDU_MAX"
  shows "\<exists>s'. iec_asdu_send env bytes s = Inr s' \<and> flowing s' \<and> outstanding s' = outstanding s + 1
    \<and> uint (s_vs s') = (uint (s_vs s) + 1) mod 32767 \<and> same_but_sent s s'
    \<and> tx s' = tx s @ [wire (numbered (uint (s_vs s)) (s_vr s) (asdu_buf bytes))]"
proof -
  let ?s = "s\<lparr>s_write_q := [asdu_buf bytes]\<rparr>"
  have b: "iframe_ok (asdu_buf bytes)" using asdu_buf_ok len by (simp add: IEC104_ASDU_MAX_def)
  have s: "wf_win ?s" "outstanding ?s < uint (s_k ?s)" "tx ?s = tx s"
    using fl room b by (auto simp: flowing_def wf_win_def outstanding_def unacked_def tx_def)
  obtain s' where s': "write_one env ?s (asdu_buf bytes) [] = Inr s'" "s_write_q s' = []" "wf_win s'"
      "outstanding s' = outstanding ?s + 1" "uint (s_vs s') = (uint (s_vs ?s) + 1) mod 32767"
      "tx s' = tx ?s @ [wire (numbered (uint (s_vs ?s)) (s_vr ?s) (asdu_buf bytes))]" "same_but_sent ?s s'"
    using write_one_law [OF s(1,2) b, of "[]" env] by auto
  have nf: "\<not> window_full ?s" using s window_full_iff by auto
  have "write_loop env ?s = Inr s'"
    using nf s'(1,2) by (simp add: write_loop.simps [of env ?s] write_loop.simps [of env s'])
  then have "iec_asdu_send env bytes s = Inr s'"
    using fl mem by (auto simp: iec_asdu_send_def asdu_buf_def iecsock_run_write_queue_def flowing_def Let_def)
  moreover have "same_but_sent s s'"
    using s'(7) unfolding same_but_sent_def by (cases s; cases s') simp
  moreover have "flowing s'" using s'(2,3) fl same_but_sent_fields [OF s'(7)] by (simp add: flowing_def)
  ultimately show ?thesis using s' s(3) by (auto simp: outstanding_def)
qed

section \<open>The saved list\<close>

text \<open>The nodes a list runs through from \<open>p\<close>, with their addresses.\<close>

fun chain :: "(addr \<times> asduhead) list \<Rightarrow> addr option \<Rightarrow> (addr \<times> u8 list) list \<Rightarrow> bool" where
  "chain nodes p [] \<longleftrightarrow> p = None"
| "chain nodes p ((a, bytes) # xs) \<longleftrightarrow> p = Some a \<and>
     (case map_of nodes a of None \<Rightarrow> False | Some n \<Rightarrow> a_bytes n = bytes \<and> chain nodes (a_next n) xs)"

lemma map_of_xfree: "map_of (xfree a nodes) = (map_of nodes)(a := None)"
  by (induction nodes) (auto simp: xfree_def fun_eq_iff)

lemma chain_cong: "(\<And>a. a \<in> fst ` set xs \<Longrightarrow> map_of nodes a = map_of nodes' a) \<Longrightarrow> chain nodes p xs = chain nodes' p xs"
  by (induction nodes p xs rule: chain.induct) (auto split: option.splits)

lemma chain_xfree: "a \<notin> fst ` set xs \<Longrightarrow> chain (xfree a nodes) p xs = chain nodes p xs"
  by (rule chain_cong) (auto simp: map_of_xfree)

lemma can_queue_iff: "wf_win s \<Longrightarrow> iecsock_can_queue s \<noteq> 0 \<longleftrightarrow> outstanding s < uint (s_k s)"
  using uint_can_queue [of s] unfolding word_uint_eq_iff by (auto simp: wf_win_def)

lemma kick_loop_law:
  assumes "flowing (st_s st)" and "e_calloc env" and "chain (g_nodes (st_g st)) p xs" and "distinct (map fst xs)"
    and "\<forall>(a, bytes) \<in> set xs. length bytes \<le> IEC104_ASDU_MAX"
    and "n = min (length xs) (nat (uint (s_k (st_s st)) - outstanding (st_s st)))"
  shows "\<exists>st'. kick_loop env p st = Inr (if n < length xs then Some (fst (xs ! n)) else None, st')
    \<and> flowing (st_s st') \<and> outstanding (st_s st') = outstanding (st_s st) + int n \<and> same_but_sent (st_s st) (st_s st')
    \<and> tx (st_s st') = tx (st_s st) @
        map (\<lambda>i. wire (numbered (uint (s_vs (st_s st)) + int i) (s_vr (st_s st)) (asdu_buf (snd (xs ! i))))) [0..<n]
    \<and> chain (g_nodes (st_g st')) (if n < length xs then Some (fst (xs ! n)) else None) (drop n xs)
    \<and> st_g st' = (st_g st)\<lparr>g_nodes := g_nodes (st_g st')\<rparr>
    \<and> map_of (g_nodes (st_g st')) = (\<lambda>a. if a \<in> fst ` set (take n xs) then None else map_of (g_nodes (st_g st)) a)"
  using assms
proof (induction xs arbitrary: st p n)
  case Nil
  then show ?case by (auto simp: kick_loop.simps [of env None st] intro!: exI [of _ st])
next
  case (Cons x xs)
  obtain a bytes where x: "x = (a, bytes)" by fastforce
  obtain nd where nd: "p = Some a" "map_of (g_nodes (st_g st)) a = Some nd" "a_bytes nd = bytes"
      "chain (g_nodes (st_g st)) (a_next nd) xs"
    using Cons.prems(3) x by (auto split: option.splits)
  have wf: "wf_win (st_s st)" using Cons.prems(1) by (simp add: flowing_def)
  show ?case
  proof (cases "outstanding (st_s st) < uint (s_k (st_s st))")
    case False
    then have "n = 0" using Cons.prems(6) by simp
    then show ?thesis
      using False nd Cons.prems x can_queue_iff [OF wf]
      by (auto simp: kick_loop.simps [of env "Some a" st] intro!: exI [of _ st])
  next
    case True
    obtain s where s: "iec_asdu_send env bytes (st_s st) = Inr s" "flowing s" "outstanding s = outstanding (st_s st) + 1"
        "uint (s_vs s) = (uint (s_vs (st_s st)) + 1) mod 32767" "same_but_sent (st_s st) s"
        "tx s = tx (st_s st) @ [wire (numbered (uint (s_vs (st_s st))) (s_vr (st_s st)) (asdu_buf bytes))]"
      using asdu_send_law [OF Cons.prems(1) True Cons.prems(2), of bytes] Cons.prems(5) x by auto
    let ?st = "st\<lparr>st_s := s, st_g := (st_g st)\<lparr>g_nodes := xfree a (g_nodes (st_g st))\<rparr>\<rparr>"
    define m where "m = min (length xs) (nat (uint (s_k (st_s ?st)) - outstanding (st_s ?st)))"
    note fields = same_but_sent_fields [OF s(5)]
    have n: "n = Suc m" using Cons.prems(6) True s(3) fields by (auto simp: m_def min_def)
    have "chain (g_nodes (st_g ?st)) (a_next nd) xs"
      using nd(4) Cons.prems(4) x chain_xfree by (auto simp: image_iff)
    then obtain st' where st': "kick_loop env (a_next nd) ?st = Inr (if m < length xs then Some (fst (xs ! m)) else None, st')"
        "flowing (st_s st')" "outstanding (st_s st') = outstanding s + int m" "same_but_sent s (st_s st')"
        "tx (st_s st') = tx s @ map (\<lambda>i. wire (numbered (uint (s_vs s) + int i) (s_vr s) (asdu_buf (snd (xs ! i))))) [0..<m]"
        "chain (g_nodes (st_g st')) (if m < length xs then Some (fst (xs ! m)) else None) (drop m xs)"
        "st_g st' = (st_g ?st)\<lparr>g_nodes := g_nodes (st_g st')\<rparr>"
        "map_of (g_nodes (st_g st')) = (\<lambda>a. if a \<in> fst ` set (take m xs) then None else map_of (g_nodes (st_g ?st)) a)"
      using Cons.IH [of ?st "a_next nd" m] s(2) Cons.prems(2,4,5) m_def by auto
    have "kick_loop env p st = kick_loop env (a_next nd) ?st"
      using nd True s(1) can_queue_iff [OF wf] by (simp add: kick_loop.simps [of env "Some a" st])
    moreover have "numbered (uint (s_vs s) + int i) v c = numbered (uint (s_vs (st_s st)) + int (Suc i)) v c" for i v c
      using s(4) by (simp add: numbered_def mod_simps algebra_simps)
    moreover have "same_but_sent (st_s st) (st_s st')" using same_but_sent_trans [OF s(5) st'(4)] .
    ultimately show ?thesis
      using st' s(3,6) fields x n by (auto simp: map_upt_Suc map_of_xfree fun_eq_iff simp del: upt_Suc)
  qed
qed

text \<open>A saved list whose tail pointer points at the end of the list.\<close>

definition list_ok :: "lk \<Rightarrow> (addr \<times> u8 list) list \<Rightarrow> bool" where
  "list_ok g xs \<longleftrightarrow> chain (g_nodes g) (g_asdulist g) xs \<and> distinct (map fst xs)
     \<and> g_asdulistlast g = (if xs = [] then ListHead else NextOf (fst (last xs)))
     \<and> (\<forall>a \<in> fst ` set (g_nodes g). a < g_brk g)"

lemma chain_dom: "chain nodes p xs \<Longrightarrow> a \<in> fst ` set xs \<Longrightarrow> a \<in> fst ` set nodes"
  by (induction nodes p xs rule: chain.induct) (auto split: option.splits simp: rev_image_eqI dest!: map_of_SomeD)

lemma chain_snoc:
  assumes "chain nodes p xs" and "xs \<noteq> []" and "distinct (map fst xs)" and "l = fst (last xs)"
    and "map_of nodes l = Some n" and "a \<notin> fst ` set xs"
  shows "chain ((l, n\<lparr>a_next := Some a\<rparr>) # xfree l ((a, \<lparr>a_next = None, a_bytes = bytes\<rparr>) # nodes)) p (xs @ [(a, bytes)])"
  using assms
proof (induction xs arbitrary: p)
  case (Cons x xs)
  obtain b bs where x: "x = (b, bs)" by fastforce
  let ?nodes = "(l, n\<lparr>a_next := Some a\<rparr>) # xfree l ((a, \<lparr>a_next = None, a_bytes = bytes\<rparr>) # nodes)"
  have al: "a \<noteq> l" "a \<noteq> b" using Cons.prems(2,4,6) x by (auto simp: image_iff split: if_splits)
  show ?case
  proof (cases "xs = []")
    case True
    with Cons.prems x al show ?thesis by (auto simp: map_of_xfree split: option.splits)
  next
    case False
    have "l \<in> fst ` set xs" using False Cons.prems(4) by simp
    then have "b \<noteq> l" using Cons.prems(3) x by (auto simp: image_iff)
    moreover obtain m where m: "p = Some b" "map_of nodes b = Some m" "a_bytes m = bs" "chain nodes (a_next m) xs"
      using Cons.prems(1) x by (auto split: option.splits)
    moreover have "chain ?nodes (a_next m) (xs @ [(a, bytes)])"
      using Cons.IH [OF m(4) False] Cons.prems(3-6) False by simp
    ultimately show ?thesis using x al by (simp add: map_of_xfree)
  qed
qed simp

lemma append_law:
  assumes "list_ok g xs"
  shows "\<exists>g'. asdulist_append True bytes g = Inr g' \<and> list_ok g' (xs @ [(g_brk g, bytes)])
    \<and> g_curlistsize g' = g_curlistsize g + 1 \<and> g_asdubuf g' = g_asdubuf g \<and> g_rbuf g' = g_rbuf g
    \<and> g_endmsg g' = g_endmsg g \<and> g_stdout g' = g_stdout g"
proof (cases "xs = []")
  case True
  with assms show ?thesis by (auto simp: asdulist_append_def xmalloc_def Let_def list_ok_def)
next
  case False
  let ?l = "fst (last xs)" and ?a = "g_brk g"
  have ch: "chain (g_nodes g) (g_asdulist g) xs" and last: "g_asdulistlast g = NextOf ?l"
    and new: "?a \<notin> fst ` set xs" and d: "distinct (map fst xs)"
    using assms False chain_dom by (fastforce simp: list_ok_def)+
  have "?l \<in> fst ` set (g_nodes g)" using chain_dom [OF ch] False by simp
  then obtain n where n: "map_of (g_nodes g) ?l = Some n" by (metis map_of_eq_None_iff option.exhaust)
  have "?a \<noteq> ?l" using new False by (metis image_eqI last_in_set)
  moreover have "?l < Suc ?a" using \<open>?l \<in> fst ` set (g_nodes g)\<close> assms by (auto simp: list_ok_def)
  ultimately show ?thesis
    using assms False last n new chain_snoc [OF ch False d refl n new, of bytes]
    by (auto simp: asdulist_append_def xmalloc_def Let_def list_ok_def xfree_def)
qed

section \<open>One line of standard input\<close>

lemma list_ok_frame [simp]:
  "list_ok (g\<lparr>g_asdubuf := b\<rparr>) xs = list_ok g xs" "list_ok (g\<lparr>g_rbuf := r\<rparr>) xs = list_ok g xs"
  by (simp_all add: list_ok_def)

lemma stdin_line_law:
  assumes "flowing (st_s st)" and "e_calloc env" and "list_ok (st_g st) ls" and "g_asdubuf (st_g st) = []"
    and "xs \<noteq> []" and "length xs \<le> IEC104_ASDU_MAX"
  shows "\<exists>st'. stdin_line env (octets (concat (map fmt_02X xs))) st = Inr st' \<and> flowing (st_s st')
    \<and> g_rbuf (st_g st') = g_rbuf (st_g st) \<and>
    (if outstanding (st_s st) < uint (s_k (st_s st))
     then tx (st_s st') = tx (st_s st) @ [wire (numbered (uint (s_vs (st_s st))) (s_vr (st_s st)) (asdu_buf xs))]
       \<and> list_ok (st_g st') ls
     else tx (st_s st') = tx (st_s st) \<and> list_ok (st_g st') (ls @ [(g_brk (st_g st), xs)]))"
proof -
  have wf: "wf_win (st_s st)" using assms(1) by (simp add: flowing_def)
  have p: "parse_pairs [] (octets (concat (map fmt_02X xs))) = (xs, [])"
    using parse_fmt [of "[]" xs "[]"] assms(6) by simp
  show ?thesis
  proof (cases "outstanding (st_s st) < uint (s_k (st_s st))")
    case True
    then show ?thesis
      using asdu_send_law [OF assms(1) True assms(2,6)] p assms can_queue_iff [OF wf]
      by (auto simp: stdin_line_def Let_def)
  next
    case False
    then show ?thesis
      using append_law [of "(st_g st)\<lparr>g_asdubuf := xs\<rparr>" ls xs] p assms can_queue_iff [OF wf]
      by (auto simp: stdin_line_def Let_def)
  qed
qed

lemma stdin_lines_one:
  assumes "0x0A \<notin> set line" and "line \<noteq> []" and "hd line \<noteq> 0x3E" and "stdin_line env line st = Inr st'"
  shows "stdin_lines env (line @ [0x0A]) st = Inr (Some [], st'\<lparr>st_g := (st_g st')\<lparr>g_asdubuf := []\<rparr>\<rparr>)"
proof -
  have "takeWhile (\<lambda>c. c \<noteq> 0x0A) (line @ [0x0A]) = line" using assms(1) by (subst takeWhile_append2) auto
  moreover have "(line @ [0x0A]) ! 0 \<noteq> 0x3E" using assms(2,3) by (simp add: nth_append hd_conv_nth)
  ultimately show ?thesis
    using assms(4) by (simp add: stdin_lines.simps [of env "line @ [0x0A]"] stdin_lines.simps [of env "[]"] Let_def)
qed

lemma fmt_line:
  assumes "xs \<noteq> []"
  shows "0x0A \<notin> set (octets (concat (map fmt_02X xs)))" "octets (concat (map fmt_02X xs)) \<noteq> []"
    "hd (octets (concat (map fmt_02X xs))) \<noteq> 0x3E" "length (octets (concat (map fmt_02X xs))) = 2 * length xs"
proof -
  show ne: "octets (concat (map fmt_02X xs)) \<noteq> []" using assms by (cases xs) (simp_all add: octets_def fmt_02X_def)
  show "0x0A \<notin> set (octets (concat (map fmt_02X xs)))" "hd (octets (concat (map fmt_02X xs))) \<noteq> 0x3E"
    using fmt_not_nl hd_in_set [OF ne] by blast+
  show "length (octets (concat (map fmt_02X xs))) = 2 * length xs"
    by (induction xs) (simp_all add: octets_def fmt_02X_def)
qed

section \<open>Properties\<close>

text \<open>
  C6. Whatever the peer sends and in whatever order its callbacks and timers run, a connection
  of the client never has more than \<open>k\<close> frames in flight, never owes the peer \<open>w\<close>
  acknowledgements, and every frame it has queued fits an APDU; the same holds of every
  connection it opens again.
\<close>

theorem ieclink_windows:
  assumes "(link_step (range ieclink_env) ieclink_app)\<^sup>*\<^sup>* st st'" and "link_inv lk_ok st"
    and "s \<in> set (st_s st' # st_new st')"
  shows "0 \<le> outstanding s \<and> outstanding s \<le> uint (s_k s) \<and> unacked s < uint (s_w s)
    \<and> (\<forall>b \<in> set (s_write_q s). iec_wire b = Inr (wire b) \<and> length (wire b) \<le> 255)"
proof -
  have "link_inv lk_ok st'" using ieclink.reach_inv assms(1,2) by blast
  then have "wf_win s" using assms(3) by (auto simp: link_inv_def)
  then show ?thesis by (auto simp: wf_win_def iec_wire_ok wire_def iframe_ok_def)
qed

lemma link_inv_start: "link_inv lk_ok \<lparr>st_s = fresh [], st_new = [], st_g = lk_init\<rparr>"
  using fresh_wf [of "[]"] by (simp add: link_inv_def lk_ok_def lk_init_def IEC104_ASDU_MAX_def)

theorem ieclink_windows_witness:
  "\<exists>st'. (link_step (range ieclink_env) ieclink_app)\<^sup>*\<^sup>* \<lparr>st_s = fresh [], st_new = [], st_g = lk_init\<rparr> st'
    \<and> s_testfr (st_s st') \<and> outstanding (st_s st') \<le> uint (s_k (st_s st'))"
proof -
  let ?st = "\<lparr>st_s = fresh [], st_new = [], st_g = lk_init\<rparr>"
  have step: "(link_step (range ieclink_env) ieclink_app)\<^sup>*\<^sup>* ?st (on_s t3_timer_run ?st)"
    by (intro r_into_rtranclp link_step.step_t3)
  have "s_testfr (st_s (on_s t3_timer_run ?st))" by (simp add: on_s_def t3_timer_run_def sess_defs Let_def)
  with step ieclink_windows [OF step link_inv_start, of "st_s (on_s t3_timer_run ?st)"] show ?thesis by auto
qed

text \<open>
  What the client prints for a received ASDU is a line that the same client reads back as
  exactly that ASDU, whatever its octets are, up to the maximal size of 249.
\<close>

theorem hex_line_roundtrip:
  assumes "length xs \<le> IEC104_ASDU_MAX" and "b_data b = xs" and "unat (b_data_len b) = length xs"
  shows "\<exists>line. data_received_hook b st = Inr (print (line @ NL) st)
    \<and> parse_pairs [] (octets line) = (xs, []) \<and> 0x0A \<notin> set (octets line) \<and> 0x3E \<notin> set (octets line)"
  using assms parse_fmt [of "[]" xs "[]"] fmt_not_nl [of _ xs]
  by (intro exI [of _ "concat (map fmt_02X xs)"]) (auto simp: data_received_hook_def)

theorem hex_line_roundtrip_witness:
  "\<exists>line. data_received_hook \<lparr>b_data_len = 2, b_h = hdr_zero, b_data = [0x0A, 0xFE]\<rparr>
      \<lparr>st_s = fresh [], st_new = [], st_g = lk_init\<rparr> = Inr (print (line @ NL) \<lparr>st_s = fresh [], st_new = [], st_g = lk_init\<rparr>)
    \<and> parse_pairs [] (octets line) = ([0x0A, 0xFE], [])"
  using hex_line_roundtrip [of "[0x0A, 0xFE]" "\<lparr>b_data_len = 2, b_h = hdr_zero, b_data = [0x0A, 0xFE]\<rparr>"
      "\<lparr>st_s = fresh [], st_new = [], st_g = lk_init\<rparr>"]
  by (auto simp: IEC104_ASDU_MAX_def)

text \<open>
  C26. A line of hexadecimal digits on the standard input of an active client: while the window
  has room its ASDU is sent at once as one I frame, whatever is still waiting in the saved list;
  once the window is full it is appended to the saved list and nothing is sent.
\<close>

theorem stdin_line_sent_or_saved:
  assumes "flowing (st_s st)" and "e_calloc env" and "list_ok (st_g st) ls"
    and "g_asdubuf (st_g st) = []" and "g_rbuf (st_g st) = []"
    and "xs \<noteq> []" and "length xs \<le> IEC104_ASDU_MAX"
  shows "\<exists>st'. stdin_read env [octets (concat (map fmt_02X xs)) @ [0x0A]] st = Inr ([], st')
    \<and> g_rbuf (st_g st') = [] \<and> g_asdubuf (st_g st') = [] \<and>
    (if outstanding (st_s st) < uint (s_k (st_s st))
     then tx (st_s st') = tx (st_s st) @ [wire (numbered (uint (s_vs (st_s st))) (s_vr (st_s st)) (asdu_buf xs))]
       \<and> list_ok (st_g st') ls
     else tx (st_s st') = tx (st_s st) \<and> list_ok (st_g st') (ls @ [(g_brk (st_g st), xs)]))"
proof -
  let ?line = "octets (concat (map fmt_02X xs))"
  note line = fmt_line [OF assms(6)]
  obtain st1 where st1: "stdin_line env ?line st = Inr st1"
    "if outstanding (st_s st) < uint (s_k (st_s st))
     then tx (st_s st1) = tx (st_s st) @ [wire (numbered (uint (s_vs (st_s st))) (s_vr (st_s st)) (asdu_buf xs))]
       \<and> list_ok (st_g st1) ls
     else tx (st_s st1) = tx (st_s st) \<and> list_ok (st_g st1) (ls @ [(g_brk (st_g st), xs)])"
    using stdin_line_law [OF assms(1-4,6,7)] by blast
  let ?st = "st1\<lparr>st_g := (st_g st1)\<lparr>g_asdubuf := [], g_rbuf := []\<rparr>\<rparr>"
  have "length (?line @ [0x0A]) \<le> RBUF_SIZE"
    using assms(7) line(4) by (simp add: RBUF_SIZE_def IEC104_ASDU_MAX_def)
  then have "stdin_read env [?line @ [0x0A]] st =
      (if g_curlistsize (st_g ?st) = limlistsize then Inr ([], on_s (log_call (EvDel USER_EVENT)) ?st)
       else stdin_read env [] ?st)"
    using stdin_lines_one [OF line(1-3) st1(1)] assms(5)
    by (subst stdin_read.simps) (simp add: Let_def RBUF_SIZE_def)
  moreover have "stdin_read env [] ?st = Inr ([], ?st)" by (simp add: stdin_read.simps)
  moreover have "tx (log_call (EvDel USER_EVENT) (st_s st1)) = tx (st_s st1)" by (simp add: tx_def log_call_def)
  ultimately show ?thesis using st1(2) by (auto simp: on_s_def)
qed

theorem stdin_line_sent_or_saved_witness:
  "\<exists>st'. stdin_read (plain_env quiet_hooks :: unit env) [octets (concat (map fmt_02X [1, 0xAB])) @ [0x0A]]
     \<lparr>st_s = fresh [], st_new = [], st_g = lk_init\<rparr> = Inr ([], st')
     \<and> tx (st_s st') = [wire (numbered 0 0 (asdu_buf [1, 0xAB]))]"
proof -
  let ?st = "\<lparr>st_s = fresh [], st_new = [], st_g = lk_init\<rparr>"
  have "flowing (st_s ?st)" "e_calloc (plain_env quiet_hooks :: unit env)" "list_ok (st_g ?st) []"
      "g_asdubuf (st_g ?st) = []" "g_rbuf (st_g ?st) = []" "[1, 0xAB :: u8] \<noteq> []" "length [1, 0xAB :: u8] \<le> IEC104_ASDU_MAX"
    using fresh_wf [of "[]"]
    by (simp_all add: flowing_def plain_env_def list_ok_def lk_init_def IEC104_ASDU_MAX_def)
  from stdin_line_sent_or_saved [OF this] show ?thesis by (auto simp: fresh_window)
qed

text \<open>
  C25. When everything sent has been acknowledged, the client sends as many saved ASDUs as the
  window takes, in the order in which they were saved, keeps the rest in order, and reports the
  end of a message on its standard output exactly when the whole message has been sent.
\<close>

theorem kick_sends_saved_in_order:
  assumes "flowing (st_s st)" and "e_calloc env" and "chain (g_nodes (st_g st)) (g_asdulist (st_g st)) xs"
    and "distinct (map fst xs)" and "\<forall>(a, bytes) \<in> set xs. length bytes \<le> IEC104_ASDU_MAX"
    and "n = min (length xs) (nat (uint (s_k (st_s st)) - outstanding (st_s st)))"
  shows "\<exists>st'. iec_kick_callback env st = Inr st'
    \<and> tx (st_s st') = tx (st_s st) @
        map (\<lambda>i. wire (numbered (uint (s_vs (st_s st)) + int i) (s_vr (st_s st)) (asdu_buf (snd (xs ! i))))) [0..<n]
    \<and> chain (g_nodes (st_g st')) (g_asdulist (st_g st')) (drop n xs)
    \<and> g_stdout (st_g st') = g_stdout (st_g st) @ (if n = length xs \<and> g_endmsg (st_g st) then ''<'' @ NL else [])"
proof -
  obtain st1 where st1: "kick_loop env (g_asdulist (st_g st)) st = Inr (if n < length xs then Some (fst (xs ! n)) else None, st1)"
      "tx (st_s st1) = tx (st_s st) @
        map (\<lambda>i. wire (numbered (uint (s_vs (st_s st)) + int i) (s_vr (st_s st)) (asdu_buf (snd (xs ! i))))) [0..<n]"
      "chain (g_nodes (st_g st1)) (if n < length xs then Some (fst (xs ! n)) else None) (drop n xs)"
      "st_g st1 = (st_g st)\<lparr>g_nodes := g_nodes (st_g st1)\<rparr>"
    using kick_loop_law [OF assms] by blast
  have g: "g_endmsg (st_g st1) = g_endmsg (st_g st)" "g_stdout (st_g st1) = g_stdout (st_g st)"
    by (subst st1(4), simp)+
  have "n \<le> length xs" using assms(6) by simp
  then show ?thesis
    using st1(1-3) g
    by (auto simp: iec_kick_callback_def Let_def on_s_def print_def tx_def log_call_def)
qed

text \<open>The client's variables with two saved ASDUs and a finished message.\<close>

definition lk_saved :: lk where
  "lk_saved = lk_init\<lparr>g_nodes := [(0, \<lparr>a_next = Some 1, a_bytes = [5]\<rparr>), (1, \<lparr>a_next = None, a_bytes = [6]\<rparr>)],
     g_brk := 2, g_asdulist := Some 0, g_asdulistlast := NextOf 1, g_curlistsize := 2, g_endmsg := True\<rparr>"

lemma lk_saved_facts:
  "flowing (fresh [])" "e_calloc (plain_env quiet_hooks)" "list_ok lk_saved [(0, [5]), (1, [6])]"
  "\<forall>(a, bytes) \<in> set [(0 :: addr, [5 :: u8]), (1, [6])]. length bytes \<le> IEC104_ASDU_MAX" "g_endmsg lk_saved"
  "2 = min (length [(0 :: addr, [5 :: u8]), (1, [6])]) (nat (uint (s_k (fresh [])) - outstanding (fresh [])))"
  using fresh_wf [of "[]"]
  by (simp_all add: flowing_def plain_env_def list_ok_def lk_saved_def lk_init_def IEC104_ASDU_MAX_def fresh_window)

theorem kick_sends_saved_in_order_witness:
  "\<exists>st'. iec_kick_callback (plain_env quiet_hooks :: unit env) \<lparr>st_s = fresh [], st_new = [], st_g = lk_saved\<rparr> = Inr st'
    \<and> tx (st_s st') = [wire (numbered 0 0 (asdu_buf [5])), wire (numbered 1 0 (asdu_buf [6]))]
    \<and> g_stdout (st_g st') = ''<'' @ NL"
proof -
  let ?st = "\<lparr>st_s = fresh [], st_new = [], st_g = lk_saved\<rparr>" and ?xs = "[(0 :: addr, [5 :: u8]), (1, [6])]"
  have "flowing (st_s ?st)" "e_calloc (plain_env quiet_hooks :: unit env)"
      "chain (g_nodes (st_g ?st)) (g_asdulist (st_g ?st)) ?xs" "distinct (map fst ?xs)"
      "\<forall>(a, bytes) \<in> set ?xs. length bytes \<le> IEC104_ASDU_MAX"
      "2 = min (length ?xs) (nat (uint (s_k (st_s ?st)) - outstanding (st_s ?st)))"
    using lk_saved_facts by (simp_all add: list_ok_def)
  from kick_sends_saved_in_order [OF this] show ?thesis
    by (auto simp: fresh_window lk_saved_def lk_init_def upt_rec)
qed

text \<open>
  C32. A message whose last ASDUs had to be saved leaves the client with a tail pointer into freed
  memory: after they have all been sent at the end of the message, saving the next ASDU writes
  through that pointer.
\<close>

theorem end_of_message_leaves_dangling_tail:
  assumes "flowing (st_s st)" and "e_calloc env" and "list_ok (st_g st) xs" and "xs \<noteq> []"
    and "\<forall>(a, bytes) \<in> set xs. length bytes \<le> IEC104_ASDU_MAX" and "g_endmsg (st_g st)"
    and "int (length xs) \<le> uint (s_k (st_s st)) - outstanding (st_s st)"
  shows "\<exists>st'. iec_kick_callback env st = Inr st' \<and> g_asdulist (st_g st') = None
    \<and> asdulist_append True bytes (st_g st') = Inl UseAfterFree"
proof -
  let ?n = "min (length xs) (nat (uint (s_k (st_s st)) - outstanding (st_s st)))"
  have n: "?n = length xs" using assms(7) by simp
  have ch: "chain (g_nodes (st_g st)) (g_asdulist (st_g st)) xs" "distinct (map fst xs)"
    and last: "g_asdulistlast (st_g st) = NextOf (fst (last xs))"
    using assms(3,4) by (simp_all add: list_ok_def)
  obtain st1 where st1: "kick_loop env (g_asdulist (st_g st)) st = Inr (None, st1)"
      "st_g st1 = (st_g st)\<lparr>g_nodes := g_nodes (st_g st1)\<rparr>"
      "map_of (g_nodes (st_g st1)) = (\<lambda>a. if a \<in> fst ` set xs then None else map_of (g_nodes (st_g st)) a)"
    using kick_loop_law [OF assms(1,2) ch assms(5) refl] n by auto
  have g: "g_endmsg (st_g st1) = True" "g_brk (st_g st1) = g_brk (st_g st)"
      "g_asdulistlast (st_g st1) = NextOf (fst (last xs))"
    by (subst st1(2), simp add: assms(6) last)+
  have lx: "fst (last xs) \<in> fst ` set xs" using assms(4) by simp
  then have gone: "map_of (g_nodes (st_g st1)) (fst (last xs)) = None" using st1(3) by simp
  have "fst (last xs) < g_brk (st_g st)" using chain_dom [OF ch(1) lx] assms(3) by (auto simp: list_ok_def)
  then show ?thesis
    using st1(1) g gone
    by (auto simp: iec_kick_callback_def Let_def on_s_def print_def asdulist_append_def xmalloc_def)
qed

theorem end_of_message_leaves_dangling_tail_witness:
  "\<exists>st'. iec_kick_callback (plain_env quiet_hooks :: unit env) \<lparr>st_s = fresh [], st_new = [], st_g = lk_saved\<rparr> = Inr st'
    \<and> asdulist_append True [7] (st_g st') = Inl UseAfterFree"
proof -
  let ?st = "\<lparr>st_s = fresh [], st_new = [], st_g = lk_saved\<rparr>" and ?xs = "[(0 :: addr, [5 :: u8]), (1, [6])]"
  have "flowing (st_s ?st)" "e_calloc (plain_env quiet_hooks :: unit env)" "list_ok (st_g ?st) ?xs" "?xs \<noteq> []"
      "\<forall>(a, bytes) \<in> set ?xs. length bytes \<le> IEC104_ASDU_MAX" "g_endmsg (st_g ?st)"
      "int (length ?xs) \<le> uint (s_k (st_s ?st)) - outstanding (st_s ?st)"
    using lk_saved_facts by (simp_all add: fresh_window)
  from end_of_message_leaves_dangling_tail [OF this] show ?thesis by blast
qed

end
