(* ===== verification/IecServer.thy ===== *)
theory IecServer
  imports IecTransfer
begin

text \<open>
  The test server of \<open>src/ieclink/server.c\<close>: it listens, starts data transfer on every
  connection it accepts and queues a fixed ASDU each time its user timer runs.  It keeps no
  variables of its own; what its hooks print on \<open>stderr\<close> is left out.
\<close>

section \<open>Hooks\<close>

definition timer_send_frame :: "'e env \<Rightarrow> unit hook" where
  "timer_send_frame env st =
     (if \<not> e_calloc env then Inr st
      else
        let b = \<lparr>b_data_len = 3, b_h = hdr_zero, b_data = [0x61, 0x63, 0x74]\<rparr>;
            b = iecsock_prepare_iframe b;
            s = st_s st;
            s = s\<lparr>s_write_q := s_write_q s @ [b]\<rparr>
        in res_bind (iecsock_run_write_queue env s) (\<lambda>s. Inr (st\<lparr>st_s := s\<rparr>)))"

definition server_disconnect_hook :: "int \<Rightarrow> unit hook" where
  "server_disconnect_hook reason st = Inr st"

definition server_data_received_hook :: "iec_buf \<Rightarrow> unit hook" where
  "server_data_received_hook b st = Inr st"

definition server_activation_hook :: "unit hook" where
  "server_activation_hook st =
     (let st = on_s (iecsock_user_timer_set True) st
      in Inr (on_s (iecsock_user_timer_start 1) st))"

definition server_connect_hook :: "unit hook" where
  "server_connect_hook st = Inr st"

definition server_default_hooks :: "unit iechooks" where
  "server_default_hooks = quiet_hooks\<lparr>disconnect_indication := Some server_disconnect_hook,
     connect_indication := Some server_connect_hook, data_indication := Some server_data_received_hook,
     activation_indication := Some server_activation_hook\<rparr>"

definition server_env :: "unit env \<Rightarrow> unit env" where
  "server_env env = env\<lparr>e_hooks := quiet_hooks, e_default := server_default_hooks\<rparr>"

definition server_main :: "bind_env \<Rightarrow> int \<times> sockaddr_in option \<times> ev_call list" where
  "server_main be = iecsock_listen be None 10"

section \<open>The server keeps the windows of its connections\<close>

definition server_app :: "unit hook set" where
  "server_app = {f. \<exists>env. f = timer_send_frame (server_env env)}"

lemma server_calls:
  "call_hook (transmit_wakeup (e_hooks (server_env env))) (transmit_wakeup (e_default (server_env env))) = Inr"
  "call_hook (map_option (\<lambda>f. f b) (data_indication (e_hooks (server_env env))))
     (map_option (\<lambda>f. f b) (data_indication (e_default (server_env env)))) = Inr"
  "call_hook (activation_indication (e_hooks (server_env env))) (activation_indication (e_default (server_env env)))
     = server_activation_hook"
  "call_hook (deactivation_indication (e_hooks (server_env env))) (deactivation_indication (e_default (server_env env)))
     = Inr"
  "call_hook (map_option (\<lambda>f. f what) (disconnect_indication (e_hooks (server_env env))))
     (map_option (\<lambda>f. f what) (disconnect_indication (e_default (server_env env)))) = Inr"
  "call_hook None (connect_indication (e_default (server_env env))) = Inr"
  by (simp_all add: server_env_def server_default_hooks_def quiet_hooks_def call_hook_def fun_eq_iff
      server_data_received_hook_def server_disconnect_hook_def server_connect_hook_def)

lemma wf_win_user:
  "wf_win (s\<lparr>s_usercb := a, s_user_init := b\<rparr>) = wf_win s"
  by (simp add: wf_win_def outstanding_def unacked_def)

lemma server_activation_inv:
  "server_activation_hook st = Inr st' \<Longrightarrow> link_inv ginv st \<Longrightarrow> link_inv ginv st'"
  by (auto simp: server_activation_hook_def iecsock_user_timer_set_def iecsock_user_timer_start_def Let_def
      on_s_def link_inv_def wf_win_user)

lemma asdu_queue_wf:
  assumes "wf_win s" and "iframe_ok b"
  shows "wf_win (s\<lparr>s_write_q := s_write_q s @ [b]\<rparr>)"
  using assms by (auto simp: wf_win_def outstanding_def unacked_def)

lemma timer_send_frame_inv:
  assumes "timer_send_frame env st = Inr st'" and "link_inv ginv st"
  shows "link_inv ginv st'"
proof (cases "e_calloc env")
  case True
  let ?b = "asdu_buf [0x61, 0x63, 0x74]"
  have "wf_win ((st_s st)\<lparr>s_write_q := s_write_q (st_s st) @ [?b]\<rparr>)"
    using asdu_queue_wf asdu_buf_ok [of "[0x61, 0x63, 0x74]"] assms(2) by (simp add: link_inv_def)
  with True assms show ?thesis
    by (auto simp: timer_send_frame_def Let_def asdu_buf_def link_inv_def elim!: res_bindE)
      (use run_write_queue_wf in blast)
qed (use assms in \<open>simp add: timer_send_frame_def\<close>)

interpretation server: link_program "range server_env" server_app "\<lambda>_. True"
proof (rule link_program.intro)
  fix env assume "env \<in> range server_env"
  then obtain env0 where env: "env = server_env env0" by blast
  show "link_hooks env (\<lambda>_. True)"
    unfolding env by unfold_locales (auto simp: server_calls dest: server_activation_inv)
next
  fix f st st' assume "f \<in> server_app" "link_inv (\<lambda>_. True) st" "f st = Inr st'"
  then show "link_inv (\<lambda>_. True) st'" by (auto simp: server_app_def dest: timer_send_frame_inv)
qed

section \<open>Properties\<close>

text \<open>
  C33. Every connection the server accepts starts inside its windows and stays there, whatever the
  peer sends, whatever order the callbacks and timers run in and however often the server queues
  its own ASDUs.
\<close>

theorem server_windows:
  assumes "listen_readcb (server_env env) le () = Inr (calls, Some st, g)"
    and "(link_step (range server_env) server_app)\<^sup>*\<^sup>* st st'" and "s \<in> set (st_s st' # st_new st')"
  shows "0 \<le> outstanding s \<and> outstanding s \<le> uint (s_k s) \<and> unacked s < uint (s_w s)"
proof -
  have "link_inv (\<lambda>_. True) st"
    using assms(1)
    by (auto simp: listen_readcb_def server_calls Let_def link_inv_def iecsock_set_defaults_def iecsock_zero_def
        log_call_def t1_timer_start_def iecsock_uframe_send_def wf_win_def outstanding_def unacked_def
        DEFAULT_K_def DEFAULT_W_def split: if_splits)
  then have "link_inv (\<lambda>_. True) st'" using server.reach_inv assms(2) by blast
  then show ?thesis using assms(3) by (auto simp: link_inv_def wf_win_def)
qed

theorem server_windows_witness:
  "\<exists>calls st g. listen_readcb (server_env (plain_env quiet_hooks))
       \<lparr>le_calloc = True, le_accept = 7, le_addr = \<lparr>sin_family = 2, sin_port = 0, sin_addr = 0\<rparr>, le_setsockopt = 0, le_bev = True\<rparr> ()
       = Inr (calls, Some st, g)
     \<and> (link_step (range server_env) server_app)\<^sup>*\<^sup>* st (on_s t2_timer_run st)
     \<and> outstanding (st_s (on_s t2_timer_run st)) \<le> uint (s_k (st_s (on_s t2_timer_run st)))"
proof -
  let ?env = "plain_env quiet_hooks"
  let ?le = "\<lparr>le_calloc = True, le_accept = 7, le_addr = \<lparr>sin_family = 2, sin_port = 0, sin_addr = 0\<rparr>,
      le_setsockopt = 0, le_bev = True\<rparr>"
  obtain calls st g where l: "listen_readcb (server_env ?env) ?le () = Inr (calls, Some st, g)"
    by (simp add: listen_readcb_def server_calls Let_def)
  have step: "(link_step (range server_env) server_app)\<^sup>*\<^sup>* st (on_s t2_timer_run st)"
    by (intro r_into_rtranclp link_step.step_t2)
  from server_windows [OF l step, of "st_s (on_s t2_timer_run st)"] l step show ?thesis by auto
qed

end
