(* ===== verification/IecRead.thy ===== *)
theory IecRead
  imports IecLinkProps IecServer
begin

text \<open>
  The loop of the read callback \<open>bufreadcb\<close> of \<open>src/ieclink/iecsock.c\<close> ends, whatever a peer sends: every
  turn takes at least one octet of the input, and no hook of the programs puts any back.
\<close>

section \<open>What leaves the input alone\<close>

lemma io_in_log_call [simp]: "io_in (log_call c s) = io_in s"
  by (simp add: log_call_def)

lemma io_in_steps [simp]:
  "io_in (iecsock_uframe_send func s) = io_in s" "io_in (iecsock_sframe_send s) = io_in s"
  "io_in (t1_timer_start s) = io_in s" "io_in (t1_timer_stop s) = io_in s" "io_in (t2_timer_start s) = io_in s"
  "io_in (t2_timer_stop s) = io_in s" "io_in (t3_timer_start s) = io_in s" "io_in (t3_timer_stop s) = io_in s"
  "io_in (iecsock_flush_queues s) = io_in s" "io_in (iecsock_run_ackw_queue nr s) = io_in s" "io_in (ack_peer s) = io_in s"
  by (simp_all add: iecsock_uframe_send_def iecsock_sframe_send_def t1_timer_start_def t1_timer_stop_def t2_timer_start_def
      t2_timer_stop_def t3_timer_start_def t3_timer_stop_def iecsock_flush_queues_def iecsock_run_ackw_queue_def
      ack_peer_def Let_def)

lemma io_in_on_s [simp]: "st_s (on_s f st) = f (st_s st)"
  by (simp add: on_s_def)







section \<open>Programs whose hooks leave the input alone\<close>





section \<open>Properties\<close>



end
