(* ===== verification/IecSession.thy ===== *)
theory IecSession
  imports IecRead
begin

text \<open>
  One end of a running connection, seen with unbounded counters: the frames it has written since a
  given moment, what they carry, and how far it has received and been acknowledged.  The numbers on the
  wire and in \<open>struct iecsock\<close> are these counters modulo 32767.
\<close>

section \<open>The frames of one end\<close>

text \<open>
  A frame with its acknowledgement as an unbounded number; an I frame's own number is the count of the
  I frames before it.
\<close>

datatype gframe = GI iec_buf nat | GS nat | GU uframe_func

definition num :: "nat \<Rightarrow> u16" where
  "num a = word_of_int (int a mod 32767)"

fun octets_of :: "nat \<Rightarrow> gframe \<Rightarrow> u8 list" where
  "octets_of i (GI b a) = wire (numbered (int i) (num a) b)"
| "octets_of i (GS a) = hdr_bytes (sframe_hdr (num a))"
| "octets_of i (GU f) = hdr_bytes (uframe_hdr f)"

fun infos :: "gframe list \<Rightarrow> iec_buf list" where
  "infos [] = []"
| "infos (GI b a # fs) = b # infos fs"
| "infos (_ # fs) = infos fs"

fun acks :: "gframe list \<Rightarrow> nat list" where
  "acks [] = []"
| "acks (GI b a # fs) = a # acks fs"
| "acks (GS a # fs) = a # acks fs"
| "acks (GU f # fs) = acks fs"

fun encode :: "nat \<Rightarrow> gframe list \<Rightarrow> u8 list list" where
  "encode i [] = []"
| "encode i (g # fs) = octets_of i g # encode (i + length (infos [g])) fs"

definition tests :: "uframe_func \<Rightarrow> gframe list \<Rightarrow> nat" where
  "tests f fs = length (filter (\<lambda>g. g = GU f) fs)"

lemma uint_num: "uint (num a) = int a mod 32767"
proof -
  have "int a mod 32767 < 32767" by simp
  then show ?thesis by (simp add: num_def uint_word_of_int mod_pos_pos_trivial order_less_trans)
qed

lemma num_eqI: "uint v = int a mod 32767 \<Longrightarrow> v = num a"
  by (simp add: word_uint_eq_iff uint_num)

lemma infos_append [simp]: "infos (fs @ gs) = infos fs @ infos gs"
  by (induction fs rule: infos.induct) auto

lemma acks_append [simp]: "acks (fs @ gs) = acks fs @ acks gs"
  by (induction fs rule: acks.induct) auto

lemma tests_append [simp]: "tests f (fs @ gs) = tests f fs + tests f gs" "tests f [] = 0"
  "tests f (g # gs) = (if g = GU f then 1 else 0) + tests f gs"
  by (simp_all add: tests_def)

lemma length_encode [simp]: "length (encode i fs) = length fs"
  by (induction fs arbitrary: i) auto

lemma infos_Cons: "infos (g # fs) = infos [g] @ infos fs"
  using infos_append [of "[g]" fs] by simp

lemma encode_append: "encode i (fs @ gs) = encode i fs @ encode (i + length (infos fs)) gs"
proof (induction fs arbitrary: i)
  case (Cons g fs)
  then show ?case using infos_Cons [of g fs] by (simp add: add.assoc)
qed simp

lemma encode_nth: "n < length fs \<Longrightarrow> encode i fs ! n = octets_of (i + length (infos (take n fs))) (fs ! n)"
proof (induction fs arbitrary: i n)
  case (Cons g fs)
  show ?case
  proof (cases n)
    case (Suc m)
    then show ?thesis using Cons infos_Cons [of g "take m fs"] by (simp add: add.assoc)
  qed simp
qed simp

lemma infos_take: "n < length fs \<Longrightarrow> infos (take (Suc n) fs) = infos (take n fs) @ infos [fs ! n]"
  by (simp add: take_Suc_conv_app_nth)

lemma set_infos_drop: "b \<in> set (infos (drop n fs)) \<Longrightarrow> b \<in> set (infos fs)"
  using infos_append [of "take n fs" "drop n fs"] by simp

lemma set_acks_drop: "a \<in> set (acks (drop n fs)) \<Longrightarrow> a \<in> set (acks fs)"
  using acks_append [of "take n fs" "drop n fs"] by simp

section \<open>A running end\<close>

text \<open>
  The end has written \<open>base\<close> and then the frames \<open>fs\<close>, the first I frame of them with number \<open>i\<close>; the peer has
  acknowledged all numbers below \<open>va\<close>, and the next number expected from it is \<open>vr\<close>.
\<close>

definition session :: "u8 list list \<Rightarrow> nat \<Rightarrow> gframe list \<Rightarrow> nat \<Rightarrow> nat \<Rightarrow> iecsock \<Rightarrow> bool" where
  "session base i fs va vr s \<longleftrightarrow> listening s \<and> io_in s = [] \<and> tx s = base @ encode i fs
     \<and> uint (s_vs s) = int (i + length (infos fs)) mod 32767 \<and> uint (s_va s) = int va mod 32767
     \<and> uint (s_vr s) = int vr mod 32767 \<and> va \<le> i + length (infos fs)
     \<and> int (i + length (infos fs)) - int va \<le> uint (s_k s)
     \<and> (\<forall>b \<in> set (infos fs). iframe_ok b) \<and> sorted (acks fs) \<and> (\<forall>a \<in> set (acks fs). a \<le> vr)"

lemma sessionD:
  assumes "session base i fs va vr s"
  shows "wf_win s" and "rx_ready s" and "\<not> (s_type s = IEC_SLAVE \<and> s_stopdt s)" and "io_in s = []"
    and "s_vr s = num vr" and "s_va s = num va" and "s_vs s = num (i + length (infos fs))"
    and "\<not> s_freed s" and "length (s_buf s) = IEC104_BUF_LEN"
  using assms by (auto simp: session_def listening_def rx_ready_def intro: num_eqI)

lemma outstanding_session:
  assumes "session base i fs va vr s"
  shows "outstanding s = int (i + length (infos fs)) - int va"
proof -
  have "uint (s_k s) < 32767" using sessionD(1) [OF assms] by (simp add: wf_win_def)
  moreover have "outstanding s = (int (i + length (infos fs)) - int va) mod 32767"
    using assms by (simp add: outstanding_def session_def mod_simps)
  ultimately show ?thesis using assms by (simp add: session_def mod_pos_pos_trivial)
qed

lemma tx_log [simp]: "tx (log_call c s) = tx s @ tx_of c"
  by (simp add: tx_def log_call_def)

lemma tx_frame [simp]:
  "tx (s\<lparr>s_vs := x1\<rparr>) = tx s" "tx (s\<lparr>s_va := x2\<rparr>) = tx s" "tx (s\<lparr>s_vr := x3\<rparr>) = tx s" "tx (s\<lparr>s_write_q := x4\<rparr>) = tx s"
  "tx (s\<lparr>s_xmit_cnt := x5\<rparr>) = tx s" "tx (s\<lparr>s_va_peer := x6\<rparr>) = tx s" "tx (s\<lparr>s_testfr := x7\<rparr>) = tx s"
  "tx (s\<lparr>s_ackw_q := x8\<rparr>) = tx s" "tx (s\<lparr>s_left := x9\<rparr>) = tx s" "tx (s\<lparr>s_len := x10\<rparr>) = tx s" "tx (s\<lparr>io_in := x11\<rparr>) = tx s"
  by (simp_all add: tx_def)

text \<open>What only the window, the written frames and the state of the receiver depend on.\<close>

lemma session_cong:
  assumes "listening s' = listening s" "io_in s' = io_in s" "tx s' = tx s" "s_vs s' = s_vs s" "s_va s' = s_va s"
    "s_vr s' = s_vr s" "s_k s' = s_k s"
  shows "session base i fs va vr s' = session base i fs va vr s"
  using assms by (simp add: session_def)

lemma listening_frame [simp]:
  "listening (log_call c s) = listening s" "listening (s\<lparr>s_xmit_cnt := x1\<rparr>) = listening s"
  "listening (s\<lparr>s_testfr := x2\<rparr>) = listening s" "listening (s\<lparr>s_len := x3\<rparr>) = listening s"
  "listening (s\<lparr>s_ackw_q := x4\<rparr>) = listening s" "listening (s\<lparr>io_in := x5\<rparr>) = listening s"
  by (simp_all add: listening_def rx_ready_def) (simp_all add: log_call_def)

lemma log_call_fields [simp]:
  "s_vs (log_call c s) = s_vs s" "s_va (log_call c s) = s_va s" "s_vr (log_call c s) = s_vr s" "s_k (log_call c s) = s_k s"
  "s_w (log_call c s) = s_w s" "s_testfr (log_call c s) = s_testfr s" "s_write_q (log_call c s) = s_write_q s"
  "s_freed (log_call c s) = s_freed s" "s_type (log_call c s) = s_type s" "s_stopdt (log_call c s) = s_stopdt s"
  "s_left (log_call c s) = s_left s" "s_buf (log_call c s) = s_buf s" "s_va_peer (log_call c s) = s_va_peer s"
  by (simp_all add: log_call_def)

lemma session_log [simp]: "tx_of c = [] \<Longrightarrow> session base i fs va vr (log_call c s) = session base i fs va vr s"
  by (rule session_cong) simp_all

lemma session_timers [simp]:
  "session base i fs va vr (t1_timer_start s) = session base i fs va vr s"
  "session base i fs va vr (t1_timer_stop s) = session base i fs va vr s"
  "session base i fs va vr (t2_timer_start s) = session base i fs va vr s"
  "session base i fs va vr (t2_timer_stop s) = session base i fs va vr s"
  "session base i fs va vr (t3_timer_start s) = session base i fs va vr s"
  "session base i fs va vr (t3_timer_stop s) = session base i fs va vr s"
  "session base i fs va vr (s\<lparr>s_testfr := t\<rparr>) = session base i fs va vr s"
  by (simp_all add: t1_timer_start_def t1_timer_stop_def t2_timer_start_def t2_timer_stop_def t3_timer_start_def
      t3_timer_stop_def session_cong [of "s\<lparr>s_testfr := t\<rparr>" s])

lemma timer_fields [simp]:
  "s_testfr (t1_timer_start s) = s_testfr s" "s_testfr (t1_timer_stop s) = s_testfr s"
  "s_testfr (t2_timer_start s) = s_testfr s" "s_testfr (t2_timer_stop s) = s_testfr s"
  "s_testfr (t3_timer_start s) = s_testfr s" "s_testfr (t3_timer_stop s) = s_testfr s"
  "s_write_q (t1_timer_start s) = s_write_q s" "s_write_q (t1_timer_stop s) = s_write_q s"
  "s_write_q (t2_timer_start s) = s_write_q s" "s_write_q (t2_timer_stop s) = s_write_q s"
  "s_write_q (t3_timer_start s) = s_write_q s" "s_write_q (t3_timer_stop s) = s_write_q s"
  by (simp_all add: sess_defs)

section \<open>Sending\<close>

lemma encode_infos:
  "encode i (map (\<lambda>b. GI b vr) bs) = map (\<lambda>j. wire (numbered (int (i + j)) (num vr) (bs ! j))) [0..<length bs]"
  by (induction bs arbitrary: i) (simp_all add: map_upt_Suc algebra_simps del: upt_Suc)

lemma infos_GI [simp]: "infos (map (\<lambda>b. GI b vr) bs) = bs" "acks (map (\<lambda>b. GI b vr) bs) = replicate (length bs) vr"
  "tests f (map (\<lambda>b. GI b vr) bs) = 0"
  by (induction bs) (simp_all add: tests_def)

lemma session_sent:
  assumes s: "session base i fs va vr s" and same: "same_but_sent s s'" and wf: "wf_win s'"
    and out: "outstanding s' = outstanding s + int (length bs)" and ok: "\<forall>b \<in> set bs. iframe_ok b"
    and tx: "tx s' = tx s @ map (\<lambda>j. wire (numbered (uint (s_vs s) + int j) (s_vr s) (bs ! j))) [0..<length bs]"
  shows "session base i (fs @ map (\<lambda>b. GI b vr) bs) va vr s'"
proof -
  let ?n = "i + length (infos fs)"
  note f = same_but_sent_fields [OF same]
  have o: "outstanding s = int ?n - int va" using outstanding_session [OF s] .
  have num: "numbered (uint (s_vs s) + int j) v b = numbered (int (?n + j)) v b" for j v b
    using s by (simp add: numbered_def session_def mod_simps algebra_simps)
  have "tx s' = base @ encode i (fs @ map (\<lambda>b. GI b vr) bs)"
    unfolding tx num sessionD(5) [OF s] encode_append encode_infos using s by (simp add: session_def)
  moreover have "uint (s_vs s') = int (?n + length bs) mod 32767"
  proof -
    have "uint (s_vs s') mod 32767 = (uint (s_va s') + outstanding s') mod 32767" by (simp add: outstanding_def mod_simps)
    also have "\<dots> = (int va + (int ?n - int va + int (length bs))) mod 32767"
      unfolding out o f using s by (simp add: session_def mod_simps)
    finally show ?thesis using wf by (simp add: wf_win_def add.assoc)
  qed
  moreover have "int (?n + length bs) - int va \<le> uint (s_k s')"
    using wf out o by (simp add: wf_win_def)
  moreover have "listening s'" using s wf f by (simp add: session_def listening_def rx_ready_def)
  moreover have "sorted (acks fs @ replicate (length bs) vr)" "\<forall>a \<in> set (acks fs @ replicate (length bs) vr). a \<le> vr"
    using s by (auto simp: session_def sorted_append)
  moreover have "uint (s_va s') = int va mod 32767" "uint (s_vr s') = int vr mod 32767" "va \<le> ?n + length bs" "io_in s' = []"
    using s f by (simp_all add: session_def)
  moreover have "\<forall>b \<in> set (infos fs @ bs). iframe_ok b" using s ok by (auto simp: session_def)
  ultimately show ?thesis unfolding session_def infos_append acks_append infos_GI length_append add.assoc by blast
qed

lemma session_queue:
  assumes "session base i fs va vr s" and "iframe_ok b"
  shows "session base i fs va vr (s\<lparr>s_write_q := s_write_q s @ [b]\<rparr>)"
proof -
  have "wf_win (s\<lparr>s_write_q := s_write_q s @ [b]\<rparr>)"
    using sessionD(1) [OF assms(1)] assms(2) by (simp add: wf_win_def outstanding_def unacked_def ball_Un)
  then have "listening (s\<lparr>s_write_q := s_write_q s @ [b]\<rparr>)"
    using assms(1) by (simp add: session_def listening_def rx_ready_def)
  then show ?thesis using assms by (simp add: session_def)
qed

lemma session_run:
  assumes "session base i fs va vr s"
  obtains s' bs where "iecsock_run_write_queue env s = Inr s'" "session base i (fs @ map (\<lambda>b. GI b vr) bs) va vr s'"
    "same_but_sent s s'" "s_write_q s = bs @ s_write_q s'"
proof -
  define n where "n = min (length (s_write_q s)) (nat (uint (s_k s) - outstanding s))"
  define q where "q = map (\<lambda>i. numbered (uint (s_vs s) + int i) (s_vr s) (s_write_q s ! i)) [0..<n]"
  note d = sessionD [OF assms]
  obtain s' where s': "iecsock_run_write_queue env s = Inr s'" "wf_win s'" "s_write_q s' = drop n (s_write_q s)"
      "outstanding s' = outstanding s + int n" "tx s' = tx s @ map wire q" "same_but_sent s s'"
    using write_loop_law [OF d(1) n_def q_def, of env] d(3) by (auto simp: iecsock_run_write_queue_def)
  let ?bs = "take n (s_write_q s)"
  have l: "length ?bs = n" by (simp add: n_def)
  have "map wire q = map (\<lambda>j. wire (numbered (uint (s_vs s) + int j) (s_vr s) (?bs ! j))) [0..<length ?bs]"
    unfolding l by (simp add: q_def)
  moreover have "\<forall>b \<in> set ?bs. iframe_ok b" using d(1) by (auto simp: wf_win_def dest: in_set_takeD)
  ultimately have "session base i (fs @ map (\<lambda>b. GI b vr) ?bs) va vr s'"
    using session_sent [OF assms s'(6,2), of ?bs] s'(4,5) l by simp
  then show ?thesis using that [of s' ?bs] s' by simp
qed

lemma session_frame_sent:
  assumes "session base i fs va vr s" and "octets_of (i + length (infos fs)) g = bs" and "infos [g] = []" and "set (acks [g]) \<subseteq> {vr}"
  shows "session base i (fs @ [g]) va vr ((log_call (BevWrite bs) s)\<lparr>s_xmit_cnt := x\<rparr>)"
  using assms by (cases g) (auto simp: session_def encode_append sorted_append)

lemma session_s:
  "session base i fs va vr s \<Longrightarrow> session base i (fs @ [GS vr]) va vr (iecsock_sframe_send s)"
  using sessionD(5) [of base i fs va vr s] by (simp add: iecsock_sframe_send_def session_frame_sent)

lemma session_u:
  "session base i fs va vr s \<Longrightarrow> session base i (fs @ [GU f]) va vr (iecsock_uframe_send f s)"
  by (simp add: iecsock_uframe_send_def session_frame_sent)

lemma session_peer:
  assumes "session base i fs va vr s"
  shows "session base i fs va vr (s\<lparr>s_va_peer := s_vr s\<rparr>)"
proof -
  have "listening (s\<lparr>s_va_peer := s_vr s\<rparr>)"
    using assms wf_win_peer_acked [of s] by (simp add: session_def listening_def rx_ready_def)
  then show ?thesis using assms by (simp add: session_def)
qed

lemma session_t2: "session base i fs va vr s \<Longrightarrow> session base i (fs @ [GS vr]) va vr (t2_timer_run s)"
  using session_peer [OF session_s] by (simp add: t2_timer_run_def Let_def)

lemma session_t3: "session base i fs va vr s \<Longrightarrow> session base i (fs @ [GU TESTACT]) va vr (t3_timer_run s)"
  by (simp add: t3_timer_run_def Let_def session_u)

section \<open>Receiving\<close>

lemma session_acked:
  assumes s: "session base i fs va vr s" and a: "va \<le> a" "a \<le> i + length (infos fs)"
  shows "check_nr s (num a)" and "session base i fs a vr (s\<lparr>s_va := num a\<rparr>)"
proof -
  note d = sessionD [OF s]
  have k: "uint (s_k s) < 32767" using d(1) by (simp add: wf_win_def)
  have le: "uint (num a) \<le> 32767" using order_less_imp_le [of "int a mod 32767" 32767] by (simp add: uint_num)
  have "(uint (num a) - uint (s_va s)) mod 32767 = (int a - int va) mod 32767"
    using s by (simp add: uint_num session_def mod_simps)
  also have "\<dots> = int a - int va" using a k s by (intro mod_pos_pos_trivial) (auto simp: session_def)
  finally show c: "check_nr s (num a)" using check_nr_iff [OF d(1) le] outstanding_session [OF s] a by simp
  have "listening (s\<lparr>s_va := num a\<rparr>)"
    using wf_win_ack [OF d(1) c le] s by (simp add: session_def listening_def rx_ready_def)
  then show "session base i fs a vr (s\<lparr>s_va := num a\<rparr>)" using s a by (auto simp: session_def uint_num)
qed

lemma session_ackw [simp]: "session base i fs va vr (iecsock_run_ackw_queue nr s) = session base i fs va vr s"
  by (rule session_cong) (simp_all add: iecsock_run_ackw_queue_def)

lemma session_next:
  assumes s: "session base i fs va vr s" and s': "s' = s\<lparr>s_vr := word_of_int (c_rem (uint (s_vr s) + 1) 32767)\<rparr>"
  obtains gs where "session base i (fs @ gs) va (Suc vr) (ack_peer s')" "infos gs = []" "set (acks gs) \<subseteq> {Suc vr}" "\<forall>f. GU f \<notin> set gs"
    "s_testfr (ack_peer s') = s_testfr s" "s_write_q (ack_peer s') = s_write_q s"
proof -
  note d = sessionD [OF s]
  have vr: "uint (s_vr s') = int (Suc vr) mod 32767"
    using unacked_succ(2) [OF d(1) s'] s by (simp add: session_def mod_simps add.commute)
  have e: "ack_peer s' = (if unacked s + 1 = uint (s_w s) then (iecsock_sframe_send s')\<lparr>s_va_peer := s_vr s'\<rparr> else s')"
    using ack_peer_eq [OF d(1) s'] .
  let ?gs = "if unacked s + 1 = uint (s_w s) then [GS (Suc vr)] else []"
  have "wf_win (ack_peer s')" using ack_peer_wf [OF d(1) s'] .
  moreover have "tx (ack_peer s') = tx s @ (if unacked s + 1 = uint (s_w s) then [hdr_bytes (sframe_hdr (num (Suc vr)))] else [])"
    using num_eqI [OF vr] s' unfolding e by (simp add: iecsock_sframe_send_def)
  moreover have f: "s_vs (ack_peer s') = s_vs s" "s_va (ack_peer s') = s_va s" "uint (s_vr (ack_peer s')) = int (Suc vr) mod 32767"
      "s_k (ack_peer s') = s_k s" "io_in (ack_peer s') = io_in s" "rx_ready (ack_peer s') = rx_ready s"
      "s_type (ack_peer s') = s_type s" "s_stopdt (ack_peer s') = s_stopdt s" "s_testfr (ack_peer s') = s_testfr s"
      "s_write_q (ack_peer s') = s_write_q s"
    using vr s' unfolding e by (simp_all add: iecsock_sframe_send_def rx_ready_def)
  ultimately have "session base i (fs @ ?gs) va (Suc vr) (ack_peer s')"
    using s by (auto simp: session_def listening_def encode_append sorted_append le_SucI)
  then show ?thesis using that [of ?gs] f(9,10) by auto
qed

section \<open>Reading one frame\<close>

lemma session_framed:
  assumes s: "session base i fs va vr s" and f: "length f \<le> 255"
  shows "session base i fs va vr (framed f [] s)"
proof -
  have "listening (framed f [] s)"
    using s f by (simp add: session_def listening_def rx_ready_def framed_def IEC104_BUF_LEN_def)
  moreover have "tx (framed f [] s) = tx s" by (simp add: framed_def tx_def)
  ultimately show ?thesis using s by (simp add: session_def framed_def)
qed

lemma session_done: "session base i fs va vr s \<Longrightarrow> session base i fs va vr (frame_done s)"
  using session_cong [of "s\<lparr>s_left := 0, s_len := 0\<rparr>" s base i fs va vr]
  by (simp add: frame_done_def session_def listening_def rx_ready_def)

text \<open>
  The read callback on one whole frame: the frame handler gets the frame as it was written, on a
  connection whose counters are untouched.
\<close>

definition handler :: "'g env \<Rightarrow> iec_buf \<Rightarrow> 'g st \<Rightarrow> (int \<times> 'g st) res" where
  "handler env buf st =
     (case frame_type (b_h buf) of
        FRAME_TYPE_I \<Rightarrow> iecsock_iframe_recv env buf st
      | FRAME_TYPE_S \<Rightarrow> iecsock_sframe_recv env buf st
      | FRAME_TYPE_U \<Rightarrow> iecsock_uframe_recv env buf st)"

lemma read_one_frame:
  assumes env: "reads_all env" "e_calloc env" and s: "session base i fs va vr (st_s st)"
    and h: "h_start h = 0x68" "unat (h_length h) = length xs + 4" "length xs \<le> 249"
    and s1: "s1 = t3_timer_start (t3_timer_stop (framed (hdr_bytes h @ xs) [] (st_s st)))"
    and recv: "handler env \<lparr>b_data_len = 0, b_h = h, b_data = xs\<rparr> (st\<lparr>st_s := s1\<rparr>) = Inr (0, st1)"
    and s': "session base' i' fs' va' vr' (st_s st1)"
  shows "bufreadcb 3 env (on_s (\<lambda>s. s\<lparr>io_in := hdr_bytes h @ xs\<rparr>) st) = Some (Inr (on_s frame_done st1))"
proof -
  note d = sessionD [OF s] and d' = sessionD [OF s']
  let ?f = "hdr_bytes h @ xs" and ?st = "on_s (\<lambda>s. s\<lparr>io_in := hdr_bytes h @ xs\<rparr>) st"
  have fr: "framed ?f [] (st_s ?st) = framed ?f [] (st_s st)" by (simp add: framed_def on_s_def)
  have copy: "frame_copy s1 = Inr \<lparr>b_data_len = 0, b_h = h, b_data = xs\<rparr>" "hdr_of_bytes (s_buf (framed ?f [] (st_s st))) = h"
    using frame_copy_framed [OF h(3,2) d(9)] unfolding s1 by (simp_all add: sess_defs)
  have ty: "s_type s1 = s_type (st_s st)" "s_stopdt s1 = s_stopdt (st_s st)" by (simp_all add: s1 sess_defs framed_def)
  have st: "on_s t3_timer_start (on_s t3_timer_stop (on_s (framed ?f []) ?st)) = st\<lparr>st_s := s1\<rparr>"
    using fr by (simp add: on_s_def s1)
  have "iecsock_frame_recv env (on_s (framed ?f []) ?st) = handler env \<lparr>b_data_len = 0, b_h = h, b_data = xs\<rparr> (st\<lparr>st_s := s1\<rparr>)"
    using env(2) copy ty d(3) fr unfolding iecsock_frame_recv_def handler_def Let_def st by (auto simp: on_s_simps(2))
  then have r: "iecsock_frame_recv env (on_s (framed ?f []) ?st) = Inr (0, st1)" using recv by simp
  have "rx_ready (st_s ?st)" "io_in (st_s ?st) = hdr_bytes h @ xs @ []"
    using d(2) by (simp_all add: rx_ready_def on_s_def)
  then obtain k where k: "k \<le> 2" "\<And>n. bufreadcb (k + n) env ?st = bufreadcb n env (on_s frame_done st1)"
    using read_frame [OF _ env(1) h(1,2,3) _ r d'(8)] by blast
  have "bufreadcb 3 env ?st = bufreadcb (Suc (2 - k)) env (on_s frame_done st1)"
    using k(2) [of "Suc (2 - k)"] k(1) by simp
  also have "\<dots> = Some (Inr (on_s frame_done st1))"
    using d'(4,8) by (simp add: touch_def on_s_def frame_done_def)
  finally show ?thesis .
qed

section \<open>Programs on a running end\<close>

text \<open>
  From \<open>st\<close> to \<open>st'\<close> the program has sent the frames \<open>gs\<close>: they acknowledge nothing older than
  \<open>vr\<close> and are no test frames.
\<close>

definition goes_on :: "u8 list list \<Rightarrow> nat \<Rightarrow> gframe list \<Rightarrow> nat \<Rightarrow> nat \<Rightarrow> nat \<Rightarrow> 'g st \<Rightarrow> 'g st \<Rightarrow> bool" where
  "goes_on base i fs va vr vr' st st' \<longleftrightarrow> (\<exists>gs. session base i (fs @ gs) va vr' (st_s st')
     \<and> (\<forall>f. GU f \<notin> set gs) \<and> (\<forall>a \<in> set (acks gs). vr \<le> a)) \<and> s_testfr (st_s st') = s_testfr (st_s st)"

text \<open>
  What the link layer and a program \<open>app\<close> with hooks \<open>E\<close> promise each other on a running connection: the hooks
  return, and like the program's own callbacks they only send.  The program keeps \<open>ok l\<close>, where \<open>l\<close> holds the
  payloads it has been handed, and every payload handed over is the last of them.
\<close>

locale session_end =
  fixes E :: "'g env set" and app :: "'g hook set" and ok :: "u8 list list \<Rightarrow> 'g st \<Rightarrow> bool"
  assumes env: "env \<in> E \<Longrightarrow> reads_all env \<and> e_calloc env"
    and ok_frame: "ok l st \<Longrightarrow> st_g st' = st_g st \<Longrightarrow> s_write_q (st_s st') = s_write_q (st_s st) \<Longrightarrow> ok l st'"
    and wakeup: "env \<in> E \<Longrightarrow> ok l st \<Longrightarrow> session base i fs va vr (st_s st) \<Longrightarrow>
      \<exists>st'. call_hook (transmit_wakeup (e_hooks env)) (transmit_wakeup (e_default env)) st = Inr st' \<and> ok l st'
        \<and> goes_on base i fs va vr vr st st'"
    and data: "env \<in> E \<Longrightarrow> ok l st \<Longrightarrow> session base i fs va vr (st_s st) \<Longrightarrow> unat (b_data_len b) = length (b_data b) \<Longrightarrow>
      length (b_data b) \<le> 249 \<Longrightarrow>
      \<exists>st'. call_hook (map_option (\<lambda>f. f b) (data_indication (e_hooks env)))
          (map_option (\<lambda>f. f b) (data_indication (e_default env))) st = Inr st' \<and> ok (l @ [b_data b]) st' \<and> goes_on base i fs va vr vr st st'"
    and app: "f \<in> app \<Longrightarrow> ok l st \<Longrightarrow> session base i fs va vr (st_s st) \<Longrightarrow> f st = Inr st' \<Longrightarrow>
      ok l st' \<and> goes_on base i fs va vr vr st st'"
begin

lemma run_wakeup_session:
  assumes e: "e \<in> E" and ok: "ok l st" and s: "session base i fs va vr (st_s st)"
  obtains st' where "run_wakeup e st = Inr st'" "ok l st'" "goes_on base i fs va vr vr st st'"
proof (cases "s_va (st_s st) = s_vs (st_s st)")
  case True
  let ?st = "on_s t1_timer_stop st"
  have "ok l ?st" "session base i fs va vr (st_s ?st)" using ok_frame [OF ok, of ?st] s by (simp_all add: on_s_def)
  then obtain st' where st': "call_hook (transmit_wakeup (e_hooks e)) (transmit_wakeup (e_default e)) ?st = Inr st'" "ok l st'"
      "goes_on base i fs va vr vr ?st st'" using wakeup [OF e] by blast
  have "goes_on base i fs va vr vr st st'" using st'(3) by (simp add: goes_on_def on_s_def)
  then show ?thesis using that st'(1,2) True by (simp add: run_wakeup_def)
next
  case False
  have "goes_on base i fs va vr vr st st" using s by (auto simp: goes_on_def intro!: exI [of _ "[]"])
  then show ?thesis using that [of st] False ok by (simp add: run_wakeup_def)
qed

text \<open>An I frame with the expected number: the program gets it, and the counters move on.\<close>

lemma iframe_session:
  assumes e: "e \<in> E" and ok: "ok l st" and s: "session base i fs va vr (st_s st)"
    and b: "ic_nr (b_h b) = num a" "ic_ns (b_h b) = num vr" "unat (h_length (b_h b)) = length (b_data b) + 4"
      "length (b_data b) \<le> 249" and a: "va \<le> a" "a \<le> i + length (infos fs)"
  obtains st' where "iecsock_iframe_recv e b st = Inr (0, st')" "ok (l @ [b_data b]) st'" "goes_on base i fs a vr (Suc vr) st st'"
proof -
  note ack = session_acked [OF s a]
  let ?st1 = "on_s (\<lambda>s. s\<lparr>s_va := num a\<rparr>) st" and ?b = "b\<lparr>b_data_len := h_length (b_h b) - 4\<rparr>"
  have ok1: "ok l ?st1" and ses1: "session base i fs a vr (st_s ?st1)" using ok_frame [OF ok, of ?st1] ack(2) by (simp_all add: on_s_def)
  obtain st2 where w: "run_wakeup e ?st1 = Inr st2" "ok l st2" "goes_on base i fs a vr vr ?st1 st2"
    using run_wakeup_session [OF e ok1 ses1] .
  then obtain gs where gs: "session base i (fs @ gs) a vr (st_s st2)" "\<forall>f. GU f \<notin> set gs" "\<forall>a \<in> set (acks gs). vr \<le> a"
      "s_testfr (st_s st2) = s_testfr (st_s st)" by (auto simp: goes_on_def on_s_def)
  note d2 = sessionD [OF gs(1)]
  let ?st3 = "on_s t2_timer_start (on_s t2_timer_stop st2)"
  have s3: "session base i (fs @ gs) a vr (st_s ?st3)" using gs(1) by (simp add: on_s_def)
  let ?s4 = "(st_s ?st3)\<lparr>s_vr := word_of_int (c_rem (uint (s_vr (st_s ?st3)) + 1) 32767)\<rparr>"
  obtain gs' where gs': "session base i ((fs @ gs) @ gs') a (Suc vr) (ack_peer ?s4)" "set (acks gs') \<subseteq> {Suc vr}"
      "\<forall>f. GU f \<notin> set gs'" "s_testfr (ack_peer ?s4) = s_testfr (st_s ?st3)" "s_write_q (ack_peer ?s4) = s_write_q (st_s ?st3)"
    using session_next [OF s3 refl] by metis
  let ?st4 = "on_s ack_peer (on_s (\<lambda>s. s\<lparr>s_vr := word_of_int (c_rem (uint (s_vr s) + 1) 32767)\<rparr>) ?st3)"
  have st4: "st_s ?st4 = ack_peer ?s4" "st_g ?st4 = st_g st2" by (simp_all add: on_s_def)
  have ok4: "ok l ?st4" using ok_frame [OF w(2), of ?st4] st4 gs'(5) by (simp add: on_s_def)
  have ses4: "session base i ((fs @ gs) @ gs') a (Suc vr) (st_s ?st4)" using gs'(1) unfolding st4(1) .
  have len: "unat (b_data_len ?b) = length (b_data ?b)" "length (b_data ?b) \<le> 249" using unat_ctrl_len [of "b_h b"] b(3,4) by (simp_all add: IEC104_CTRL_LEN_def)
  obtain st5 where st5: "call_hook (map_option (\<lambda>f. f ?b) (data_indication (e_hooks e)))
      (map_option (\<lambda>f. f ?b) (data_indication (e_default e))) ?st4 = Inr st5" "ok (l @ [b_data b]) st5"
      "goes_on base i ((fs @ gs) @ gs') a (Suc vr) (Suc vr) ?st4 st5"
    using data [OF e ok4 ses4 len] by auto
  obtain hs where hs: "session base i (((fs @ gs) @ gs') @ hs) a (Suc vr) (st_s st5)" "\<forall>f. GU f \<notin> set hs"
      "\<forall>a \<in> set (acks hs). Suc vr \<le> a" "s_testfr (st_s st5) = s_testfr (st_s ?st4)"
    using st5(3) by (auto simp: goes_on_def)
  have "check_ns (st_s ?st3) (num vr)" using sessionD(5) [OF s3] by (simp add: check_ns_def)
  then have "iecsock_iframe_recv e b st = Inr (0, st5)"
    using ack(1) w(1) d2(8) st5(1) b(1,2) by (simp add: iecsock_iframe_recv_def Let_def touch_def)
  moreover have "goes_on base i fs a vr (Suc vr) st st5"
    using hs gs gs' st4(1) unfolding goes_on_def
    by (intro conjI exI [of _ "gs @ gs' @ hs"]) (auto simp: on_s_def dest: Suc_leD)
  ultimately show ?thesis using that st5(2) by blast
qed

lemma sframe_session:
  assumes e: "e \<in> E" and ok: "ok l st" and s: "session base i fs va vr (st_s st)"
    and b: "ic_nr (b_h b) = num a" and a: "va \<le> a" "a \<le> i + length (infos fs)"
  obtains st' where "iecsock_sframe_recv e b st = Inr (0, st')" "ok l st'" "goes_on base i fs a vr vr st st'"
proof -
  let ?st1 = "on_s (\<lambda>s. s\<lparr>s_va := num a\<rparr>) (on_s (iecsock_run_ackw_queue (num a)) st)"
  have s0: "session base i fs va vr (iecsock_run_ackw_queue (num a) (st_s st))" using s by simp
  have "ok l ?st1" "session base i fs a vr (st_s ?st1)"
    using ok_frame [OF ok, of ?st1] session_acked(2) [OF s0 a] by (simp_all add: on_s_def iecsock_run_ackw_queue_def)
  then obtain st' where w: "run_wakeup e ?st1 = Inr st'" "ok l st'" "goes_on base i fs a vr vr ?st1 st'"
    using run_wakeup_session [OF e] by blast
  then have "iecsock_sframe_recv e b st = Inr (0, st')"
    using session_acked(1) [OF s a] b by (simp add: iecsock_sframe_recv_def Let_def)
  moreover have "goes_on base i fs a vr vr st st'"
    using w(3) by (simp add: goes_on_def on_s_def iecsock_run_ackw_queue_def)
  ultimately show ?thesis using that w(2) by blast
qed

end

end
