(* ===== verification/IecDuplex.thy ===== *)
theory IecDuplex
  imports IecSession
begin

text \<open>
  Two running ends and the two streams between them.  Either end may run its program, its timers and its
  read callback at any time; each stream hands over the frames in the order they were written.  Whatever
  the order of events, neither end ever refuses a frame of the other, and the payloads arrive as
  they were sent.
\<close>

section \<open>Receiving any frame\<close>

lemma num_15 [simp]: "take_bit 15 (num a) = num a"
proof (rule take_bit_15_id)
  have "uint (num a) < 32767" by (simp add: uint_num)
  moreover have "int (unat (num a)) = uint (num a)" by simp
  ultimately show "unat (num a) < 32768" by linarith
qed

lemma numbered_fields:
  "ic_nr (b_h (numbered n (num a) b)) = num a" "ic_ns (b_h (numbered (int vr) v b)) = num vr"
  "h_start (b_h (numbered n v b)) = h_start (b_h b)" "h_length (b_h (numbered n v b)) = h_length (b_h b)"
  "b_data (numbered n v b) = b_data b"
proof -
  show "ic_ns (b_h (numbered (int vr) v b)) = num vr" by (rule num_eqI) (rule uint_ic_ns_numbered)
qed (simp_all add: numbered_def)

lemma ic_nr_sframe: "ic_nr (sframe_hdr (num a)) = num a"
  by (simp add: ic_nr_eq_sc_nr sframe_hdr_nr)

fun ack_of :: "nat \<Rightarrow> gframe \<Rightarrow> nat" where
  "ack_of va (GI b a) = a"
| "ack_of va (GS a) = a"
| "ack_of va (GU f) = va"

text \<open>A frame that a running end accepts.\<close>

fun acceptable :: "nat \<Rightarrow> nat \<Rightarrow> bool \<Rightarrow> gframe \<Rightarrow> bool" where
  "acceptable va vs testfr (GI b a) = (iframe_ok b \<and> va \<le> a \<and> a \<le> vs)"
| "acceptable va vs testfr (GS a) = (va \<le> a \<and> a \<le> vs)"
| "acceptable va vs testfr (GU f) = (f = TESTACT \<or> f = TESTCON \<and> testfr)"

text \<open>What receiving the frame \<open>g\<close> does: the end has sent \<open>gs\<close> in reaction.\<close>

definition reacts :: "u8 list list \<Rightarrow> nat \<Rightarrow> gframe list \<Rightarrow> nat \<Rightarrow> nat \<Rightarrow> gframe \<Rightarrow> gframe list \<Rightarrow> 'g st \<Rightarrow> 'g st \<Rightarrow> bool" where
  "reacts base i fs va vr g gs st st' \<longleftrightarrow>
     session base i (fs @ gs) (ack_of va g) (vr + length (infos [g])) (st_s st')
     \<and> (\<forall>a \<in> set (acks gs). vr \<le> a) \<and> (\<forall>f. GU f \<in> set gs \<longrightarrow> f = TESTCON)
     \<and> tests TESTCON gs = (if g = GU TESTACT then 1 else 0)
     \<and> (s_testfr (st_s st') \<longleftrightarrow> s_testfr (st_s st) \<and> g \<noteq> GU TESTCON)"

lemma tests_none: "\<forall>f. GU f \<notin> set gs \<Longrightarrow> tests f gs = 0"
  by (auto simp: tests_def filter_empty_conv)

context session_end
begin

lemma done_ok: "ok l st \<Longrightarrow> ok l (on_s frame_done st)"
  by (rule ok_frame) (simp_all add: on_s_def frame_done_def)

lemma receive_number:
  assumes e: "e \<in> E" and ok: "ok l st" and s: "session base i fs va vr (st_s st)"
    and g: "g = GI b a \<or> g = GS a" and acc: "acceptable va (i + length (infos fs)) (s_testfr (st_s st)) g"
  shows "\<exists>st' gs. bufreadcb 3 e (on_s (\<lambda>s. s\<lparr>io_in := octets_of vr g\<rparr>) st) = Some (Inr st') \<and> ok (l @ map b_data (infos [g])) st'
    \<and> reacts base i fs va vr g gs st st'"
proof -
  define h where "h = (if g = GS a then sframe_hdr (num a) else b_h (numbered (int vr) (num a) b))"
  define xs where "xs = (if g = GS a then [] else b_data b)"
  define s1 where "s1 = t3_timer_start (t3_timer_stop (framed (hdr_bytes h @ xs) [] (st_s st)))"
  let ?st = "st\<lparr>st_s := s1\<rparr>" and ?b = "\<lparr>b_data_len = 0, b_h = h, b_data = xs\<rparr>"
  have h: "h_start h = 0x68" "unat (h_length h) = length xs + 4" "length xs \<le> 249" "ic_nr h = num a"
      "g = GI b a \<Longrightarrow> frame_type h = FRAME_TYPE_I \<and> ic_ns h = num vr" "g = GS a \<Longrightarrow> frame_type h = FRAME_TYPE_S"
    using g acc by (auto simp: h_def xs_def iframe_ok_def numbered_fields ic_nr_sframe sframe_hdr_type) (auto simp: numbered_def)
  have oct: "octets_of vr g = hdr_bytes h @ xs" using g by (auto simp: h_def xs_def wire_def numbered_fields)
  have a: "va \<le> a" "a \<le> i + length (infos fs)" using g acc by auto
  have ses: "session base i fs va vr s1" unfolding s1_def using session_framed [OF s, of "hdr_bytes h @ xs"] h(3) by simp
  have ok1: "ok l ?st" by (rule ok_frame [OF ok]) (simp_all add: s1_def framed_def)
  have tf: "s_testfr s1 = s_testfr (st_s st)" by (simp add: s1_def framed_def)
  obtain st1 where st1: "handler e ?b ?st = Inr (0, st1)" "ok (l @ map b_data (infos [g])) st1" "goes_on base i fs a vr (vr + length (infos [g])) ?st st1"
  proof (cases "g = GS a")
    case True
    then show ?thesis using sframe_session [OF e ok1 _ _ a, of base vr ?b] ses h(4,6) that by (auto simp: handler_def)
  next
    case False
    then have gi: "g = GI b a" "b_data b = xs" using g by (auto simp: xs_def)
    obtain st1 where "iecsock_iframe_recv e ?b ?st = Inr (0, st1)" "ok (l @ [xs]) st1" "goes_on base i fs a vr (Suc vr) ?st st1"
      using iframe_session [OF e ok1 _ _ _ _ _ a, of base vr ?b] ses h(2-5) gi(1) by auto
    then show ?thesis using that [of st1] h(5) gi by (simp add: handler_def)
  qed
  obtain gs where gs: "session base i (fs @ gs) a (vr + length (infos [g])) (st_s st1)" "\<forall>f. GU f \<notin> set gs"
      "\<forall>a \<in> set (acks gs). vr \<le> a" "s_testfr (st_s st1) = s_testfr (st_s st)"
    using st1(3) tf by (auto simp: goes_on_def)
  have "bufreadcb 3 e (on_s (\<lambda>s. s\<lparr>io_in := octets_of vr g\<rparr>) st) = Some (Inr (on_s frame_done st1))"
    unfolding oct using read_one_frame [OF _ _ s h(1-3) s1_def st1(1) gs(1)] env [OF e] by blast
  moreover have "session base i (fs @ gs) (ack_of va g) (vr + length (infos [g])) (st_s (on_s frame_done st1))"
    using session_done [OF gs(1)] g by (auto simp: on_s_def)
  then have "reacts base i fs va vr g gs st (on_s frame_done st1)"
    using gs(2-4) g tests_none [of gs TESTCON] by (auto simp: reacts_def on_s_def frame_done_def)
  ultimately show ?thesis using done_ok [OF st1(2)] by blast
qed

lemma receive_test:
  assumes e: "e \<in> E" and ok: "ok l st" and s: "session base i fs va vr (st_s st)"
    and g: "g = GU f" and acc: "acceptable va (i + length (infos fs)) (s_testfr (st_s st)) g"
  shows "\<exists>st' gs. bufreadcb 3 e (on_s (\<lambda>s. s\<lparr>io_in := octets_of vr g\<rparr>) st) = Some (Inr st') \<and> ok (l @ map b_data (infos [g])) st'
    \<and> reacts base i fs va vr g gs st st'"
proof -
  define s1 where "s1 = t3_timer_start (t3_timer_stop (framed (hdr_bytes (uframe_hdr f) @ []) [] (st_s st)))"
  let ?st = "st\<lparr>st_s := s1\<rparr>" and ?b = "\<lparr>b_data_len = 0, b_h = uframe_hdr f, b_data = []\<rparr>"
  have ses: "session base i fs va vr s1" unfolding s1_def using session_framed [OF s, of "hdr_bytes (uframe_hdr f)"] by simp
  have tf: "s_testfr s1 = s_testfr (st_s st)" "s_write_q s1 = s_write_q (st_s st)" by (simp_all add: s1_def framed_def)
  define gs where "gs = (if f = TESTACT then [GU TESTCON] else [])"
  obtain s2 where s2: "handler e ?b ?st = Inr (0, st\<lparr>st_s := s2\<rparr>)" "session base i (fs @ gs) va vr s2"
      "s_testfr s2 \<longleftrightarrow> s_testfr (st_s st) \<and> f \<noteq> TESTCON" "s_write_q s2 = s_write_q (st_s st)"
  proof (cases "f = TESTACT")
    case True
    let ?s = "iecsock_uframe_send TESTCON s1"
    have "s_testfr ?s = s_testfr s1" "s_write_q ?s = s_write_q s1" by (simp_all add: iecsock_uframe_send_def)
    then show ?thesis
      using that [of "if s_type ?s = IEC_SLAVE \<and> \<not> s_testfr ?s then t3_timer_stop ?s else ?s"] True tf session_u [OF ses]
      by (simp add: handler_def uframe_hdr_type iecsock_uframe_recv_def uframe_hdr_func Let_def gs_def)
  next
    case False
    then have "f = TESTCON" "s_testfr s1" using acc g tf by auto
    then show ?thesis using that [of "(t1_timer_stop s1)\<lparr>s_testfr := False\<rparr>"] tf ses
      by (simp add: handler_def uframe_hdr_type iecsock_uframe_recv_def uframe_hdr_func Let_def gs_def)
  qed
  let ?st' = "on_s frame_done (st\<lparr>st_s := s2\<rparr>)"
  have "bufreadcb 3 e (on_s (\<lambda>s. s\<lparr>io_in := hdr_bytes (uframe_hdr f) @ []\<rparr>) st) = Some (Inr ?st')"
    using read_one_frame [OF _ _ s _ _ _ s1_def s2(1), of base i "fs @ gs" va vr] env [OF e] s2(2) by simp
  moreover have "ok (l @ map b_data (infos [g])) ?st'" using done_ok [OF ok_frame [OF ok, of "st\<lparr>st_s := s2\<rparr>"]] s2(4) g by simp
  moreover have "reacts base i fs va vr g gs st ?st'"
    using session_done [OF s2(2)] s2(3) g acc by (auto simp: reacts_def on_s_def frame_done_def gs_def)
  ultimately show ?thesis using g by auto
qed

lemma receive:
  assumes "e \<in> E" and "ok l st" and "session base i fs va vr (st_s st)"
    and "acceptable va (i + length (infos fs)) (s_testfr (st_s st)) g"
  shows "\<exists>st' gs. bufreadcb 3 e (on_s (\<lambda>s. s\<lparr>io_in := octets_of vr g\<rparr>) st) = Some (Inr st') \<and> ok (l @ map b_data (infos [g])) st'
    \<and> reacts base i fs va vr g gs st st'"
  using receive_number [OF assms(1-3) _ assms(4)] receive_test [OF assms(1-3) _ assms(4)] by (cases g) auto

end

section \<open>The two ends together\<close>

text \<open>
  Both ends, how many of the frames each has written the other has received, and the payloads each
  program has been handed.
\<close>

record ('a, 'b) duplex =
  end_a :: "'a st"
  end_b :: "'b st"
  n_ab :: nat
  n_ba :: nat
  got_a :: "u8 list list"
  got_b :: "u8 list list"

definition payload :: "u8 list \<Rightarrow> u8 list list" where
  "payload f = (if frame_type (hdr_of_bytes f) = FRAME_TYPE_I then [drop sizeof_iechdr f] else [])"

text \<open>
  What one end does by itself: its program's callbacks, the write callback, and the timers that do not
  end the connection.  The timer T3 does not expire while an earlier test is unanswered.
\<close>

inductive own_step :: "'g hook set \<Rightarrow> 'g st \<Rightarrow> 'g st \<Rightarrow> bool" for app where
  own_app: "f \<in> app \<Longrightarrow> f st = Inr st' \<Longrightarrow> own_step app st st'"
| own_write: "own_step app st (bufwritecb st)"
| own_t2: "own_step app st (on_s t2_timer_run st)"
| own_t3: "\<not> s_testfr (st_s st) \<Longrightarrow> own_step app st (on_s t3_timer_run st)"

definition receives :: "'g env \<Rightarrow> u8 list \<Rightarrow> 'g st \<Rightarrow> 'g st \<Rightarrow> bool" where
  "receives env f st st' \<longleftrightarrow> bufreadcb 3 env (on_s (\<lambda>s. s\<lparr>io_in := f\<rparr>) st) = Some (Inr st')"

inductive duplex_step :: "'a env set \<Rightarrow> 'a hook set \<Rightarrow> 'b env set \<Rightarrow> 'b hook set \<Rightarrow> ('a, 'b) duplex \<Rightarrow> ('a, 'b) duplex \<Rightarrow> bool"
  for EA appA EB appB where
  own_a: "own_step appA (end_a d) a \<Longrightarrow> duplex_step EA appA EB appB d (d\<lparr>end_a := a\<rparr>)"
| own_b: "own_step appB (end_b d) b \<Longrightarrow> duplex_step EA appA EB appB d (d\<lparr>end_b := b\<rparr>)"
| recv_a: "e \<in> EA \<Longrightarrow> n_ba d < length (tx (st_s (end_b d))) \<Longrightarrow> f = tx (st_s (end_b d)) ! n_ba d \<Longrightarrow> receives e f (end_a d) a \<Longrightarrow>
    duplex_step EA appA EB appB d (d\<lparr>end_a := a, n_ba := n_ba d + 1, got_a := got_a d @ payload f\<rparr>)"
| recv_b: "e \<in> EB \<Longrightarrow> n_ab d < length (tx (st_s (end_a d))) \<Longrightarrow> f = tx (st_s (end_a d)) ! n_ab d \<Longrightarrow> receives e f (end_b d) b \<Longrightarrow>
    duplex_step EA appA EB appB d (d\<lparr>end_b := b, n_ab := n_ab d + 1, got_b := got_b d @ payload f\<rparr>)"

text \<open>
  One end against the other: it has written \<open>fs\<close>, of which \<open>n\<close> have arrived, and received \<open>n'\<close> of
  \<open>fs'\<close>.  What the peer has still to hand over acknowledges nothing older than \<open>va\<close>, and a test is
  unanswered exactly while its request or its answer is on the way.
\<close>

definition side :: "u8 list list \<Rightarrow> nat \<Rightarrow> gframe list \<Rightarrow> nat \<Rightarrow> nat \<Rightarrow> nat \<Rightarrow> gframe list \<Rightarrow> nat \<Rightarrow> iecsock \<Rightarrow> bool" where
  "side base i fs va n i' fs' n' s \<longleftrightarrow> session base i fs va (i' + length (infos (take n' fs'))) s \<and> n \<le> length fs
     \<and> va \<le> i + length (infos (take n fs)) \<and> (\<forall>a \<in> set (acks (drop n' fs')). va \<le> a)
     \<and> (\<forall>f. GU f \<in> set (drop n fs) \<longrightarrow> f = TESTACT \<or> f = TESTCON)
     \<and> tests TESTACT (drop n fs) + tests TESTCON (drop n' fs') = (if s_testfr s then 1 else 0)"

lemma side_sends:
  assumes s: "side base i fs va n i' fs' n' s" and t: "side base' i' fs' va' n' i fs n t"
    and ses: "session base i (fs @ gs) va (i' + length (infos (take n' fs'))) s'"
    and gs: "\<forall>a \<in> set (acks gs). i' + length (infos (take n' fs')) \<le> a" "\<forall>f. GU f \<in> set gs \<longrightarrow> f = TESTACT"
    and tf: "(if s_testfr s' then 1 else 0) = (if s_testfr s then 1 else 0) + tests TESTACT gs"
  shows "side base i (fs @ gs) va n i' fs' n' s'" and "side base' i' fs' va' n' i (fs @ gs) n t"
proof -
  have n: "n \<le> length fs" using s by (simp add: side_def)
  then have td: "take n (fs @ gs) = take n fs" "drop n (fs @ gs) = drop n fs @ gs" by simp_all
  show "side base i (fs @ gs) va n i' fs' n' s'"
    using s ses gs(2) tf unfolding side_def td by auto
  have "tests TESTCON gs = 0" using gs(2) by (fastforce simp: tests_def filter_empty_conv)
  moreover have "va' \<le> a" if "a \<in> set (acks gs)" for a
    using t gs(1) that le_trans unfolding side_def by blast
  ultimately show "side base' i' fs' va' n' i (fs @ gs) n t"
    using t unfolding side_def td by auto
qed

lemma drop_nth: "n < length xs \<Longrightarrow> drop n xs = xs ! n # drop (Suc n) xs"
  by (simp add: Cons_nth_drop_Suc)

lemma acks_drop_next:
  assumes "n < length fs"
  shows "set (acks (drop (Suc n) fs)) \<subseteq> set (acks (drop n fs))"
  using acks_append [of "[fs ! n]" "drop (Suc n) fs"] drop_nth [OF assms] by simp

lemma side_acceptable:
  assumes s: "side base i fs va n i' fs' n' s" and t: "side base' i' fs' va' n' i fs n t" and n': "n' < length fs'"
  shows "acceptable va (i + length (infos fs)) (s_testfr s) (fs' ! n')"
    and "a \<in> set (acks [fs' ! n']) \<Longrightarrow> a \<le> i + length (infos (take n fs))"
    and "a \<in> set (acks (drop (Suc n') fs')) \<Longrightarrow> ack_of va (fs' ! n') \<le> a"
proof -
  let ?g = "fs' ! n'"
  note d = drop_nth [OF n']
  have acks: "acks fs' = acks (take n' fs') @ acks [?g] @ acks (drop (Suc n') fs')"
    unfolding acks_append [symmetric] using id_take_nth_drop [OF n'] by simp
  have bnd: "a \<le> i + length (infos (take n fs))" if "a \<in> set (acks fs')" for a
    using t that unfolding side_def session_def by blast
  show le: "a \<in> set (acks [?g]) \<Longrightarrow> a \<le> i + length (infos (take n fs))" for a using bnd acks by simp
  have low: "va \<le> a" if "a \<in> set (acks (drop n' fs'))" for a using s that unfolding side_def by blast
  have srt: "sorted (acks fs')" using t unfolding side_def session_def by blast
  show "a \<in> set (acks (drop (Suc n') fs')) \<Longrightarrow> ack_of va ?g \<le> a" for a
    using srt low acks_drop_next [OF n'] unfolding acks by (cases ?g) (auto simp: sorted_append)
  have tot: "infos (take n fs) @ infos (drop n fs) = infos fs" using infos_append [of "take n fs" "drop n fs"] by simp
  then have le': "i + length (infos (take n fs)) \<le> i + length (infos fs)" by (metis add_left_mono le_add1 length_append)
  have ok: "iframe_ok b" if "b \<in> set (infos fs')" for b using t that unfolding side_def session_def by blast
  show "acceptable va (i + length (infos fs)) (s_testfr s) ?g"
  proof (cases ?g)
    case (GI b a)
    have "b \<in> set (infos fs')" using set_infos_drop [of b n' fs'] d GI by simp
    then show ?thesis using GI ok le [of a] le' low [of a] d by simp
  next
    case (GS a)
    then show ?thesis using le [of a] le' low [of a] d by simp
  next
    case (GU f)
    then have "f = TESTACT \<or> f = TESTCON" using t d unfolding side_def by auto
    moreover have "f = TESTCON \<Longrightarrow> s_testfr s" using s d GU unfolding side_def by (auto split: if_splits)
    ultimately show ?thesis using GU by auto
  qed
qed

lemma side_receives:
  assumes s: "side base i fs va n i' fs' n' s" and t: "side base' i' fs' va' n' i fs n t" and n': "n' < length fs'"
    and st: "s = st_s st" "s' = st_s st'" and r: "reacts base i fs va (i' + length (infos (take n' fs'))) (fs' ! n') gs st st'"
  shows "side base i (fs @ gs) (ack_of va (fs' ! n')) n i' fs' (Suc n') s'"
    and "side base' i' fs' va' (Suc n') i (fs @ gs) n t"
proof -
  let ?g = "fs' ! n'" and ?vr = "i' + length (infos (take n' fs'))"
  note d = drop_nth [OF n'] and acc = side_acceptable [OF s t n']
  have n: "n \<le> length fs" using s by (simp add: side_def)
  then have td: "take n (fs @ gs) = take n fs" "drop n (fs @ gs) = drop n fs @ gs" by simp_all
  have vr: "i' + length (infos (take (Suc n') fs')) = ?vr + length (infos [?g])" using infos_take [OF n'] by simp
  have r: "session base i (fs @ gs) (ack_of va ?g) (?vr + length (infos [?g])) s'" "\<forall>a \<in> set (acks gs). ?vr \<le> a"
      "\<forall>f. GU f \<in> set gs \<longrightarrow> f = TESTCON" "tests TESTCON gs = (if ?g = GU TESTACT then 1 else 0)"
      "s_testfr s' \<longleftrightarrow> s_testfr s \<and> ?g \<noteq> GU TESTCON"
    using r st by (auto simp: reacts_def)
  have g0: "tests TESTACT gs = 0" using r(3) by (fastforce simp: tests_def filter_empty_conv)
  have va: "ack_of va ?g \<le> i + length (infos (take n fs))"
    using acc(2) s by (cases ?g) (auto simp: side_def)
  have tA: "tests TESTACT (drop n fs) + (if ?g = GU TESTCON then 1 else 0) + tests TESTCON (drop (Suc n') fs') = (if s_testfr s then 1 else 0)"
    using s d unfolding side_def by simp
  have "tests TESTACT (drop n fs @ gs) + tests TESTCON (drop (Suc n') fs') = (if s_testfr s' then 1 else 0)"
    using tA r(5) g0 by (auto split: if_splits)
  then show "side base i (fs @ gs) (ack_of va ?g) n i' fs' (Suc n') s'"
    using s r(1,3) acc(3) va unfolding side_def td vr by auto
  have tB: "(if ?g = GU TESTACT then 1 else 0) + tests TESTACT (drop (Suc n') fs') + tests TESTCON (drop n fs) = (if s_testfr t then 1 else 0)"
    using t d unfolding side_def by simp
  have "va' \<le> a" if "a \<in> set (acks gs)" for a using t r(2) that le_trans unfolding side_def by blast
  moreover have "GU f \<in> set (drop (Suc n') fs') \<Longrightarrow> GU f \<in> set (drop n' fs')" for f using d by simp
  moreover have "va' \<le> i' + length (infos (take (Suc n') fs'))" using t unfolding vr side_def by simp
  ultimately show "side base' i' fs' va' (Suc n') i (fs @ gs) n t"
    using t n' tB r(4) unfolding side_def td by auto
qed

end
