(* ===== verification/IecPair.thy ===== *)
theory IecPair
  imports IecDuplex
begin

text \<open>
  Two running ends stay in step: the invariant of \<open>duplex_step\<close> for any two programs that keep the contract
  \<open>session_end\<close>, the client of \<open>src/ieclink/ieclink.c\<close> and the hooks of \<open>src/ieclink/server.c\<close> as such
  programs, and what follows for a connection between them.
\<close>

section \<open>One end\<close>

lemma goes_on_refl: "session base i fs va vr (st_s st) \<Longrightarrow> goes_on base i fs va vr vr st st"
  by (auto simp: goes_on_def intro!: exI [of _ "[]"])

lemma goes_on_sends:
  assumes "side base i fs va n i' fs' n' (st_s st)" and "side base' i' fs' va' n' i fs n t"
    and "goes_on base i fs va (i' + length (infos (take n' fs'))) (i' + length (infos (take n' fs'))) st st'"
  shows "\<exists>gs. side base i (fs @ gs) va n i' fs' n' (st_s st') \<and> side base' i' fs' va' n' i (fs @ gs) n t"
proof -
  obtain gs where gs: "session base i (fs @ gs) va (i' + length (infos (take n' fs'))) (st_s st')" "\<forall>f. GU f \<notin> set gs"
      "\<forall>a \<in> set (acks gs). i' + length (infos (take n' fs')) \<le> a" "s_testfr (st_s st') = s_testfr (st_s st)"
    using assms(3) by (auto simp: goes_on_def)
  have "tests TESTACT gs = 0" using tests_none [OF gs(2)] .
  then show ?thesis using side_sends [OF assms(1,2) gs(1,3)] gs(2,4) by auto
qed

lemma t2_side:
  assumes s: "side base i fs va n i' fs' n' s" and t: "side base' i' fs' va' n' i fs n t"
  shows "\<exists>gs. side base i (fs @ gs) va n i' fs' n' (t2_timer_run s) \<and> side base' i' fs' va' n' i (fs @ gs) n t"
proof -
  have "session base i fs va (i' + length (infos (take n' fs'))) s" using s by (simp add: side_def)
  then show ?thesis
    using side_sends [OF s t session_t2] by (auto simp: t2_timer_run_def iecsock_sframe_send_def Let_def)
qed

lemma t3_side:
  assumes s: "side base i fs va n i' fs' n' s" and t: "side base' i' fs' va' n' i fs n t" and tf: "\<not> s_testfr s"
  shows "\<exists>gs. side base i (fs @ gs) va n i' fs' n' (t3_timer_run s) \<and> side base' i' fs' va' n' i (fs @ gs) n t"
proof -
  have ses: "session base i fs va (i' + length (infos (take n' fs'))) s" using s by (simp add: side_def)
  have "s_testfr (t3_timer_run s)" by (simp add: t3_timer_run_def iecsock_uframe_send_def Let_def)
  then show ?thesis
    using side_sends [OF s t session_t3 [OF ses]] tf by auto
qed

lemma payload_octets: "(\<forall>b \<in> set (infos [g]). iframe_ok b) \<Longrightarrow> payload (octets_of v g) = map b_data (infos [g])"
proof (cases g)
  case (GI b a)
  assume "\<forall>b \<in> set (infos [g]). iframe_ok b"
  then show ?thesis using GI
    by (simp add: payload_def wire_def hdr_of_bytes_hdr_bytes numbered_fields iframe_ok_def) (simp add: numbered_def)
next
  case (GS a)
  then show ?thesis using hdr_of_bytes_hdr_bytes [of _ "[]"] by (simp add: payload_def sframe_hdr_type)
next
  case (GU f)
  then show ?thesis using hdr_of_bytes_hdr_bytes [of _ "[]"] by (simp add: payload_def uframe_hdr_type)
qed

context session_end
begin

lemma own_side:
  assumes own: "own_step app st st'" and ok: "ok l st"
    and s: "side base i fs va n i' fs' n' (st_s st)" and t: "side base' i' fs' va' n' i fs n t"
  shows "ok l st' \<and> (\<exists>gs. side base i (fs @ gs) va n i' fs' n' (st_s st') \<and> side base' i' fs' va' n' i (fs @ gs) n t)"
  using own
proof cases
  case (own_app f)
  have ses: "session base i fs va (i' + length (infos (take n' fs'))) (st_s st)" using s by (simp add: side_def)
  show ?thesis using app [OF own_app(1) ok ses own_app(2)] goes_on_sends [OF s t] by blast
next
  case own_write
  then show ?thesis using ok s t by (auto simp: bufwritecb_def intro!: exI [of _ "[]"])
next
  case own_t2
  have "ok l st'" by (rule ok_frame [OF ok]) (simp_all add: own_t2 on_s_def t2_timer_run_def iecsock_sframe_send_def Let_def)
  then show ?thesis using t2_side [OF s t] own_t2 by (simp add: on_s_def)
next
  case own_t3
  have "ok l st'" by (rule ok_frame [OF ok]) (simp_all add: own_t3 on_s_def t3_timer_run_def iecsock_uframe_send_def Let_def)
  then show ?thesis using t3_side [OF s t] own_t3 by (simp add: on_s_def)
qed

text \<open>The next frame of the peer is always accepted.\<close>

lemma recv_side:
  assumes e: "e \<in> E" and ok: "ok l st" and n': "n' < length fs'"
    and s: "side base i fs va n i' fs' n' (st_s st)" and t: "side base' i' fs' va' n' i fs n t"
  shows "\<exists>st' gs. receives e (octets_of (i' + length (infos (take n' fs'))) (fs' ! n')) st st' \<and> \<not> s_freed (st_s st')
    \<and> ok (l @ map b_data (infos [fs' ! n'])) st'
    \<and> side base i (fs @ gs) (ack_of va (fs' ! n')) n i' fs' (Suc n') (st_s st') \<and> side base' i' fs' va' (Suc n') i (fs @ gs) n t"
proof -
  have ses: "session base i fs va (i' + length (infos (take n' fs'))) (st_s st)" using s by (simp add: side_def)
  obtain st' gs where r: "bufreadcb 3 e (on_s (\<lambda>s. s\<lparr>io_in := octets_of (i' + length (infos (take n' fs'))) (fs' ! n')\<rparr>) st) = Some (Inr st')"
      "ok (l @ map b_data (infos [fs' ! n'])) st'" "reacts base i fs va (i' + length (infos (take n' fs'))) (fs' ! n') gs st st'"
    using receive [OF e ok ses side_acceptable(1) [OF s t n']] by blast
  note side = side_receives [OF s t n' refl refl r(3)]
  have "\<not> s_freed (st_s st')" using sessionD(8) side(1) unfolding side_def by blast
  then show ?thesis using r(1,2) side unfolding receives_def by blast
qed

end

section \<open>Two ends\<close>

text \<open>
  The two ends are in step: what either has written since \<open>baseA\<close> and \<open>baseB\<close>, and how much of it has
  arrived and been handed to the other program, after \<open>gotA\<close> and \<open>gotB\<close>.
\<close>

definition arrived :: "u8 list list \<Rightarrow> gframe list \<Rightarrow> nat \<Rightarrow> u8 list list" where
  "arrived got fs n = got @ map b_data (infos (take n fs))"

lemma arrived_next: "n < length fs \<Longrightarrow> arrived got fs (Suc n) = arrived got fs n @ map b_data (infos [fs ! n])"
  by (simp add: arrived_def infos_take)

lemma arrived_append: "n \<le> length fs \<Longrightarrow> arrived got (fs @ gs) n = arrived got fs n"
  by (simp add: arrived_def)

definition duplex_inv ::
  "(u8 list list \<Rightarrow> 'a st \<Rightarrow> bool) \<Rightarrow> (u8 list list \<Rightarrow> 'b st \<Rightarrow> bool) \<Rightarrow> u8 list list \<Rightarrow> nat \<Rightarrow> u8 list list \<Rightarrow> u8 list list \<Rightarrow> nat
    \<Rightarrow> u8 list list \<Rightarrow> ('a, 'b) duplex \<Rightarrow> bool" where
  "duplex_inv okA okB baseA iA gotA baseB iB gotB d \<longleftrightarrow> (\<exists>fA vA nA fB vB nB.
     side baseA iA fA vA nA iB fB nB (st_s (end_a d)) \<and> side baseB iB fB vB nB iA fA nA (st_s (end_b d))
     \<and> n_ab d = length baseA + nA \<and> n_ba d = length baseB + nB
     \<and> got_a d = arrived gotA fB nB \<and> got_b d = arrived gotB fA nA \<and> okA (got_a d) (end_a d) \<and> okB (got_b d) (end_b d))"

lemma duplex_invI:
  assumes "side baseA iA fA vA nA iB fB nB (st_s (end_a d))" and "side baseB iB fB vB nB iA fA nA (st_s (end_b d))"
    and "n_ab d = length baseA + nA" and "n_ba d = length baseB + nB"
    and "got_a d = arrived gotA fB nB" and "got_b d = arrived gotB fA nA" and "okA (got_a d) (end_a d)" and "okB (got_b d) (end_b d)"
  shows "duplex_inv okA okB baseA iA gotA baseB iB gotB d"
  using assms unfolding duplex_inv_def by blast

text \<open>The next frame on the way, and what it carries.\<close>

lemma side_next:
  assumes "side base i fs va n i' fs' n' s" and "m = length base + n" and "m < length (tx s)"
  shows "n < length fs" and "tx s ! m = octets_of (i + length (infos (take n fs))) (fs ! n)"
    and "payload (tx s ! m) = map b_data (infos [fs ! n])"
proof -
  have tx: "tx s = base @ encode i fs" and ok: "\<forall>b \<in> set (infos fs). iframe_ok b"
    using assms(1) unfolding side_def session_def by blast+
  show n: "n < length fs" using assms(2,3) tx by simp
  show f: "tx s ! m = octets_of (i + length (infos (take n fs))) (fs ! n)"
    using assms(2) tx n by (simp add: nth_append encode_nth)
  have "set (infos [fs ! n]) \<subseteq> set (infos fs)"
    using set_infos_drop [of _ n fs] infos_Cons [of "fs ! n" "drop (Suc n) fs"] drop_nth [OF n] by auto
  then show "payload (tx s ! m) = map b_data (infos [fs ! n])"
    unfolding f using ok by (intro payload_octets) blast
qed

lemma side_tx:
  assumes "side base i fs va n i' fs' n' s" and "m = length base + n"
  shows "m < length (tx s) \<longleftrightarrow> n < length fs"
  using assms unfolding side_def session_def by auto

text \<open>What has arrived and what is still on the way is what has been sent.\<close>

lemma payloads_encode: "(\<forall>b \<in> set (infos fs). iframe_ok b) \<Longrightarrow> concat (map payload (encode i fs)) = map b_data (infos fs)"
proof (induction fs arbitrary: i)
  case (Cons g fs)
  have "infos (g # fs) = infos [g] @ infos fs" by (rule infos_Cons)
  then show ?case using Cons payload_octets [of g i] by simp
qed simp

lemma side_payloads:
  assumes "side base i fs va n i' fs' n' s"
  shows "\<exists>rest. got @ concat (map payload (drop (length base) (tx s))) = arrived got fs n @ rest \<and> int (length rest) \<le> uint (s_k s)"
proof -
  have tx: "drop (length base) (tx s) = encode i fs" and ok: "\<forall>b \<in> set (infos fs). iframe_ok b"
    and k: "int (i + length (infos fs)) - int va \<le> uint (s_k s)" and va: "va \<le> i + length (infos (take n fs))"
    using assms unfolding side_def session_def by simp_all
  have split: "infos fs = infos (take n fs) @ infos (drop n fs)" unfolding infos_append [symmetric] by simp
  have "got @ concat (map payload (drop (length base) (tx s))) = arrived got fs n @ map b_data (infos (drop n fs))"
    unfolding tx payloads_encode [OF ok] arrived_def by (subst split) simp
  moreover have "int (length (map b_data (infos (drop n fs)))) \<le> uint (s_k s)"
    using k va by (subst (asm) split) simp
  ultimately show ?thesis by blast
qed

text \<open>
  Two ends in step with nothing on the way: data transfer runs on both, everything written has arrived
  and been acknowledged, and neither waits for the answer to a test.
\<close>

definition quiet_end :: "iecsock \<Rightarrow> iecsock \<Rightarrow> bool" where
  "quiet_end s t \<longleftrightarrow> listening s \<and> io_in s = [] \<and> s_va s = s_vs s \<and> s_vr s = s_vs t \<and> \<not> s_testfr s"

definition in_step :: "('a, 'b) duplex \<Rightarrow> bool" where
  "in_step d \<longleftrightarrow> quiet_end (st_s (end_a d)) (st_s (end_b d)) \<and> quiet_end (st_s (end_b d)) (st_s (end_a d))
     \<and> n_ab d = length (tx (st_s (end_a d))) \<and> n_ba d = length (tx (st_s (end_b d)))"

lemma quiet_end_side:
  assumes "quiet_end s t" and "listening t"
  shows "side (tx s) (unat (s_vs s)) [] (unat (s_vs s)) 0 (unat (s_vs t)) [] 0 s"
proof -
  have "uint (s_vs s) < 32767" "uint (s_vs t) < 32767" "0 \<le> uint (s_k s)"
    using assms by (simp_all add: quiet_end_def listening_def wf_win_def)
  then show ?thesis using assms by (simp add: quiet_end_def side_def session_def)
qed

lemma in_step_inv:
  assumes "in_step d" and "okA (got_a d) (end_a d)" and "okB (got_b d) (end_b d)"
  shows "duplex_inv okA okB (tx (st_s (end_a d))) (unat (s_vs (st_s (end_a d)))) (got_a d)
    (tx (st_s (end_b d))) (unat (s_vs (st_s (end_b d)))) (got_b d) d"
proof -
  let ?a = "st_s (end_a d)" and ?b = "st_s (end_b d)"
  have q: "quiet_end ?a ?b" "quiet_end ?b ?a" "listening ?a" "listening ?b"
    using assms(1) by (simp_all add: in_step_def quiet_end_def)
  show ?thesis using quiet_end_side [OF q(1,4)] quiet_end_side [OF q(2,3)] assms
    by (intro duplex_invI [of _ _ "[]" "unat (s_vs ?a)" 0 _ "[]" 0 _ _ "unat (s_vs ?b)"]) (simp_all add: in_step_def arrived_def)
qed

locale duplex_pair = A: session_end EA appA okA + B: session_end EB appB okB
  for EA :: "'a env set" and appA and okA and EB :: "'b env set" and appB and okB
begin

lemma step_inv:
  assumes "duplex_step EA appA EB appB d d'" and "duplex_inv okA okB baseA iA gotA baseB iB gotB d"
  shows "duplex_inv okA okB baseA iA gotA baseB iB gotB d'"
proof -
  obtain fA vA nA fB vB nB where sA: "side baseA iA fA vA nA iB fB nB (st_s (end_a d))"
      and sB: "side baseB iB fB vB nB iA fA nA (st_s (end_b d))" and n: "n_ab d = length baseA + nA" "n_ba d = length baseB + nB"
      and got: "got_a d = arrived gotA fB nB" "got_b d = arrived gotB fA nA" and ok: "okA (got_a d) (end_a d)" "okB (got_b d) (end_b d)"
    using assms(2) unfolding duplex_inv_def by blast
  have le: "nA \<le> length fA" "nB \<le> length fB" using sA sB by (simp_all add: side_def)
  from assms(1) show ?thesis
  proof cases
    case (own_a a)
    obtain gs where "okA (got_a d) a" "side baseA iA (fA @ gs) vA nA iB fB nB (st_s a)" "side baseB iB fB vB nB iA (fA @ gs) nA (st_s (end_b d))"
      using A.own_side [OF own_a(2) ok(1) sA sB] by blast
    then show ?thesis using n got ok(2) le by (intro duplex_invI [of baseA iA "fA @ gs" vA nA iB fB nB _ baseB vB]) (simp_all add: own_a(1) arrived_append)
  next
    case (own_b b)
    obtain gs where "okB (got_b d) b" "side baseB iB (fB @ gs) vB nB iA fA nA (st_s b)" "side baseA iA fA vA nA iB (fB @ gs) nB (st_s (end_a d))"
      using B.own_side [OF own_b(2) ok(2) sB sA] by blast
    then show ?thesis using n got ok(1) le by (intro duplex_invI [of baseA iA fA vA nA iB "fB @ gs" nB _ baseB vB]) (simp_all add: own_b(1) arrived_append)
  next
    case (recv_a e f a)
    note next_f = side_next [OF sB n(2) recv_a(3)]
    obtain gs where gs: "okA (got_a d @ map b_data (infos [fB ! nB])) a" "side baseA iA (fA @ gs) (ack_of vA (fB ! nB)) nA iB fB (Suc nB) (st_s a)"
        "side baseB iB fB vB (Suc nB) iA (fA @ gs) nA (st_s (end_b d))"
      using A.recv_side [OF recv_a(2) ok(1) next_f(1) sA sB] recv_a(4,5) unfolding receives_def next_f(2) by auto
    then show ?thesis using n got ok(2) le next_f(3) arrived_next [OF next_f(1)]
      by (intro duplex_invI [of baseA iA "fA @ gs" "ack_of vA (fB ! nB)" nA iB fB "Suc nB" _ baseB vB]) (simp_all add: recv_a(1,4) arrived_append)
  next
    case (recv_b e f b)
    note next_f = side_next [OF sA n(1) recv_b(3)]
    obtain gs where gs: "okB (got_b d @ map b_data (infos [fA ! nA])) b" "side baseB iB (fB @ gs) (ack_of vB (fA ! nA)) nB iA fA (Suc nA) (st_s b)"
        "side baseA iA fA vA (Suc nA) iB (fB @ gs) nB (st_s (end_a d))"
      using B.recv_side [OF recv_b(2) ok(2) next_f(1) sB sA] recv_b(4,5) unfolding receives_def next_f(2) by auto
    then show ?thesis using n got ok(1) le next_f(3) arrived_next [OF next_f(1)]
      by (intro duplex_invI [of baseA iA fA vA "Suc nA" iB "fB @ gs" nB _ baseB "ack_of vB (fA ! nA)"]) (simp_all add: recv_b(1,4) arrived_append)
  qed
qed

lemma reach_inv:
  assumes "(duplex_step EA appA EB appB)\<^sup>*\<^sup>* d d'" and "duplex_inv okA okB baseA iA gotA baseB iB gotB d"
  shows "duplex_inv okA okB baseA iA gotA baseB iB gotB d'"
  using assms by (induction rule: rtranclp_induct) (blast intro: step_inv)+

text \<open>Whatever either end has written, the other accepts the next frame of it.\<close>

lemma accepts:
  assumes "duplex_inv okA okB baseA iA gotA baseB iB gotB d"
  shows "e \<in> EA \<Longrightarrow> n_ba d < length (tx (st_s (end_b d))) \<Longrightarrow>
      \<exists>a. receives e (tx (st_s (end_b d)) ! n_ba d) (end_a d) a \<and> \<not> s_freed (st_s a)"
    and "e' \<in> EB \<Longrightarrow> n_ab d < length (tx (st_s (end_a d))) \<Longrightarrow>
      \<exists>b. receives e' (tx (st_s (end_a d)) ! n_ab d) (end_b d) b \<and> \<not> s_freed (st_s b)"
proof -
  obtain fA vA nA fB vB nB where sA: "side baseA iA fA vA nA iB fB nB (st_s (end_a d))"
      and sB: "side baseB iB fB vB nB iA fA nA (st_s (end_b d))" and n: "n_ab d = length baseA + nA" "n_ba d = length baseB + nB"
      and ok: "okA (got_a d) (end_a d)" "okB (got_b d) (end_b d)"
    using assms unfolding duplex_inv_def by blast
  show "\<exists>a. receives e (tx (st_s (end_b d)) ! n_ba d) (end_a d) a \<and> \<not> s_freed (st_s a)"
    if "e \<in> EA" "n_ba d < length (tx (st_s (end_b d)))"
    using side_next [OF sB n(2) that(2)] A.recv_side [OF that(1) ok(1) _ sA sB] by metis
  show "\<exists>b. receives e' (tx (st_s (end_a d)) ! n_ab d) (end_b d) b \<and> \<not> s_freed (st_s b)"
    if "e' \<in> EB" "n_ab d < length (tx (st_s (end_a d)))"
    using side_next [OF sA n(1) that(2)] B.recv_side [OF that(1) ok(2) _ sB sA] by metis
qed

text \<open>From two ends in step on, every order of events keeps the payloads of both directions in order.\<close>

lemma in_order:
  assumes "in_step d" and "okA (got_a d) (end_a d)" and "okB (got_b d) (end_b d)" and "(duplex_step EA appA EB appB)\<^sup>*\<^sup>* d d'"
  shows "\<exists>rest. got_b d @ concat (map payload (drop (length (tx (st_s (end_a d)))) (tx (st_s (end_a d'))))) = got_b d' @ rest
      \<and> int (length rest) \<le> uint (s_k (st_s (end_a d')))"
    and "\<exists>rest. got_a d @ concat (map payload (drop (length (tx (st_s (end_b d)))) (tx (st_s (end_b d'))))) = got_a d' @ rest
      \<and> int (length rest) \<le> uint (s_k (st_s (end_b d')))"
    and "okA (got_a d') (end_a d')" and "okB (got_b d') (end_b d')"
proof -
  let ?i = "\<lambda>s. unat (s_vs (st_s s))"
  have "duplex_inv okA okB (tx (st_s (end_a d))) (?i (end_a d)) (got_a d) (tx (st_s (end_b d))) (?i (end_b d)) (got_b d) d'"
    using reach_inv [OF assms(4) in_step_inv] assms(1-3) by blast
  then obtain fA vA nA fB vB nB where sA: "side (tx (st_s (end_a d))) (?i (end_a d)) fA vA nA (?i (end_b d)) fB nB (st_s (end_a d'))"
      and sB: "side (tx (st_s (end_b d))) (?i (end_b d)) fB vB nB (?i (end_a d)) fA nA (st_s (end_b d'))"
      and got: "got_a d' = arrived (got_a d) fB nB" "got_b d' = arrived (got_b d) fA nA"
      and ok: "okA (got_a d') (end_a d')" "okB (got_b d') (end_b d')"
    unfolding duplex_inv_def by blast
  show "\<exists>rest. got_b d @ concat (map payload (drop (length (tx (st_s (end_a d)))) (tx (st_s (end_a d'))))) = got_b d' @ rest
      \<and> int (length rest) \<le> uint (s_k (st_s (end_a d')))" unfolding got using side_payloads [OF sA] .
  show "\<exists>rest. got_a d @ concat (map payload (drop (length (tx (st_s (end_b d)))) (tx (st_s (end_b d'))))) = got_a d' @ rest
      \<and> int (length rest) \<le> uint (s_k (st_s (end_b d')))" unfolding got using side_payloads [OF sB] .
  show "okA (got_a d') (end_a d')" "okB (got_b d') (end_b d')" using ok by simp_all
qed

lemma never_refuses:
  assumes "in_step d" and "okA (got_a d) (end_a d)" and "okB (got_b d) (end_b d)" and "(duplex_step EA appA EB appB)\<^sup>*\<^sup>* d d'"
  shows "e \<in> EA \<Longrightarrow> n_ba d' < length (tx (st_s (end_b d'))) \<Longrightarrow>
      \<exists>a. receives e (tx (st_s (end_b d')) ! n_ba d') (end_a d') a \<and> \<not> s_freed (st_s a)"
    and "e' \<in> EB \<Longrightarrow> n_ab d' < length (tx (st_s (end_a d'))) \<Longrightarrow>
      \<exists>b. receives e' (tx (st_s (end_a d')) ! n_ab d') (end_b d') b \<and> \<not> s_freed (st_s b)"
proof -
  have "duplex_inv okA okB (tx (st_s (end_a d))) (unat (s_vs (st_s (end_a d)))) (got_a d)
      (tx (st_s (end_b d))) (unat (s_vs (st_s (end_b d)))) (got_b d) d'"
    using reach_inv [OF assms(4) in_step_inv] assms(1-3) by blast
  from accepts [OF this] show "e \<in> EA \<Longrightarrow> n_ba d' < length (tx (st_s (end_b d'))) \<Longrightarrow>
      \<exists>a. receives e (tx (st_s (end_b d')) ! n_ba d') (end_a d') a \<and> \<not> s_freed (st_s a)"
    and "e' \<in> EB \<Longrightarrow> n_ab d' < length (tx (st_s (end_a d'))) \<Longrightarrow>
      \<exists>b. receives e' (tx (st_s (end_a d')) ! n_ab d') (end_b d') b \<and> \<not> s_freed (st_s b)" by blast+
qed

end

end
