(* ===== verification/IecEnds.thy ===== *)
theory IecEnds
  imports IecPair
begin

text \<open>
  The client of \<open>src/ieclink/ieclink.c\<close> and the hooks of \<open>src/ieclink/server.c\<close> keep the contract of a
  running end: they only send, and what the client prints is what it has been handed.  The connections the
  server itself accepts are those of a master, with which the client does not start data
  transfer; the end with its hooks stands for a station on this link layer that data transfer runs with.
\<close>

section \<open>What the client has printed\<close>

fun text_lines :: "string \<Rightarrow> string \<Rightarrow> string list" where
  "text_lines acc [] = []"
| "text_lines acc (c # cs) = (if c = CHR 0x0A then acc # text_lines [] cs else text_lines (acc @ [c]) cs)"

text \<open>The ASDUs in what the client has printed: all lines but those that report its state.\<close>

definition report :: "string \<Rightarrow> bool" where
  "report line \<longleftrightarrow> line = ''<'' \<or> line = ''+'' \<or> line = ''-''"

definition printed :: "string \<Rightarrow> u8 list list" where
  "printed str = map (\<lambda>line. fst (parse_pairs [] (octets line))) (filter (\<lambda>line. \<not> report line) (text_lines [] str))"

definition complete :: "string \<Rightarrow> bool" where
  "complete str \<longleftrightarrow> str = [] \<or> last str = CHR 0x0A"

lemma text_lines_append: "text_lines acc (xs @ [CHR 0x0A] @ ys) = text_lines acc (xs @ [CHR 0x0A]) @ text_lines [] ys"
  by (induction xs arbitrary: acc) auto

lemma text_lines_one: "CHR 0x0A \<notin> set line \<Longrightarrow> text_lines acc (line @ [CHR 0x0A]) = [acc @ line]"
  by (induction line arbitrary: acc) auto

lemma printed_line:
  assumes "complete str" and "CHR 0x0A \<notin> set line"
  shows "complete (str @ line @ NL)"
    and "printed (str @ line @ NL) = printed str @ (if report line then [] else [fst (parse_pairs [] (octets line))])"
proof -
  show "complete (str @ line @ NL)" by (simp add: complete_def NL_def)
  have "text_lines [] (str @ line @ NL) = text_lines [] str @ [line]"
  proof (cases "str = []")
    case True
    then show ?thesis using text_lines_one [OF assms(2), of "[]"] by (simp add: NL_def)
  next
    case False
    then obtain xs where "str = xs @ [CHR 0x0A]" using assms(1) append_butlast_last_id [of str] by (metis complete_def)
    then show ?thesis using text_lines_append [of "[]" xs "line @ NL"] text_lines_one [OF assms(2), of "[]"] by (simp add: NL_def)
  qed
  then show "printed (str @ line @ NL) = printed str @ (if report line then [] else [fst (parse_pairs [] (octets line))])"
    by (simp add: printed_def)
qed

lemma printed_asdu:
  assumes "complete str" and "length xs \<le> IEC104_ASDU_MAX"
  shows "complete (str @ concat (map fmt_02X xs) @ NL)" and "printed (str @ concat (map fmt_02X xs) @ NL) = printed str @ [xs]"
proof -
  let ?line = "concat (map fmt_02X xs)"
  have "of_char (CHR 0x0A) \<notin> set (octets ?line)" using fmt_not_nl [of _ xs] by auto
  then have nl: "CHR 0x0A \<notin> set ?line" unfolding octets_def set_map by blast
  have "length ?line = 2 * length xs" by (induction xs) (simp_all add: fmt_02X_def)
  then have "\<not> report ?line" by (auto simp: report_def)
  moreover have "parse_pairs [] (octets ?line) = (xs, [])" using parse_fmt [of "[]" xs "[]"] assms(2) by simp
  ultimately show "complete (str @ ?line @ NL)" "printed (str @ ?line @ NL) = printed str @ [xs]"
    using printed_line [OF assms(1) nl] by simp_all
qed

section \<open>The saved list in every state\<close>

text \<open>The tail pointer points at the end of the list, at its head, or at a node that has been freed.\<close>

definition saved :: "lk \<Rightarrow> (addr \<times> u8 list) list \<Rightarrow> bool" where
  "saved g xs \<longleftrightarrow> chain (g_nodes g) (g_asdulist g) xs \<and> distinct (map fst xs)
     \<and> (\<forall>(a, bytes) \<in> set xs. length bytes \<le> IEC104_ASDU_MAX) \<and> (\<forall>a \<in> fst ` set (g_nodes g). a < g_brk g)
     \<and> (case g_asdulistlast g of ListHead \<Rightarrow> xs = []
        | NextOf a \<Rightarrow> if xs = [] then a < g_brk g \<and> map_of (g_nodes g) a = None else a = fst (last xs))"

lemma saved_list_ok:
  assumes "saved g xs"
  shows "list_ok g xs \<or> xs = [] \<and> (\<exists>a. g_asdulistlast g = NextOf a \<and> a < g_brk g \<and> map_of (g_nodes g) a = None)"
  using assms by (cases "g_asdulistlast g") (auto simp: saved_def list_ok_def split: if_splits)

lemma saved_append:
  assumes s: "saved g xs" and len: "length bytes \<le> IEC104_ASDU_MAX" and a: "asdulist_append mem bytes g = Inr g'"
  shows "saved g' (xs @ [(g_brk g, bytes)])" and "g_asdubuf g' = g_asdubuf g" and "g_stdout g' = g_stdout g"
proof -
  have mem: "mem" using a by (simp add: asdulist_append_def xmalloc_def split: if_splits)
  have "\<not> (\<exists>a. g_asdulistlast g = NextOf a \<and> a < g_brk g \<and> map_of (g_nodes g) a = None)"
    using a mem by (auto simp: asdulist_append_def xmalloc_def Let_def split: option.splits)
  then have "list_ok g xs" using saved_list_ok [OF s] by blast
  then have g': "list_ok g' (xs @ [(g_brk g, bytes)])" "g_asdubuf g' = g_asdubuf g" "g_stdout g' = g_stdout g"
    using append_law [of g xs bytes] a mem by auto
  then show "saved g' (xs @ [(g_brk g, bytes)])" using s len by (auto simp: saved_def list_ok_def)
  show "g_asdubuf g' = g_asdubuf g" "g_stdout g' = g_stdout g" using g' by simp_all
qed

lemma saved_rest:
  assumes s: "saved g xs" and ch: "chain (g_nodes g') (g_asdulist g') (drop n xs)"
    and nodes: "map_of (g_nodes g') = (\<lambda>a. if a \<in> fst ` set (take n xs) then None else map_of (g_nodes g) a)"
    and g': "g_brk g' = g_brk g" "g_asdulistlast g' = g_asdulistlast g"
  shows "saved g' (drop n xs)"
proof -
  have "fst ` set (g_nodes g') \<subseteq> fst ` set (g_nodes g)"
    unfolding dom_map_of_conv_image_fst [symmetric] nodes by (auto split: if_splits)
  then have brk: "\<forall>a \<in> fst ` set (g_nodes g'). a < g_brk g'" using s unfolding saved_def g' by blast
  have tail: "case g_asdulistlast g' of ListHead \<Rightarrow> drop n xs = []
      | NextOf a \<Rightarrow> if drop n xs = [] then a < g_brk g' \<and> map_of (g_nodes g') a = None else a = fst (last (drop n xs))"
  proof (cases "g_asdulistlast g")
    case (NextOf a)
    show ?thesis
    proof (cases "xs = []")
      case True
      then show ?thesis using s NextOf g' nodes by (simp add: saved_def)
    next
      case False
      then have a: "a = fst (last xs)" "fst (last xs) \<in> fst ` set xs" using s NextOf by (simp_all add: saved_def)
      then have "a < g_brk g" using s chain_dom by (fastforce simp: saved_def)
      moreover have "drop n xs = [] \<Longrightarrow> take n xs = xs" by simp
      ultimately show ?thesis using NextOf a g' nodes by (auto simp: last_drop)
    qed
  qed (use s g' in \<open>simp add: saved_def\<close>)
  have "distinct (map fst (drop n xs))" using s distinct_drop [of "map fst xs" n] by (simp add: saved_def drop_map)
  then show ?thesis using s ch brk tail unfolding saved_def by (auto dest: in_set_dropD)
qed

section \<open>The client as a running end\<close>

definition ieclink_ok :: "u8 list list \<Rightarrow> lk st \<Rightarrow> bool" where
  "ieclink_ok l st \<longleftrightarrow> s_write_q (st_s st) = [] \<and> length (g_asdubuf (st_g st)) \<le> IEC104_ASDU_MAX
     \<and> (\<exists>xs. saved (st_g st) xs) \<and> complete (g_stdout (st_g st)) \<and> printed (g_stdout (st_g st)) = l"

definition running :: "u8 list list \<Rightarrow> u8 list list \<Rightarrow> nat \<Rightarrow> gframe list \<Rightarrow> nat \<Rightarrow> nat \<Rightarrow> bool \<Rightarrow> lk st \<Rightarrow> bool" where
  "running l base i fs va vr tf st \<longleftrightarrow> ieclink_ok l st \<and> s_testfr (st_s st) = tf
     \<and> (\<exists>gs. session base i (fs @ gs) va vr (st_s st) \<and> (\<forall>f. GU f \<notin> set gs) \<and> (\<forall>a \<in> set (acks gs). vr \<le> a))"

lemma running_iff:
  "running l base i fs va vr (s_testfr (st_s st0)) st \<longleftrightarrow> ieclink_ok l st \<and> goes_on base i fs va vr vr st0 st"
  by (auto simp: running_def goes_on_def)

lemma running_cong: "st_s st' = st_s st \<Longrightarrow> st_g st' = st_g st \<Longrightarrow> running l base i fs va vr tf st' = running l base i fs va vr tf st"
  by (simp add: running_def ieclink_ok_def)

lemma session_flowing: "session base i fs va vr s \<Longrightarrow> s_write_q s = [] \<Longrightarrow> flowing s"
  using sessionD(1,3) [of base i fs va vr s] by (auto simp: flowing_def)

lemma running_sent:
  assumes r: "running l base i fs va vr tf st" and same: "same_but_sent (st_s st) s'" and fl: "flowing s'"
    and out: "outstanding s' = outstanding (st_s st) + int (length bs)" and ok: "\<forall>b \<in> set bs. iframe_ok b"
    and tx: "tx s' = tx (st_s st) @ map (\<lambda>j. wire (numbered (uint (s_vs (st_s st)) + int j) (s_vr (st_s st)) (bs ! j))) [0..<length bs]"
    and g: "ieclink_ok l (st\<lparr>st_s := s', st_g := g'\<rparr>)"
  shows "running l base i fs va vr tf (st\<lparr>st_s := s', st_g := g'\<rparr>)"
proof -
  obtain gs where gs: "session base i (fs @ gs) va vr (st_s st)" "\<forall>f. GU f \<notin> set gs" "\<forall>a \<in> set (acks gs). vr \<le> a"
    using r by (auto simp: running_def)
  have "session base i ((fs @ gs) @ map (\<lambda>b. GI b vr) bs) va vr s'"
    using session_sent [OF gs(1) same _ out ok tx] fl by (simp add: flowing_def)
  moreover have "s_testfr s' = tf" using r same_but_sent_fields(14) [OF same] by (simp add: running_def)
  ultimately show ?thesis using g gs(2,3)
    unfolding running_def by (intro conjI exI [of _ "gs @ map (\<lambda>b. GI b vr) bs"]) auto
qed

lemma running_asdu:
  assumes r: "running l base i fs va vr tf st" and "iecsock_can_queue (st_s st) \<noteq> 0" and "length bytes \<le> IEC104_ASDU_MAX"
    and "iec_asdu_send env bytes (st_s st) = Inr s'"
  shows "running l base i fs va vr tf (st\<lparr>st_s := s'\<rparr>)"
proof (cases "e_calloc env")
  case True
  have fl: "flowing (st_s st)" using r session_flowing by (auto simp: running_def ieclink_ok_def)
  then have room: "outstanding (st_s st) < uint (s_k (st_s st))" using assms(2) can_queue_iff by (auto simp: flowing_def)
  have s': "flowing s'" "outstanding s' = outstanding (st_s st) + 1" "same_but_sent (st_s st) s'"
      "tx s' = tx (st_s st) @ [wire (numbered (uint (s_vs (st_s st))) (s_vr (st_s st)) (asdu_buf bytes))]"
    using asdu_send_law [OF fl room True assms(3)] assms(4) by auto
  have "ieclink_ok l (st\<lparr>st_s := s', st_g := st_g st\<rparr>)" using r s'(1) by (simp add: running_def ieclink_ok_def flowing_def)
  then show ?thesis
    using running_sent [OF r s'(3,1), of "[asdu_buf bytes]" "st_g st"] s'(2,4) asdu_buf_ok [of bytes] assms(3)
    by (simp add: IEC104_ASDU_MAX_def)
next
  case False
  then have "st\<lparr>st_s := s'\<rparr> = st" using assms(4) by (cases st) (simp add: iec_asdu_send_def)
  then show ?thesis using r by simp
qed

lemma running_g:
  assumes "running l base i fs va vr tf st" and "length (g_asdubuf g') \<le> IEC104_ASDU_MAX" and "saved g' xs"
    and "g_stdout g' = g_stdout (st_g st)"
  shows "running l base i fs va vr tf (st\<lparr>st_g := g'\<rparr>)"
  using assms by (auto simp: running_def ieclink_ok_def)

lemma saved_frame [simp]:
  "saved (g\<lparr>g_asdubuf := b\<rparr>) xs = saved g xs" "saved (g\<lparr>g_rbuf := r\<rparr>) xs = saved g xs" "saved (g\<lparr>g_endmsg := e\<rparr>) xs = saved g xs"
  "saved (g\<lparr>g_stdout := str\<rparr>) xs = saved g xs"
  by (simp_all add: saved_def split: lastptr.split)

lemma stdin_line_running:
  assumes line: "stdin_line env line st = Inr st'" and r: "running l base i fs va vr tf st"
  shows "running l base i fs va vr tf st'"
proof -
  obtain bytes cp where p: "parse_pairs (g_asdubuf (st_g st)) line = (bytes, cp)" by fastforce
  obtain xs where xs: "saved (st_g st) xs" and len: "length (g_asdubuf (st_g st)) \<le> IEC104_ASDU_MAX"
    using r by (auto simp: running_def ieclink_ok_def)
  have bytes: "length bytes \<le> IEC104_ASDU_MAX" using parse_pairs_length [OF len, of line] p by simp
  let ?g = "(st_g st)\<lparr>g_asdubuf := bytes\<rparr>"
  have r1: "running l base i fs va vr tf (st\<lparr>st_g := ?g\<rparr>)" using running_g [OF r, of ?g xs] bytes xs by simp
  consider (send) s' where "iecsock_can_queue (st_s st) \<noteq> 0" "iec_asdu_send env bytes (st_s st) = Inr s'" "st' = st\<lparr>st_g := ?g, st_s := s'\<rparr>"
    | (save) g' where "asdulist_append (e_calloc env) bytes ?g = Inr g'" "st' = st\<lparr>st_g := g'\<rparr>"
    | (none) "st' = st\<lparr>st_g := ?g\<rparr>"
    using line p by (auto simp: stdin_line_def Let_def elim!: res_bindE split: if_splits)
  then show ?thesis
  proof cases
    case send
    then show ?thesis using running_asdu [OF r1 _ bytes, of env s'] by simp
  next
    case save
    note a = saved_append [OF _ bytes save(1), of xs]
    show ?thesis using running_g [OF r _ a(1)] a(2,3) xs bytes save(2) by simp
  qed (use r1 in simp)
qed

interpretation stdin_run: stdin_kept "running l base i fs va vr tf" for l base i fs va vr tf
proof (rule stdin_kept.intro)
  fix st assume r: "running l base i fs va vr tf st"
  then obtain xs where xs: "saved (st_g st) xs" and len: "length (g_asdubuf (st_g st)) \<le> IEC104_ASDU_MAX"
    by (auto simp: running_def ieclink_ok_def)
  show "running l base i fs va vr tf (st\<lparr>st_g := (st_g st)\<lparr>g_rbuf := b\<rparr>\<rparr>)" for b
    using running_g [OF r, of "(st_g st)\<lparr>g_rbuf := b\<rparr>" xs] xs len by simp
  show "running l base i fs va vr tf (st\<lparr>st_g := (st_g st)\<lparr>g_endmsg := True\<rparr>\<rparr>)"
    using running_g [OF r, of "(st_g st)\<lparr>g_endmsg := True\<rparr>" xs] xs len by simp
  show "running l base i fs va vr tf (st\<lparr>st_g := (st_g st)\<lparr>g_asdubuf := []\<rparr>\<rparr>)"
    using running_g [OF r, of "(st_g st)\<lparr>g_asdubuf := []\<rparr>" xs] xs by simp
  show "running l base i fs va vr tf (on_s (log_call (EvDel USER_EVENT)) st)"
    using r by (simp add: running_def ieclink_ok_def on_s_def)
qed (rule stdin_line_running)

lemma kick_loop_running:
  assumes mem: "e_calloc env" and r: "running l base i fs va vr tf st"
  obtains p ys st1 where "kick_loop env (g_asdulist (st_g st)) st = Inr (p, st1)" "p = None \<longleftrightarrow> ys = []"
    "saved ((st_g st1)\<lparr>g_asdulist := p\<rparr>) ys" "g_stdout (st_g st1) = g_stdout (st_g st)"
    "running l base i fs va vr tf (st1\<lparr>st_g := (st_g st1)\<lparr>g_asdulist := p\<rparr>\<rparr>)"
proof -
  obtain xs where xs: "saved (st_g st) xs" using r by (auto simp: running_def ieclink_ok_def)
  define n where "n = min (length xs) (nat (uint (s_k (st_s st)) - outstanding (st_s st)))"
  let ?p = "if n < length xs then Some (fst (xs ! n)) else None" and ?bs = "map (asdu_buf \<circ> snd) (take n xs)"
  have fl: "flowing (st_s st)" using r session_flowing by (auto simp: running_def ieclink_ok_def)
  have ch: "chain (g_nodes (st_g st)) (g_asdulist (st_g st)) xs" "distinct (map fst xs)"
      "\<forall>(a, bytes) \<in> set xs. length bytes \<le> IEC104_ASDU_MAX" using xs unfolding saved_def by blast+
  have n: "n \<le> length xs" "length ?bs = n" by (simp_all add: n_def)
  obtain st1 where st1: "kick_loop env (g_asdulist (st_g st)) st = Inr (?p, st1)" "flowing (st_s st1)"
      "outstanding (st_s st1) = outstanding (st_s st) + int n" "same_but_sent (st_s st) (st_s st1)"
      "tx (st_s st1) = tx (st_s st) @
        map (\<lambda>i. wire (numbered (uint (s_vs (st_s st)) + int i) (s_vr (st_s st)) (asdu_buf (snd (xs ! i))))) [0..<n]"
      "chain (g_nodes (st_g st1)) ?p (drop n xs)" "st_g st1 = (st_g st)\<lparr>g_nodes := g_nodes (st_g st1)\<rparr>"
      "map_of (g_nodes (st_g st1)) = (\<lambda>a. if a \<in> fst ` set (take n xs) then None else map_of (g_nodes (st_g st)) a)"
    using kick_loop_law [OF fl mem ch n_def] by blast
  let ?g = "(st_g st1)\<lparr>g_asdulist := ?p\<rparr>"
  have g1: "g_brk (st_g st1) = g_brk (st_g st)" "g_asdulistlast (st_g st1) = g_asdulistlast (st_g st)"
      "g_asdubuf (st_g st1) = g_asdubuf (st_g st)" "g_stdout (st_g st1) = g_stdout (st_g st)"
    by (subst st1(7), simp)+
  have rest: "saved ?g (drop n xs)" by (rule saved_rest [OF xs]) (simp_all add: st1(6,8) g1)
  then have "ieclink_ok l (st\<lparr>st_s := st_s st1, st_g := ?g\<rparr>)"
    using r st1(2) g1 by (auto simp: running_def ieclink_ok_def flowing_def)
  moreover have "\<forall>b \<in> set ?bs. iframe_ok b"
    using xs asdu_buf_ok by (fastforce simp: saved_def IEC104_ASDU_MAX_def dest: in_set_takeD)
  moreover have "tx (st_s st1) = tx (st_s st) @
      map (\<lambda>j. wire (numbered (uint (s_vs (st_s st)) + int j) (s_vr (st_s st)) (?bs ! j))) [0..<length ?bs]"
    unfolding n(2) st1(5) using n by simp
  ultimately have "running l base i fs va vr tf (st\<lparr>st_s := st_s st1, st_g := ?g\<rparr>)"
    using running_sent [OF r st1(4,2), of ?bs ?g] st1(3) n(2) by simp
  then have "running l base i fs va vr tf (st1\<lparr>st_g := ?g\<rparr>)"
    using running_cong [of "st1\<lparr>st_g := ?g\<rparr>" "st\<lparr>st_s := st_s st1, st_g := ?g\<rparr>"] by simp
  then show ?thesis using that [OF st1(1) _ rest g1(4)] n(1) by auto
qed

lemma kick_running:
  assumes mem: "e_calloc env" and r: "running l base i fs va vr tf st"
  shows "\<exists>st'. iec_kick_callback env st = Inr st' \<and> running l base i fs va vr tf st'"
proof -
  obtain p ys st1 where st1: "kick_loop env (g_asdulist (st_g st)) st = Inr (p, st1)" "p = None \<longleftrightarrow> ys = []"
      and ys: "saved ((st_g st1)\<lparr>g_asdulist := p\<rparr>) ys" and out: "g_stdout (st_g st1) = g_stdout (st_g st)"
      and r1: "running l base i fs va vr tf (st1\<lparr>st_g := (st_g st1)\<lparr>g_asdulist := p\<rparr>\<rparr>)"
    using kick_loop_running [OF mem r] .
  let ?g = "(st_g st1)\<lparr>g_asdulist := p\<rparr>" and ?s = "log_call (EvAdd USER_EVENT None) (st_s st1)"
  consider (rest) "ys \<noteq> []" | (message) "ys = []" "g_endmsg (st_g st1)" | (idle) "ys = []" "\<not> g_endmsg (st_g st1)" by blast
  then show ?thesis
  proof cases
    case rest
    then obtain a where "p = Some a" using st1(2) by auto
    then show ?thesis using st1(1) r1 by (simp add: iec_kick_callback_def Let_def)
  next
    case message
    let ?st' = "st1\<lparr>st_s := ?s, st_g := ?g\<lparr>g_stdout := g_stdout (st_g st) @ ''<'' @ NL, g_endmsg := False\<rparr>\<rparr>"
    have "iec_kick_callback env st = Inr ?st'"
      using st1 message out by (simp add: iec_kick_callback_def Let_def print_def on_s_def)
    moreover have "complete (g_stdout (st_g st))" "printed (g_stdout (st_g st)) = l"
      using r by (simp_all add: running_def ieclink_ok_def)
    then have "complete (g_stdout (st_g ?st'))" "printed (g_stdout (st_g ?st')) = l"
      using printed_line [of "g_stdout (st_g st)" "''<''"] by (simp_all add: report_def)
    then have "running l base i fs va vr tf ?st'" using r1 ys by (auto simp: running_def ieclink_ok_def)
    ultimately show ?thesis by blast
  next
    case idle
    let ?st' = "st1\<lparr>st_s := ?s, st_g := ?g\<lparr>g_asdulistlast := ListHead\<rparr>\<rparr>"
    have "iec_kick_callback env st = Inr ?st'"
      using st1 idle by (simp add: iec_kick_callback_def Let_def on_s_def)
    moreover have "saved (st_g ?st') []" using ys idle by (simp add: saved_def)
    then have "running l base i fs va vr tf ?st'" using r1 by (auto simp: running_def ieclink_ok_def)
    ultimately show ?thesis by blast
  qed
qed

definition client_envs :: "lk env set" where
  "client_envs = {ieclink_env env | env. reads_all env \<and> e_calloc env}"

interpretation client: session_end client_envs ieclink_app ieclink_ok
proof
  fix env assume "env \<in> client_envs"
  then show "reads_all env \<and> e_calloc env" by (auto simp: client_envs_def ieclink_env_def reads_all_def)
next
  fix l and st st' :: "lk st"
  assume "ieclink_ok l st" "st_g st' = st_g st" "s_write_q (st_s st') = s_write_q (st_s st)"
  then show "ieclink_ok l st'" by (simp add: ieclink_ok_def)
next
  fix env l st base i fs va vr assume env: "env \<in> client_envs" and ok: "ieclink_ok l st" and s: "session base i fs va vr (st_s st)"
  obtain env0 where env0: "env = ieclink_env env0" "e_calloc env0" using env by (auto simp: client_envs_def)
  have "running l base i fs va vr (s_testfr (st_s st)) st" using ok goes_on_refl [OF s] by (simp add: running_iff)
  then have "\<exists>st'. iec_kick_callback env0 st = Inr st' \<and> running l base i fs va vr (s_testfr (st_s st)) st'"
    by (rule kick_running [OF env0(2)])
  then show "\<exists>st'. call_hook (transmit_wakeup (e_hooks env)) (transmit_wakeup (e_default env)) st = Inr st' \<and> ieclink_ok l st'
      \<and> goes_on base i fs va vr vr st st'"
    unfolding env0(1) ieclink_calls running_iff .
next
  fix env l st base i fs va vr and b :: iec_buf
  assume env: "env \<in> client_envs" and ok: "ieclink_ok l st" and s: "session base i fs va vr (st_s st)"
    and b: "unat (b_data_len b) = length (b_data b)" "length (b_data b) \<le> 249"
  obtain env0 where env0: "env = ieclink_env env0" using env by (auto simp: client_envs_def)
  have "goes_on base i fs va vr vr st (print str st)" for str using goes_on_refl [OF s] by (simp add: goes_on_def print_def)
  moreover have "ieclink_ok (l @ [b_data b]) (print (concat (map fmt_02X (b_data b)) @ NL) st)"
    using ok b printed_asdu [of "g_stdout (st_g st)" "b_data b"] by (auto simp: ieclink_ok_def print_def IEC104_ASDU_MAX_def)
  ultimately show "\<exists>st'. call_hook (map_option (\<lambda>f. f b) (data_indication (e_hooks env)))
      (map_option (\<lambda>f. f b) (data_indication (e_default env))) st = Inr st' \<and> ieclink_ok (l @ [b_data b]) st'
      \<and> goes_on base i fs va vr vr st st'"
    unfolding env0(1) ieclink_calls using b by (simp add: data_received_hook_def)
next
  fix f l st base i fs va vr st'
  assume f: "f \<in> ieclink_app" "f st = Inr st'" and ok: "ieclink_ok l st" and s: "session base i fs va vr (st_s st)"
  have "running l base i fs va vr (s_testfr (st_s st)) st" using ok goes_on_refl [OF s] by (simp add: running_iff)
  then have "running l base i fs va vr (s_testfr (st_s st)) st'"
    using f by (auto simp: ieclink_app_def elim!: res_bindE dest: stdin_run.read_kept)
  then show "ieclink_ok l st' \<and> goes_on base i fs va vr vr st st'" by (simp add: running_iff)
qed

section \<open>The server's hooks on a running end\<close>

definition station_envs :: "unit env set" where
  "station_envs = {server_env env | env. reads_all env \<and> e_calloc env}"

lemma timer_send_session:
  assumes s: "session base i fs va vr (st_s st)" and t: "timer_send_frame env st = Inr st'"
  shows "goes_on base i fs va vr vr st st'"
proof (cases "e_calloc env")
  case True
  let ?b = "asdu_buf [0x61, 0x63, 0x74]" and ?s = "st_s st"
  have "session base i fs va vr (?s\<lparr>s_write_q := s_write_q ?s @ [?b]\<rparr>)"
    using session_queue [OF s] asdu_buf_ok [of "[0x61, 0x63, 0x74]"] by simp
  then obtain s' bs where s': "iecsock_run_write_queue env (?s\<lparr>s_write_q := s_write_q ?s @ [?b]\<rparr>) = Inr s'"
      "session base i (fs @ map (\<lambda>b. GI b vr) bs) va vr s'" "same_but_sent (?s\<lparr>s_write_q := s_write_q ?s @ [?b]\<rparr>) s'"
    using session_run by blast
  have "st' = st\<lparr>st_s := s'\<rparr>" using t True s'(1) by (simp add: timer_send_frame_def Let_def asdu_buf_def)
  moreover have "s_testfr s' = s_testfr ?s" using same_but_sent_fields(14) [OF s'(3)] by simp
  ultimately show ?thesis using s'(2)
    unfolding goes_on_def by (intro conjI exI [of _ "map (\<lambda>b. GI b vr) bs"]) auto
next
  case False
  then show ?thesis using t goes_on_refl [OF s] by (simp add: timer_send_frame_def)
qed

interpretation station: session_end station_envs server_app "\<lambda>l st. True"
proof
  fix env assume "env \<in> station_envs"
  then show "reads_all env \<and> e_calloc env" by (auto simp: station_envs_def server_env_def reads_all_def)
qed (auto simp: station_envs_def server_calls server_app_def dest: timer_send_session intro: goes_on_refl)

interpretation gateway_link: duplex_pair client_envs ieclink_app ieclink_ok station_envs server_app "\<lambda>l st. True" ..

section \<open>Properties\<close>

text \<open>
  C1. The client and a station on the same link layer, both sending: from any moment at which data transfer
  runs and nothing is on the way, whatever the order in which programs, timers and read callbacks run
  (a connection that T1 or the peer ends, and a second test before the first is answered, apart), the
  payloads that have arrived are those that were sent, in order and each once; what is still on the way
  fits the window, and what the client has printed is exactly what the station has sent it.
\<close>

theorem link_delivers_in_order:
  assumes "in_step d" and "ieclink_ok (got_a d) (end_a d)"
    and "(duplex_step client_envs ieclink_app station_envs server_app)\<^sup>*\<^sup>* d d'"
  shows "(\<exists>rest. got_b d @ concat (map payload (drop (length (tx (st_s (end_a d)))) (tx (st_s (end_a d'))))) = got_b d' @ rest
      \<and> int (length rest) \<le> uint (s_k (st_s (end_a d'))))
    \<and> (\<exists>rest. printed (g_stdout (st_g (end_a d))) @ concat (map payload (drop (length (tx (st_s (end_b d)))) (tx (st_s (end_b d')))))
        = printed (g_stdout (st_g (end_a d'))) @ rest \<and> int (length rest) \<le> uint (s_k (st_s (end_b d'))))"
proof -
  note o = gateway_link.in_order [OF assms(1,2) TrueI assms(3)]
  have "printed (g_stdout (st_g (end_a d))) = got_a d" "printed (g_stdout (st_g (end_a d'))) = got_a d'"
    using assms(2) o(3) by (simp_all add: ieclink_ok_def)
  then show ?thesis using o(1,2) by simp
qed

text \<open>The ends of a connection on which data transfer has just been started.\<close>

definition link_start :: "(lk, unit) duplex" where
  "link_start = \<lparr>end_a = \<lparr>st_s = (fresh [])\<lparr>s_type := IEC_MASTER\<rparr>, st_new = [], st_g = lk_init\<rparr>,
     end_b = \<lparr>st_s = fresh [], st_new = [], st_g = ()\<rparr>, n_ab = 0, n_ba = 0, got_a = [], got_b = []\<rparr>"

lemma link_start_facts: "in_step link_start" "ieclink_ok (got_a link_start) (end_a link_start)"
proof -
  have f: "listening (fresh [])" "tx (fresh []) = []" "flowing (fresh [])" using fresh_wf [of "[]"] by (simp_all add: fresh_window flowing_def)
  have "listening ((fresh [])\<lparr>s_type := IEC_MASTER\<rparr>)" "tx ((fresh [])\<lparr>s_type := IEC_MASTER\<rparr>) = []"
    using f by (simp_all add: listening_def rx_ready_def wf_win_def outstanding_def unacked_def tx_def)
  then show "in_step link_start" using f by (simp add: in_step_def quiet_end_def link_start_def)
  show "ieclink_ok (got_a link_start) (end_a link_start)"
    by (simp add: ieclink_ok_def link_start_def saved_def lk_init_def complete_def printed_def IEC104_ASDU_MAX_def)
qed

text \<open>The server's timer has run once.\<close>

lemma link_start_timer:
  obtains d where "duplex_step client_envs ieclink_app station_envs server_app link_start d" "end_a d = end_a link_start"
    "tx (st_s (end_b d)) = [wire (numbered 0 0 (asdu_buf [0x61, 0x63, 0x74]))]" "n_ba d = 0" "got_a d = []"
proof -
  let ?env = "server_env (plain_env quiet_hooks)"
  have fl: "flowing (fresh [])" "outstanding (fresh []) < uint (s_k (fresh []))" "e_calloc ?env"
    using fresh_wf [of "[]"] by (simp_all add: flowing_def fresh_window server_env_def plain_env_def)
  obtain s where s: "iec_asdu_send ?env [0x61, 0x63, 0x74] (fresh []) = Inr s" "tx s = [wire (numbered 0 0 (asdu_buf [0x61, 0x63, 0x74]))]"
    using asdu_send_law [OF fl, of "[0x61, 0x63, 0x74]"] by (auto simp: IEC104_ASDU_MAX_def fresh_window)
  have "timer_send_frame ?env (end_b link_start) = Inr ((end_b link_start)\<lparr>st_s := s\<rparr>)"
    using s(1) fl(3) by (simp add: timer_send_frame_def iec_asdu_send_def Let_def link_start_def)
  then have "duplex_step client_envs ieclink_app station_envs server_app link_start (link_start\<lparr>end_b := (end_b link_start)\<lparr>st_s := s\<rparr>\<rparr>)"
    by (intro duplex_step.own_b own_step.own_app [of "timer_send_frame ?env"]) (auto simp: server_app_def)
  then show ?thesis using that s(2) by (auto simp: link_start_def)
qed

theorem link_delivers_in_order_witness:
  "\<exists>d. (duplex_step client_envs ieclink_app station_envs server_app)\<^sup>*\<^sup>* link_start d
    \<and> (\<exists>rest. [[0x61, 0x63, 0x74]] = printed (g_stdout (st_g (end_a d))) @ rest \<and> int (length rest) \<le> uint (s_k (st_s (end_b d))))"
proof -
  obtain d where d: "duplex_step client_envs ieclink_app station_envs server_app link_start d"
      "tx (st_s (end_b d)) = [wire (numbered 0 0 (asdu_buf [0x61, 0x63, 0x74]))]"
    using link_start_timer by blast
  have "iframe_ok (asdu_buf [0x61, 0x63, 0x74])" "b_data (asdu_buf [0x61, 0x63, 0x74]) = [0x61, 0x63, 0x74]"
    using asdu_buf_ok [of "[0x61, 0x63, 0x74]"] by simp_all
  moreover have "num 0 = 0" by (simp add: num_def)
  ultimately have "payload (wire (numbered 0 0 (asdu_buf [0x61, 0x63, 0x74]))) = [[0x61, 0x63, 0x74]]"
    using payload_octets [of "GI (asdu_buf [0x61, 0x63, 0x74]) 0" 0] by simp
  moreover have "tx (st_s (end_b link_start)) = []" "g_stdout (st_g (end_a link_start)) = []"
    by (simp_all add: link_start_def lk_init_def fresh_window)
  ultimately show ?thesis
    using link_delivers_in_order [OF link_start_facts r_into_rtranclp [of _ link_start d]] d
    by (intro exI [of _ d]) (auto simp: printed_def)
qed



end
