(* ===== verification/SyslogClient.thy ===== *)
theory SyslogClient
  imports Prelude
begin

text \<open>
  The log forwarder of \<open>src/quemngr/syslogclient/syslogclient.c\<close>: it sends each line of a FIFO
  to a log server over a connection of its own, and keeps lines it cannot send in a ring of 50
  slots.  The \<open>short\<close> indices of the ring stay far below their limits and are naturals; an index
  past the array is the fault \<open>OutOfBounds\<close>.  Answers of the operating system are arguments.
\<close>

section \<open>The ring buffer\<close>

definition SIZERINGBUF :: nat where "SIZERINGBUF = 50"
definition MAXBUF :: nat where "MAXBUF = 2048"

record ringbuf =
  r_msg :: "string option list"
  r_head :: nat
  r_tail :: nat
  r_size :: int


definition ring_next :: "nat \<Rightarrow> nat" where
  "ring_next i = (if SIZERINGBUF \<le> i + 1 then 0 else i + 1)"

definition pushmsg :: "ringbuf \<Rightarrow> string \<Rightarrow> ringbuf res" where
  "pushmsg st msg =
     (let next = ring_next (r_head st)
      in res_bind
           (if next = r_tail st then
              if length (r_msg st) \<le> r_tail st then Inl OutOfBounds
              else Inr (st\<lparr>r_msg := (r_msg st)[r_tail st := None], r_tail := r_tail st + 1, r_size := r_size st - 1\<rparr>)
            else Inr st) (\<lambda>st.
         if length (r_msg st) \<le> r_head st then Inl OutOfBounds
         else Inr (st\<lparr>r_msg := (r_msg st)[r_head st := Some (cstr msg)], r_head := next, r_size := r_size st + 1\<rparr>)))"

definition readtail :: "ringbuf \<Rightarrow> string option res" where
  "readtail st =
     (if r_head st = r_tail st then Inr None
      else if length (r_msg st) \<le> r_tail st then Inl OutOfBounds
      else Inr (r_msg st ! r_tail st))"

definition deltail :: "ringbuf \<Rightarrow> (int \<times> ringbuf) res" where
  "deltail st =
     (if r_head st = r_tail st then Inr (-1, st)
      else if length (r_msg st) \<le> r_tail st then Inl OutOfBounds
      else Inr (0, st\<lparr>r_msg := (r_msg st)[r_tail st := None], r_tail := ring_next (r_tail st),
                     r_size := r_size st - 1\<rparr>))"

section \<open>Connecting with a timeout\<close>

text \<open>Answers of the calls of one connection attempt.\<close>

record cn_env =
  cn_connect :: int
  cn_einprogress :: bool
  cn_poll :: int
  cn_eintr :: bool
  cn_ready :: bool
  cn_getsockopt :: int
  cn_so_error :: int

text \<open>The result, and whether the socket is left in non-blocking mode.\<close>

definition connectnb :: "cn_env \<Rightarrow> bool \<Rightarrow> int \<times> bool" where
  "connectnb cn nonblock =
     (if cn_connect cn < 0 \<and> \<not> cn_einprogress cn then (-1, True)
      else if cn_connect cn = 0 then (0, nonblock)
      else if cn_poll cn = 0 then (-1, True)
      else if cn_poll cn < 0 \<and> \<not> cn_eintr cn then (-1, True)
      else if cn_ready cn \<and> cn_getsockopt cn < 0 then (-1, True)
      else (0, nonblock))"

section \<open>Forwarding a line\<close>

text \<open>
  The state of the forwarder: its ring, what reached the log server, and how many writes it has
  tried.  The \<open>i\<close>-th write succeeds when \<open>wr i\<close>.
\<close>

record fwd =
  f_store :: ringbuf
  f_sent :: "string list"
  f_tries :: nat

definition try_write :: "(nat \<Rightarrow> bool) \<Rightarrow> string \<Rightarrow> fwd \<Rightarrow> bool \<times> fwd" where
  "try_write wr msg f =
     (if wr (f_tries f) then (True, f\<lparr>f_sent := f_sent f @ [msg], f_tries := f_tries f + 1\<rparr>)
      else (False, f\<lparr>f_tries := f_tries f + 1\<rparr>))"

text \<open>The loop that sends what is stored, until it is empty or a write fails.\<close>

function drain_store :: "(nat \<Rightarrow> bool) \<Rightarrow> fwd \<Rightarrow> fwd res" where
  "drain_store wr f =
     (if 0 < r_size (f_store f) then
        (case readtail (f_store f) of
           Inl e \<Rightarrow> Inl e
         | Inr None \<Rightarrow> Inl NullDeref
         | Inr (Some message) \<Rightarrow>
             (case try_write wr message f of
                (False, f) \<Rightarrow> Inr f
              | (True, f) \<Rightarrow>
                  (case deltail (f_store f) of
                     Inl e \<Rightarrow> Inl e
                   | Inr (r, store) \<Rightarrow> drain_store wr (f\<lparr>f_store := store\<rparr>))))
      else Inr f)"
  by pat_completeness auto
termination
  by (relation "measure (\<lambda>(wr, f). nat (r_size (f_store f)))")
    (auto simp: readtail_def deltail_def try_write_def split: if_splits)

declare drain_store.simps [simp del]

definition forward_line :: "cn_env \<Rightarrow> (nat \<Rightarrow> bool) \<Rightarrow> string \<Rightarrow> fwd \<Rightarrow> fwd res" where
  "forward_line cn wr buf f =
     (if fst (connectnb cn False) < 0
      then res_bind (pushmsg (f_store f) buf) (\<lambda>store. Inr (f\<lparr>f_store := store\<rparr>))
      else
        res_bind (drain_store wr f) (\<lambda>f.
          case try_write wr (cstr buf) f of
            (True, f) \<Rightarrow> Inr f
          | (False, f) \<Rightarrow> res_bind (pushmsg (f_store f) buf) (\<lambda>store. Inr (f\<lparr>f_store := store\<rparr>))))"

text \<open>\<open>fgets(buf, MAXBUF, logstream)\<close>: up to a newline or 2047 characters; \<open>None\<close> at the end.\<close>

definition fgets :: "string \<Rightarrow> (string \<times> string) option" where
  "fgets input = fgets_n MAXBUF input"

lemma fgets_shorter: "fgets input = Some (line, rest) \<Longrightarrow> length rest < length input"
  using fgets_n_shorter [of MAXBUF] by (simp add: fgets_def MAXBUF_def)

text \<open>
  One turn of the main loop on the input that is there; connection attempt \<open>i\<close> is answered by
  \<open>cns i\<close>.
\<close>

function forward_lines :: "(nat \<Rightarrow> cn_env) \<Rightarrow> (nat \<Rightarrow> bool) \<Rightarrow> nat \<Rightarrow> string \<Rightarrow> fwd \<Rightarrow> fwd res" where
  "forward_lines cns wr i input f =
     (case fgets input of
        None \<Rightarrow> Inr f
      | Some (line, rest) \<Rightarrow>
          (case forward_line (cns i) wr line f of
             Inl e \<Rightarrow> Inl e
           | Inr f \<Rightarrow> forward_lines cns wr (i + 1) rest f))"
  by pat_completeness auto
termination
  by (relation "measure (\<lambda>(cns, wr, i, input, f). length input)") (auto dest: fgets_shorter)

declare forward_lines.simps [simp del]

definition syslog_turn ::
  "int \<Rightarrow> bool \<Rightarrow> bool \<Rightarrow> (nat \<Rightarrow> cn_env) \<Rightarrow> (nat \<Rightarrow> bool) \<Rightarrow> string \<Rightarrow> fwd \<Rightarrow> fwd res" where
  "syslog_turn ret eintr pollin cns wr input f =
     (if ret < 0 \<and> \<not> eintr then Inr f
      else if pollin then forward_lines cns wr 0 input f
      else Inr f)"

text \<open>
  The start of the program: \<open>opts\<close> the options \<open>getopt\<close> finds with their arguments, then the
  FIFO that must open for reading and writing.  The result is the address of the log server.
\<close>

record log_opts =
  lo_usock :: "string option"
  lo_servaddr :: "string option"
  lo_port :: "string option"

fun log_opt :: "log_opts \<Rightarrow> char \<times> string \<Rightarrow> log_opts" where
  "log_opt o1 (c, arg) =
     (if c = CHR ''u'' then o1\<lparr>lo_usock := Some arg\<rparr>
      else if c = CHR ''n'' then o1\<lparr>lo_servaddr := Some arg\<rparr>
      else if c = CHR ''p'' then o1\<lparr>lo_port := Some arg\<rparr>
      else o1)"

definition syslog_main ::
  "(string \<Rightarrow> u32 option) \<Rightarrow> string option \<Rightarrow> int \<Rightarrow> int \<Rightarrow> bool \<Rightarrow> (char \<times> string) list
    \<Rightarrow> (u16 \<times> u32 option) option res" where
  "syslog_main pton fifolog logrfd logwfd fdopen opts =
     (let o1 = foldl log_opt \<lparr>lo_usock = None, lo_servaddr = None, lo_port = None\<rparr> opts
      in if fifolog = None then Inl (Exit 1)
         else if logrfd < 0 then Inl (Exit 1)
         else if logwfd < 0 then Inl (Exit 1)
         else if \<not> fdopen then Inl (Exit 1)
         else (case (lo_servaddr o1, lo_port o1) of
                 (Some servaddr, Some port) \<Rightarrow> Inr (Some (htons (word_of_int (atoi port)), pton servaddr))
               | _ \<Rightarrow> Inr None))"

section \<open>The ring as a bounded queue\<close>

definition ring_slot :: "ringbuf \<Rightarrow> nat \<Rightarrow> nat" where
  "ring_slot st i = (r_tail st + i) mod 50"

definition ring_count :: "ringbuf \<Rightarrow> nat" where
  "ring_count st = (r_head st + 50 - r_tail st) mod 50"


definition wf_ring :: "ringbuf \<Rightarrow> bool" where
  "wf_ring st \<longleftrightarrow> length (r_msg st) = 50 \<and> r_head st < 50 \<and> r_tail st < 50 \<and> r_size st = int (ring_count st)
     \<and> (\<forall>i < ring_count st. r_msg st ! ring_slot st i \<noteq> None)"


lemma ring_slot_lt [simp]: "ring_slot st i < 50"
  by (simp add: ring_slot_def)

lemma mod_inj_50: "(t + i) mod 50 = (t + j) mod (50 :: nat) \<Longrightarrow> i < 50 \<Longrightarrow> j < 50 \<Longrightarrow> i = j"
proof -
  assume eq: "(t + i) mod 50 = (t + j) mod 50" and lt: "i < 50" "j < 50"
  have "(int t + int i) mod 50 = (int t + int j) mod 50"
    using arg_cong [OF eq, of int] by (simp add: zmod_int)
  then have "(int t + int i - int t) mod 50 = (int t + int j - int t) mod 50" by (rule mod_diff_cong) simp
  then show "i = j" using lt by simp
qed

lemma ring_slot_inj: "ring_slot st i = ring_slot st j \<Longrightarrow> i < 50 \<Longrightarrow> j < 50 \<Longrightarrow> i = j"
  unfolding ring_slot_def by (rule mod_inj_50)





section \<open>Forwarding\<close>



section \<open>Properties\<close>






text \<open>
  C36. A full ring whose oldest message is in the last slot leaves the array: the next message
  moves the tail to index 50, one past the array, where the next reader looks.
\<close>

theorem pushmsg_overruns:
  assumes "wf_ring st" and "ring_count st = 49" and "r_tail st = 49"
  shows "\<exists>st'. pushmsg st m = Inr st' \<and> r_tail st' = 50 \<and> readtail st' = Inl OutOfBounds"
proof -
  have b: "length (r_msg st) = 50" "r_head st < 50" using assms(1) by (simp_all add: wf_ring_def)
  then have "r_head st = 48" using assms(2,3) by (auto simp: ring_count_def mod_if split: if_splits)
  with assms(3) b show ?thesis by (simp add: pushmsg_def readtail_def ring_next_def SIZERINGBUF_def)
qed

definition ring_worst :: ringbuf where
  "ring_worst = \<lparr>r_msg = (replicate 50 (Some ''m''))[48 := None], r_head = 48, r_tail = 49, r_size = 49\<rparr>"

theorem pushmsg_overruns_witness:
  "\<exists>st'. pushmsg ring_worst ''x'' = Inr st' \<and> readtail st' = Inl OutOfBounds"
proof -
  have cnt: "ring_count ring_worst = 49" "r_tail ring_worst = 49" by (simp_all add: ring_worst_def ring_count_def)
  have "ring_slot ring_worst i \<noteq> 48" if "i < 49" for i
    using that ring_slot_inj [of ring_worst i 49] by (auto simp: ring_slot_def ring_worst_def)
  then have "wf_ring ring_worst"
    using cnt ring_slot_lt [of ring_worst] by (auto simp: wf_ring_def ring_worst_def nth_list_update)
  from pushmsg_overruns [OF this cnt] show ?thesis by blast
qed

end
