(* ===== verification/Utils.thy ===== *)
theory Utils
  imports Prelude
begin

text \<open>
  The helpers of \<open>src/quemngr/utils.c\<close> on a model of the file system.  A path is kept as the pair
  of its directory, without trailing slashes, and its last component; the file system maps a path
  to the inode of the regular file there, so that two paths with the same inode are hard links.
  A directory that does not open, a synchronisation or a close that fails, and the clock are
  answers of the operating system (\<open>os\<close>).
\<close>

section \<open>Paths, names and numbers\<close>

type_synonym path = "string \<times> string"
type_synonym fsys = "path \<Rightarrow> ino_t option"

definition strip_slash :: "string \<Rightarrow> string" where
  "strip_slash d = rev (dropWhile (\<lambda>c. c = CHR ''/'') (rev d))"

definition mk_path :: "string \<Rightarrow> string \<Rightarrow> path" where
  "mk_path d n = (strip_slash d, n)"

definition path_dir :: "path \<Rightarrow> string" where
  "path_dir p = fst p"

fun dec :: "nat \<Rightarrow> string" where
  "dec n = (if n < 10 then [char_of (48 + n)] else dec (n div 10) @ [char_of (48 + n mod 10)])"

declare dec.simps [simp del]

text \<open>The conversion \<open>%ld\<close> of an inode number.\<close>

definition fmt_ld :: "ino_t \<Rightarrow> string" where
  "fmt_ld ino = (if sint ino < 0 then CHR ''-'' # dec (nat (- sint ino)) else dec (nat (sint ino)))"

definition strtoul :: "string \<Rightarrow> ino_t" where
  "strtoul str = (let v = atoi str in if 2 ^ 64 \<le> \<bar>v\<bar> then -1 else word_of_int v)"

section \<open>Files\<close>

record os =
  os_open :: "string \<Rightarrow> bool"
  os_fsync :: "string \<Rightarrow> bool"
  os_close :: "string \<Rightarrow> bool"
  os_clock :: "nat \<Rightarrow> (int \<times> int) option"

text \<open>\<open>rename\<close>, \<open>link\<close> and \<open>unlink\<close> with their status; renaming one link of a file to another does nothing.\<close>

definition sys_rename :: "path \<Rightarrow> path \<Rightarrow> fsys \<Rightarrow> int \<times> fsys" where
  "sys_rename src dst fs =
     (case fs src of
        None \<Rightarrow> (-1, fs)
      | Some ino \<Rightarrow> if fs dst = Some ino then (0, fs) else (0, (fs(src := None))(dst := Some ino)))"

definition sys_link :: "path \<Rightarrow> path \<Rightarrow> fsys \<Rightarrow> int \<times> fsys" where
  "sys_link src dst fs =
     (case fs src of
        None \<Rightarrow> (-1, fs)
      | Some ino \<Rightarrow> if fs dst \<noteq> None then (-1, fs) else (0, fs(dst := Some ino)))"

definition sys_unlink :: "path \<Rightarrow> fsys \<Rightarrow> int \<times> fsys" where
  "sys_unlink p fs = (if fs p = None then (-1, fs) else (0, fs(p := None)))"

definition mvfile :: "os \<Rightarrow> path \<Rightarrow> path \<Rightarrow> fsys \<Rightarrow> int \<times> fsys" where
  "mvfile os src dst fs =
     (if \<not> os_open os (path_dir src) then (-1, fs)
      else if \<not> os_open os (path_dir dst) then (-1, fs)
      else case sys_rename src dst fs of
        (r, fs1) \<Rightarrow>
          if r = 0 then
            (let ret = (if \<not> os_fsync os (path_dir src) then -1 else 0 :: int);
                 ret = (if \<not> os_fsync os (path_dir dst) then -1 else ret);
                 ret = 0
             in (ret, fs1))
          else (-1, fs1))"

definition cpfile :: "path \<Rightarrow> path \<Rightarrow> fsys \<Rightarrow> int \<times> fsys" where
  "cpfile src dst fs = sys_link src dst fs"

definition fsyncdir :: "os \<Rightarrow> string \<Rightarrow> int" where
  "fsyncdir os d =
     (let d = strip_slash d
      in if \<not> os_open os d then -1
         else if \<not> os_fsync os d then -1
         else if \<not> os_close os d then -1
         else 0)"

section \<open>Delays and the clock\<close>

definition is_digit :: "char \<Rightarrow> bool" where
  "is_digit c \<longleftrightarrow> 48 \<le> (of_char c :: nat) \<and> (of_char c :: nat) \<le> 57"

text \<open>The conversion \<open>%2[0-9]\<close>: one or two digits.\<close>

definition scan_digits2 :: "string \<Rightarrow> (string \<times> string) option" where
  "scan_digits2 str =
     (let ds = take 2 (takeWhile is_digit str)
      in if ds = [] then None else Some (ds, drop (length ds) str))"

definition scan_char :: "char \<Rightarrow> string \<Rightarrow> string option" where
  "scan_char c str = (case str of x # rest \<Rightarrow> if x = c then Some rest else None | [] \<Rightarrow> None)"

text \<open>
  The three fields of a directory name; the letter after the last field does not change how
  many conversions succeed.
\<close>

definition scan_hms :: "string \<Rightarrow> (string \<times> string \<times> string) option" where
  "scan_hms str =
     (case scan_digits2 str of
        None \<Rightarrow> None
      | Some (hour, r1) \<Rightarrow>
     (case scan_char (CHR ''h'') r1 of
        None \<Rightarrow> None
      | Some r2 \<Rightarrow>
     (case scan_digits2 r2 of
        None \<Rightarrow> None
      | Some (minute, r3) \<Rightarrow>
     (case scan_char (CHR ''m'') r3 of
        None \<Rightarrow> None
      | Some r4 \<Rightarrow>
     (case scan_digits2 r4 of
        None \<Rightarrow> None
      | Some (sec, r5) \<Rightarrow> Some (hour, minute, sec))))))"

definition calctimeout :: "string \<Rightarrow> int" where
  "calctimeout d =
     (case scan_hms d of
        None \<Rightarrow> -1
      | Some (hour, minute, sec) \<Rightarrow>
          let h = atoi hour; m = atoi minute; s = atoi sec
          in h * 60 * 60 + m * 60 + s)"

text \<open>The \<open>i\<close>-th reading of the monotonic clock.\<close>

definition getmonotime :: "os \<Rightarrow> nat \<Rightarrow> timeval res" where
  "getmonotime os i =
     (case os_clock os i of None \<Rightarrow> Inl (Exit 2) | Some (sec, nsec) \<Rightarrow> Inr (Timeval sec (nsec div 1000)))"

section \<open>Numbers read back\<close>

lemma digits_append:
  "(\<forall>c \<in> set xs. is_digit c) \<Longrightarrow> digits acc (xs @ ys) = digits (digits acc xs) ys"
  by (induction xs arbitrary: acc) (auto simp: is_digit_def Let_def)

lemma dec_digits: "\<forall>c \<in> set (dec n). is_digit c"
proof (induction n rule: dec.induct)
  case (1 n)
  then show ?case by (subst dec.simps) (auto simp: is_digit_def)
qed

lemma div_mod_10: "int (n div 10) * 10 + int (n mod 10) = int n"
proof -
  have "int (n div 10 * 10 + n mod 10) = int n" by (simp only: div_mult_mod_eq)
  then show ?thesis by (simp only: of_nat_add of_nat_mult of_nat_numeral)
qed

lemma digits_dec: "digits 0 (dec n) = int n"
proof (induction n rule: dec.induct)
  case (1 n)
  with div_mod_10 [of n] show ?case
    by (subst dec.simps) (auto simp: digits_append dec_digits Let_def)
qed

lemma dec_not_nil: "dec n \<noteq> []"
  by (subst dec.simps) simp

lemma digit_not_blank:
  "is_digit c \<Longrightarrow> c \<notin> set [CHR '' '', CHR 0x09, CHR 0x0A, CHR 0x0B, CHR 0x0C, CHR 0x0D, CHR ''-'', CHR ''+'']"
  by (auto simp: is_digit_def)

lemma atoi_dec: "atoi (dec n) = int n"
proof -
  obtain c cs where c: "dec n = c # cs" using dec_not_nil by (cases "dec n") auto
  then have "is_digit c" using dec_digits [of n] by auto
  then show ?thesis using digits_dec [of n] digit_not_blank [of c] by (simp add: atoi_def c)
qed

text \<open>A printed inode number reads back as that inode.\<close>

lemma strtoul_fmt_ld: "strtoul (fmt_ld ino) = ino"
proof -
  have b: "sint ino < 2 ^ 63" "- (2 ^ 63) \<le> sint ino" using sint_lt [of ino] sint_ge [of ino] by simp_all
  show ?thesis
  proof (cases "sint ino < 0")
    case False
    then show ?thesis using b by (simp add: strtoul_def fmt_ld_def atoi_dec)
  next
    case True
    have "atoi (CHR ''-'' # dec (nat (- sint ino))) = sint ino"
      using True by (simp add: atoi_def digits_dec)
    then show ?thesis using True b by (simp add: strtoul_def fmt_ld_def)
  qed
qed

lemma fmt_ld_inj: "fmt_ld a = fmt_ld b \<longleftrightarrow> a = b"
  by (metis strtoul_fmt_ld)

text \<open>Printing on binary integers, for evaluation.\<close>

fun dec_int :: "int \<Rightarrow> string" where
  "dec_int n = (if n < 10 then [char_of (48 + nat n)] else dec_int (n div 10) @ [char_of (48 + nat (n mod 10))])"

declare dec_int.simps [simp del]

lemma dec_int: "dec_int (int n) = dec n"
proof (induction n rule: dec.induct)
  case (1 n)
  have "int n div 10 = int (n div 10)" "nat (int n mod 10) = n mod 10" by (simp_all add: zdiv_int nat_mod_distrib)
  with "1" show ?case by (subst dec_int.simps, subst dec.simps) simp
qed

lemma fmt_ld_code [code]:
  "fmt_ld ino = (if sint ino < 0 then CHR ''-'' # dec_int (- sint ino) else dec_int (sint ino))"
  using dec_int [of "nat (sint ino)"] dec_int [of "nat (- sint ino)"] by (auto simp: fmt_ld_def)

section \<open>Properties\<close>

text \<open>The two-digit form of a number below 100.\<close>

definition dec2 :: "nat \<Rightarrow> string" where
  "dec2 n = [char_of (48 + n div 10), char_of (48 + n mod 10)]"

lemma atoi_dec2: "n < 100 \<Longrightarrow> atoi (dec2 n) = int n"
proof -
  assume n: "n < 100"
  let ?c = "char_of (48 + n div 10) :: char"
  have "is_digit ?c" "is_digit (char_of (48 + n mod 10))" using n by (simp_all add: is_digit_def)
  then have dg: "digits 0 [?c, char_of (48 + n mod 10)] = int n" and "is_digit ?c"
    using n div_mod_10 [of n] by (auto simp: is_digit_def Let_def)
  then show "atoi (dec2 n) = int n" using digit_not_blank [of ?c] by (simp add: atoi_def dec2_def)
qed

lemma scan_dec2:
  assumes "n < 100"
  shows "scan_digits2 (dec2 n @ str) = Some (dec2 n, str)"
proof -
  have "is_digit (char_of (48 + n div 10))" "is_digit (char_of (48 + n mod 10))"
    using assms by (simp_all add: is_digit_def)
  then show ?thesis by (simp add: scan_digits2_def dec2_def Let_def)
qed

text \<open>
  The name of a deferred queue's directory gives its delay: \<open>HHhMMmSSs\<close> with two digits each is
  read as that many seconds, whatever follows the last digit.
\<close>

theorem calctimeout_reads_name:
  assumes "h < 100" and "m < 100" and "s < 100"
  shows "calctimeout (dec2 h @ ''h'' @ dec2 m @ ''m'' @ dec2 s @ rest) = int (3600 * h + 60 * m + s)"
  using assms by (simp add: calctimeout_def scan_hms_def scan_dec2 scan_char_def atoi_dec2 Let_def)

theorem calctimeout_reads_name_witness: "calctimeout ''01h30m05s'' = 5405"
proof -
  have eq: "dec2 1 @ ''h'' @ dec2 30 @ ''m'' @ dec2 5 @ ''s'' = ''01h30m05s''" by code_simp
  show ?thesis using calctimeout_reads_name [of 1 30 5 "''s''"] unfolding eq by simp
qed

end
