(* ===== verification/Quemngr.thy ===== *)
theory Quemngr
  imports HeapFunc QueControl Utils
begin

text \<open>
  The queue manager of \<open>src/quemngr/quemngr.c\<close>: its queues, timers and files, the handlers of
  responses and signals, flushing, and one turn of the main loop cut into the part before
  \<open>poll\<close>, the expired timeout and the ready descriptors.  The child process is what is written to
  it (\<open>qm_pipe\<close>) and the responses read from it, which come in as arguments together with
  directory listings and the other answers of the operating system (\<open>qenv\<close>).  Log messages are
  left out; \<open>ERR_SYS\<close> is the exit with status 2.
\<close>

section \<open>State\<close>

definition WINSIZE :: int where "WINSIZE = 1"
definition WINDEFSIZE :: int where "WINDEFSIZE = 10"
definition TIMERHEAPSIZE :: nat where "TIMERHEAPSIZE = 16"
definition DELTAUSEC :: int where "DELTAUSEC = 25"

definition ACT :: int where "ACT = 0"
definition IN :: int where "IN = 1"

definition drop_dir :: string where "drop_dir = ''./drop/''"
definition fail_dir :: string where "fail_dir = ''./fail/''"
definition df_dir :: string where "df_dir = ''./df/''"
definition act_dir :: string where "act_dir = ''./act/''"
definition in_dir :: string where "in_dir = ''./in/''"

record qm =
  qm_list :: "msglist list"
  qm_countq :: int
  qm_heap :: heap
  qm_fs :: fsys
  qm_clock :: nat
  qm_pipe :: "ino_t list"
  qm_sigpipe :: "char list"
  qm_childpid :: int
  qm_kills :: "string list"
  qm_isconnect :: int
  qm_wait :: int
  qm_fd0 :: bool
  qm_fd1 :: bool
  qm_minnode :: "heapnode option"

record qenv =
  q_os :: os
  q_qsort :: "msg list \<Rightarrow> msg list"
  q_junk :: junk
  q_pipe_ok :: bool
  q_sig_ok :: bool
  q_sig_read :: bool

definition que :: "qm \<Rightarrow> int \<Rightarrow> msglist res" where
  "que st i = (if i < 0 \<or> int (length (qm_list st)) \<le> i then Inl OutOfBounds else Inr (qm_list st ! nat i))"

definition set_que :: "int \<Rightarrow> msglist \<Rightarrow> qm \<Rightarrow> qm" where
  "set_que i l st = st\<lparr>qm_list := (qm_list st)[nat i := l]\<rparr>"

text \<open>An operation on one queue, its result dropped.\<close>

definition on_que :: "int \<Rightarrow> (msglist \<Rightarrow> (int \<times> msglist) res) \<Rightarrow> qm \<Rightarrow> qm res" where
  "on_que i f st = res_bind (que st i) (\<lambda>l. res_bind (f l) (\<lambda>(r, l). Inr (set_que i l st)))"

section \<open>Files and timers\<close>

definition MOVEFILE :: "qenv \<Rightarrow> int \<Rightarrow> int \<Rightarrow> ino_t \<Rightarrow> qm \<Rightarrow> qm res" where
  "MOVEFILE env qs qd file st =
     res_bind (que st qs) (\<lambda>ls. res_bind (que st qd) (\<lambda>ld.
       let (r, fs) = mvfile (q_os env) (mk_path (dir ls) (fmt_ld file)) (mk_path (dir ld) (fmt_ld file)) (qm_fs st)
       in if r < 0 then Inl (Exit 2) else Inr (st\<lparr>qm_fs := fs\<rparr>)))"

definition COPYFILE :: "int \<Rightarrow> int \<Rightarrow> ino_t \<Rightarrow> qm \<Rightarrow> qm res" where
  "COPYFILE qs qd file st =
     res_bind (que st qs) (\<lambda>ls. res_bind (que st qd) (\<lambda>ld.
       let (r, fs) = cpfile (mk_path (dir ls) (fmt_ld file)) (mk_path (dir ld) (fmt_ld file)) (qm_fs st)
       in if r < 0 then Inl (Exit 2) else Inr (st\<lparr>qm_fs := fs\<rparr>)))"

text \<open>The heap keeps an inode in an \<open>int\<close>.\<close>

definition ADDTIMER :: "qenv \<Rightarrow> int \<Rightarrow> ino_t \<Rightarrow> qm \<Rightarrow> qm res" where
  "ADDTIMER env queind inode st =
     res_bind (getmonotime (q_os env) (qm_clock st)) (\<lambda>now.
     res_bind (que st queind) (\<lambda>l.
       let now = Timeval (tv_sec now + timeout l) (tv_usec now)
       in res_bind (heap_insert (q_junk env) (qm_heap st) now queind (ucast inode)) (\<lambda>h.
            Inr (st\<lparr>qm_heap := h, qm_clock := qm_clock st + 1\<rparr>))))"

text \<open>A file deleted and its directory synchronised, both or exit.\<close>

definition unlink_sync :: "qenv \<Rightarrow> string \<Rightarrow> ino_t \<Rightarrow> qm \<Rightarrow> qm res" where
  "unlink_sync env d inode st =
     (let (r, fs) = sys_unlink (mk_path d (fmt_ld inode)) (qm_fs st)
      in if r < 0 then Inl (Exit 2)
         else if fsyncdir (q_os env) d < 0 then Inl (Exit 2)
         else Inr (st\<lparr>qm_fs := fs\<rparr>))"

section \<open>New messages\<close>

record drop_entry =
  de_name :: string
  de_ino :: ino_t
  de_stat :: "(ino_t \<times> int \<times> int) option"

fun scan_entries :: "qenv \<Rightarrow> drop_entry list \<Rightarrow> int \<Rightarrow> qm \<Rightarrow> (int \<times> qm) res" where
  "scan_entries env [] cnt st = Inr (cnt, st)"
| "scan_entries env (e # es) cnt st =
     (if de_name e = CURDIR \<or> de_name e = PARENTDIR then scan_entries env es cnt st
      else if strtoul (de_name e) = de_ino e then
        res_bind (que st IN) (\<lambda>l.
          let (r, fs) = mvfile (q_os env) (mk_path drop_dir (de_name e)) (mk_path (dir l) (de_name e)) (qm_fs st)
          in if r < 0 then Inl (Exit 2)
             else case de_stat e of
               None \<Rightarrow> Inl (Exit 2)
             | Some (ino, sec, nsec) \<Rightarrow>
                 res_bind (on_que IN (\<lambda>l. elem_add l (elem_new ino (Timeval sec (nsec div 1000)) IN))
                             (st\<lparr>qm_fs := fs\<rparr>))
                   (\<lambda>st. scan_entries env es (cnt + 1) st))
      else scan_entries env es cnt st)"

definition scan_drop :: "qenv \<Rightarrow> drop_entry list option \<Rightarrow> qm \<Rightarrow> (int \<times> qm) res" where
  "scan_drop env workdir st =
     (case workdir of
        None \<Rightarrow> Inl (Exit 2)
      | Some es \<Rightarrow>
          res_bind (scan_entries env es 0 st) (\<lambda>(cnt, st).
            if cnt \<noteq> 0
            then res_bind (on_que IN (\<lambda>l. res_bind (queue_sort (q_qsort env) l) (\<lambda>l. Inr (0, l))) st)
                   (\<lambda>st. Inr (cnt, st))
            else Inr (cnt, st)))"

section \<open>Start-up of the queues\<close>

record df_entry =
  df_name :: string
  df_stat :: "bool option"

fun add_deferred :: "df_entry list \<Rightarrow> int \<Rightarrow> msglist list \<Rightarrow> (int \<times> msglist list) res" where
  "add_deferred [] countq ql = Inr (countq, ql)"
| "add_deferred (e # es) countq ql =
     (if df_name e = CURDIR \<or> df_name e = PARENTDIR then add_deferred es countq ql
      else case df_stat e of
        None \<Rightarrow> Inl (Exit 2)
      | Some isdir \<Rightarrow>
          if isdir \<and> calctimeout (df_name e) > 0 then
            let (c, ql) = queue_add ql
            in add_deferred es c
                 (ql[nat c := (ql ! nat c)\<lparr>dir := df_dir @ df_name e, timeout := calctimeout (df_name e)\<rparr>])
          else add_deferred es countq ql)"

fun restore_queues ::
  "qenv \<Rightarrow> (string \<Rightarrow> dirent list option) \<Rightarrow> nat \<Rightarrow> int \<Rightarrow> qm \<Rightarrow> qm res" where
  "restore_queues env rd 0 i st = Inr st"
| "restore_queues env rd (Suc n) i st =
     res_bind (on_que i (\<lambda>l. queue_restore l i (rd (dir l))) st) (\<lambda>st.
     res_bind (on_que i (\<lambda>l. res_bind (queue_sort (q_qsort env) l) (\<lambda>l. Inr (0, l))) st) (\<lambda>st.
       restore_queues env rd n (i + 1) st))"

text \<open>\<open>sortq\<close> is the library's \<open>qsort\<close> on the queues, \<open>workdir\<close> the listing of the deferred ones.\<close>

definition initqueue ::
  "qenv \<Rightarrow> (msglist list \<Rightarrow> msglist list) \<Rightarrow> df_entry list option \<Rightarrow> (string \<Rightarrow> dirent list option)
    \<Rightarrow> drop_entry list option \<Rightarrow> qm \<Rightarrow> qm res" where
  "initqueue env sortq workdir rd dropdir st =
     (let (c, ql) = queue_add [];
          ql = ql[nat c := (ql ! nat c)\<lparr>dir := act_dir, timeout := 0, total := -1\<rparr>];
          (c, ql) = queue_add ql;
          ql = ql[nat c := (ql ! nat c)\<lparr>dir := in_dir, timeout := 0\<rparr>]
      in case workdir of
           None \<Rightarrow> Inl (Exit 2)
         | Some es \<Rightarrow>
             res_bind (add_deferred es c ql) (\<lambda>(countq, ql).
               let st = st\<lparr>qm_list := sortq ql, qm_countq := countq,
                           qm_heap := heap_create (q_junk env) TIMERHEAPSIZE\<rparr>
               in res_bind (restore_queues env rd (nat countq) 1 st) (\<lambda>st.
                  res_bind (scan_drop env dropdir st) (\<lambda>(cnt, st). Inr st))))"

section \<open>Responses\<close>

text \<open>A message leaves the active queue and its own, with its share of the counters.\<close>

definition retire :: "int \<Rightarrow> ino_t \<Rightarrow> qm \<Rightarrow> qm res" where
  "retire state inode st =
     res_bind (on_que ACT (\<lambda>l. elem_del l inode) st) (\<lambda>st.
     res_bind (on_que state (\<lambda>l. elem_del l inode) st) (\<lambda>st.
       on_que state (\<lambda>l. Inr (0, l\<lparr>conf := conf l - 1, send := send l - 1\<rparr>)) st))"

text \<open>What a response to a message of queue \<open>state\<close> does.\<close>

definition respond :: "qenv \<Rightarrow> ino_t \<Rightarrow> int \<Rightarrow> int \<Rightarrow> qm \<Rightarrow> (int \<times> qm) res" where
  "respond env inode retval state st =
     res_bind (que st state) (\<lambda>l.
       let dirstate = dir l in
       if retval = 0 then
         res_bind (unlink_sync env act_dir inode st) (\<lambda>st.
         res_bind (unlink_sync env dirstate inode st) (\<lambda>st.
         res_bind (retire state inode st) (\<lambda>st. Inr (1, st))))
       else if retval = 1 then
         res_bind (on_que state (\<lambda>l. Inr (0, l\<lparr>conf := conf l + 1\<rparr>)) st) (\<lambda>st. Inr (0, st))
       else if state = qm_countq st then
         res_bind (unlink_sync env act_dir inode st) (\<lambda>st.
           let (r, fs) = mvfile (q_os env) (mk_path dirstate (fmt_ld inode))
                           (mk_path fail_dir (fmt_ld inode)) (qm_fs st)
           in if r < 0 then Inl (Exit 2)
              else res_bind (retire state inode (st\<lparr>qm_fs := fs\<rparr>)) (\<lambda>st. Inr (0, st)))
       else
         res_bind (unlink_sync env act_dir inode st) (\<lambda>st.
         res_bind (MOVEFILE env state (state + 1) inode st) (\<lambda>st.
         res_bind (on_que (state + 1)
           (\<lambda>l. elem_add l (elem_new inode (Timeval 0 0) (state + 1))) st) (\<lambda>st.
         res_bind (retire state inode st) (\<lambda>st.
         res_bind (ADDTIMER env (state + 1) inode st) (\<lambda>st. Inr (0, st)))))))"

definition check_response :: "qenv \<Rightarrow> ino_t \<Rightarrow> int \<Rightarrow> qm \<Rightarrow> (int \<times> qm) res" where
  "check_response env inode retval st =
     res_bind (que st ACT) (\<lambda>act.
     res_bind (elem_find act inode) (\<lambda>indelem.
       if indelem < 0 then Inr (-1, st)
       else res_bind (msg_at act indelem) (\<lambda>m. respond env inode retval (m_state m) st)))"

text \<open>The loop over the responses that are there; it counts the delivered messages.\<close>

fun read_responses :: "qenv \<Rightarrow> (ino_t \<times> int) list \<Rightarrow> int \<Rightarrow> qm \<Rightarrow> (int \<times> qm) res" where
  "read_responses env [] n st = Inr (n, st)"
| "read_responses env ((ino, code) # rs) n st =
     res_bind (check_response env ino code st) (\<lambda>(r, st).
       read_responses env rs (if r > 0 then n + 1 else n) st)"

section \<open>Signals\<close>

definition flag_signal :: "qenv \<Rightarrow> char \<Rightarrow> qm \<Rightarrow> qm res" where
  "flag_signal env c st =
     (if q_sig_ok env then Inr (st\<lparr>qm_sigpipe := qm_sigpipe st @ [c]\<rparr>) else Inl (Exit 1))"

fun term_unlink :: "nat \<Rightarrow> msglist \<Rightarrow> fsys \<Rightarrow> fsys res" where
  "term_unlink n l fs =
     res_bind (msg_at l (int n)) (\<lambda>m.
       let fs = snd (sys_unlink (mk_path act_dir (fmt_ld (m_inode m))) fs)
       in case n of 0 \<Rightarrow> Inr fs | Suc k \<Rightarrow> term_unlink k l fs)"

definition sig_term :: "qm \<Rightarrow> qm res" where
  "sig_term st =
     res_bind (que st ACT) (\<lambda>l.
     res_bind (if total l \<ge> 0 then term_unlink (nat (total l)) l (qm_fs st) else Inr (qm_fs st)) (\<lambda>fs.
       if qm_childpid st > 0 then Inr (st\<lparr>qm_fs := fs, qm_kills := qm_kills st @ [''TERM'']\<rparr>)
       else Inl (Exit 0)))"

definition sig_chld :: "int \<Rightarrow> qm \<Rightarrow> qm res" where
  "sig_chld pid st = (if pid = qm_childpid st then sig_term (st\<lparr>qm_childpid := 0\<rparr>) else Inr st)"

definition sig_hup :: "qenv \<Rightarrow> qm \<Rightarrow> qm res" where
  "sig_hup env st = flag_signal env (CHR ''H'') st"

definition sig_usr1 :: "qenv \<Rightarrow> qm \<Rightarrow> qm res" where
  "sig_usr1 env st = flag_signal env (CHR ''U'') st"

section \<open>Sending\<close>

text \<open>A message of queue \<open>q\<close> is linked into the active directory and handed to the child.\<close>

definition dispatch :: "qenv \<Rightarrow> int \<Rightarrow> ino_t \<Rightarrow> qm \<Rightarrow> qm res" where
  "dispatch env q inode st =
     res_bind (COPYFILE q ACT inode st) (\<lambda>st.
     res_bind (on_que ACT (\<lambda>l. elem_add l (elem_new inode (Timeval 0 0) q)) st) (\<lambda>st.
       if \<not> q_pipe_ok env then Inl (Exit 2)
       else on_que q (\<lambda>l. Inr (0, l\<lparr>send := send l + 1\<rparr>)) (st\<lparr>qm_pipe := qm_pipe st @ [inode]\<rparr>)))"

definition GETFILENAME :: "int \<Rightarrow> qm \<Rightarrow> ino_t res" where
  "GETFILENAME q st = res_bind (que st q) (\<lambda>l. res_bind (msg_at l (send l)) (\<lambda>m. Inr (m_inode m)))"

definition may_send :: "int \<Rightarrow> msglist \<Rightarrow> bool" where
  "may_send win l \<longleftrightarrow> send l < win \<and> send l < total l \<and> send l = conf l"

text \<open>
  Flushing works from the last queue down to the first; between two looks at a queue it reads
  the responses that have arrived, the next element of \<open>batches\<close>.  \<open>None\<close> means that it is still
  waiting when the batches run out.
\<close>

function flush_loop ::
  "qenv \<Rightarrow> nat \<Rightarrow> (ino_t \<times> int) list list \<Rightarrow> int \<Rightarrow> qm \<Rightarrow> (int \<times> (ino_t \<times> int) list list \<times> qm) res option" where
  "flush_loop env indque batches n st =
     (if indque = 0 then Some (Inr (n, batches, st))
      else case que st (int indque) of
        Inl e \<Rightarrow> Some (Inl e)
      | Inr l \<Rightarrow>
          if total l > 0 then
            (case (if may_send WINSIZE l
                   then res_bind (GETFILENAME (int indque) st) (\<lambda>definode. dispatch env (int indque) definode st)
                   else Inr st) of
               Inl e \<Rightarrow> Some (Inl e)
             | Inr st \<Rightarrow>
                 (case batches of
                    [] \<Rightarrow> None
                  | b # bs \<Rightarrow>
                      (case read_responses env b n st of
                         Inl e \<Rightarrow> Some (Inl e)
                       | Inr (n, st) \<Rightarrow> flush_loop env indque bs n st)))
          else flush_loop env (indque - 1) batches n st)"
  by pat_completeness auto
termination
  by (relation "measures [\<lambda>(env, i, bs, n, st). length bs, \<lambda>(env, i, bs, n, st). i]") auto

declare flush_loop.simps [simp del]

definition flush_queue ::
  "qenv \<Rightarrow> (ino_t \<times> int) list list \<Rightarrow> qm \<Rightarrow> (int \<times> (ino_t \<times> int) list list \<times> qm) res option" where
  "flush_queue env batches st = flush_loop env (nat (qm_countq st)) batches 0 st"

section \<open>The main loop\<close>

text \<open>Division of C truncates towards zero.\<close>

definition c_quot :: "int \<Rightarrow> int \<Rightarrow> int" where
  "c_quot a b = sgn a * sgn b * (\<bar>a\<bar> div \<bar>b\<bar>)"

definition msec_until :: "timeval \<Rightarrow> timeval \<Rightarrow> int" where
  "msec_until key now =
     c_quot (((tv_sec key - tv_sec now) * 1000000 + tv_usec key) - tv_usec now) 1000"

definition set_wait :: "qenv \<Rightarrow> qm \<Rightarrow> qm res" where
  "set_wait env st =
     (if qm_wait st > 0 then
        (case heap_min (qm_heap st) of
           None \<Rightarrow> Inl NullDeref
         | Some minnode \<Rightarrow>
             res_bind (getmonotime (q_os env) (qm_clock st)) (\<lambda>now.
               let nearest = msec_until (hn_key minnode) now;
                   nearest = (if nearest < 0 then DELTAUSEC else nearest)
               in Inr (st\<lparr>qm_minnode := Some minnode, qm_clock := qm_clock st + 1,
                          qm_wait := (if qm_wait st > nearest then nearest else qm_wait st)\<rparr>)))
      else if nodecount (qm_heap st) \<noteq> 0 then
        (case heap_min (qm_heap st) of
           None \<Rightarrow> Inl NullDeref
         | Some minnode \<Rightarrow>
             res_bind (getmonotime (q_os env) (qm_clock st)) (\<lambda>now.
               let wait = msec_until (hn_key minnode) now
               in Inr (st\<lparr>qm_minnode := Some minnode, qm_clock := qm_clock st + 1,
                          qm_wait := (if wait \<le> 0 then DELTAUSEC else wait)\<rparr>)))
      else Inr (st\<lparr>qm_wait := -1\<rparr>))"

definition before_poll :: "qenv \<Rightarrow> qm \<Rightarrow> qm res" where
  "before_poll env st =
     (if qm_isconnect st > 0 then
        res_bind (que st IN) (\<lambda>l.
        res_bind
          (if may_send WINSIZE l
           then res_bind (GETFILENAME IN st) (\<lambda>inode. dispatch env IN inode (st\<lparr>qm_fd0 := False\<rparr>))
           else if total l = send l then Inr (st\<lparr>qm_fd0 := True\<rparr>)
           else Inr st)
          (set_wait env))
      else Inr st)"

text \<open>\<open>poll\<close> returned 0: the timeout of the earliest timer has expired.\<close>

definition on_timeout :: "qenv \<Rightarrow> qm \<Rightarrow> qm res" where
  "on_timeout env st =
     (case qm_minnode st of
        None \<Rightarrow> Inl NullDeref
      | Some minnode \<Rightarrow>
          let definode = scast (hn_inode minnode);
              indque = hn_indque minnode;
              st = st\<lparr>qm_wait := -1\<rparr>
          in res_bind (que st indque) (\<lambda>l.
             res_bind (elem_find l definode) (\<lambda>i.
               if i < 0 then
                 res_bind (heap_extract_min (qm_heap st)) (\<lambda>(m, h). Inr (st\<lparr>qm_heap := h\<rparr>))
               else if may_send WINDEFSIZE l then
                 res_bind (dispatch env indque definode st) (\<lambda>st.
                 res_bind (heap_extract_min (qm_heap st)) (\<lambda>(m, h). Inr (st\<lparr>qm_heap := h\<rparr>)))
               else Inr st)))"

text \<open>Answers of the calls that renew the trigger FIFO, and what there is to read.\<close>

record trig_env =
  tr_unlink :: int
  tr_mkfifo :: int
  tr_eexist :: bool
  tr_open :: int

definition on_trigger :: "qenv \<Rightarrow> trig_env \<Rightarrow> drop_entry list option \<Rightarrow> qm \<Rightarrow> qm res" where
  "on_trigger env te dropdir st =
     (if tr_unlink te < 0 then Inl (Exit 2)
      else if tr_mkfifo te < 0 \<and> \<not> tr_eexist te then Inl (Exit 2)
      else if tr_open te < 0 then Inl (Exit 2)
      else res_bind (scan_drop env dropdir st) (\<lambda>(n, st). Inr st))"

text \<open>
  The signals flagged so far, one character at a time.  For each \<open>U\<close> the next element of
  \<open>usr\<close> gives the listing of the drop directory and the responses read while flushing.
\<close>

fun on_signals ::
  "qenv \<Rightarrow> char list \<Rightarrow> (drop_entry list option \<times> (ino_t \<times> int) list list) list \<Rightarrow> qm \<Rightarrow> qm res option" where
  "on_signals env [] usr st = Some (Inr st)"
| "on_signals env (c # cs) usr st =
     (let st = st\<lparr>qm_sigpipe := tl (qm_sigpipe st)\<rparr> in
      if \<not> q_sig_read env then Some (Inl (Exit 2))
      else if c = CHR ''H'' then
        on_signals env cs usr (st\<lparr>qm_wait := -1, qm_isconnect := 0, qm_fd0 := False, qm_fd1 := False\<rparr>)
      else if c = CHR ''U'' then
        (case usr of
           [] \<Rightarrow> None
         | (dropdir, batches) # usr' \<Rightarrow>
             (case scan_drop env dropdir (st\<lparr>qm_isconnect := 1, qm_fd0 := True, qm_fd1 := True\<rparr>) of
                Inl e \<Rightarrow> Some (Inl e)
              | Inr (n, st) \<Rightarrow>
                  (case flush_queue env batches st of
                     None \<Rightarrow> None
                   | Some (Inl e) \<Rightarrow> Some (Inl e)
                   | Some (Inr (n, bs, st)) \<Rightarrow>
                       on_signals env cs usr' (st\<lparr>qm_kills := qm_kills st @ [''USR2'']\<rparr>))))
      else on_signals env cs usr st)"

text \<open>What \<open>poll\<close> found ready, with what can be read there.\<close>

record ready =
  rdy_trig :: "(trig_env \<times> drop_entry list option) option"
  rdy_pipe :: "(ino_t \<times> int) list option"
  rdy_sig :: bool
  rdy_ioctl :: bool
  rdy_usr :: "(drop_entry list option \<times> (ino_t \<times> int) list list) list"

definition on_ready :: "qenv \<Rightarrow> ready \<Rightarrow> qm \<Rightarrow> qm res option" where
  "on_ready env r st =
     (case (case rdy_trig r of None \<Rightarrow> Inr st | Some (te, dropdir) \<Rightarrow> on_trigger env te dropdir st) of
        Inl e \<Rightarrow> Some (Inl e)
      | Inr st \<Rightarrow>
          (case (case rdy_pipe r of None \<Rightarrow> Inr (0, st) | Some rs \<Rightarrow> read_responses env rs 0 st) of
             Inl e \<Rightarrow> Some (Inl e)
           | Inr (n, st) \<Rightarrow>
               if rdy_sig r
               then if \<not> rdy_ioctl r then Some (Inl (Exit 2)) else on_signals env (qm_sigpipe st) (rdy_usr r) st
               else Some (Inr st)))"

datatype poll_result = PollError | PollTimeout | PollReady ready

definition after_poll :: "qenv \<Rightarrow> poll_result \<Rightarrow> qm \<Rightarrow> qm res option" where
  "after_poll env p st =
     (case p of
        PollError \<Rightarrow> Some (Inl (Exit 2))
      | PollTimeout \<Rightarrow> Some (on_timeout env st)
      | PollReady r \<Rightarrow> on_ready env r st)"

text \<open>One turn; interrupted calls of \<open>poll\<close> are repeated before it returns \<open>p\<close>.\<close>

definition main_turn :: "qenv \<Rightarrow> poll_result \<Rightarrow> qm \<Rightarrow> qm res option" where
  "main_turn env p st =
     (case before_poll env st of Inl e \<Rightarrow> Some (Inl e) | Inr st \<Rightarrow> after_poll env p st)"

section \<open>Start of the program\<close>

record start_env =
  se_chdir :: int
  se_signalpipe :: int
  se_pipe1 :: int
  se_pipe2 :: int
  se_fork :: int
  se_mkfifo :: int
  se_eexist :: bool
  se_trigfd :: int
  se_getfl :: int
  se_setfl :: int
  se_fdopen :: bool

definition qm_zero :: "fsys \<Rightarrow> qm" where
  "qm_zero fs = \<lparr>qm_list = [], qm_countq = 0, qm_heap = heap_create (\<lambda>_. heapnode_zero) 0, qm_fs = fs,
     qm_clock = 0, qm_pipe = [], qm_sigpipe = [], qm_childpid = 0, qm_kills = [], qm_isconnect = 0,
     qm_wait = -1, qm_fd0 = False, qm_fd1 = False, qm_minnode = None\<rparr>"

text \<open>
  The manager up to its loop, in the parent process; in the child the sender replaces the program
  or, failing that, exits.
\<close>

definition start_child ::
  "qenv \<Rightarrow> start_env \<Rightarrow> (msglist list \<Rightarrow> msglist list) \<Rightarrow> df_entry list option
    \<Rightarrow> (string \<Rightarrow> dirent list option) \<Rightarrow> drop_entry list option \<Rightarrow> fsys \<Rightarrow> qm res" where
  "start_child env se sortq workdir rd dropdir fs =
     (if se_chdir se < 0 then Inl (Exit 2)
      else
        res_bind (initqueue env sortq workdir rd dropdir (qm_zero fs)) (\<lambda>st.
          if se_signalpipe se < 0 then Inl (Exit 2)
          else if se_pipe1 se < 0 then Inl (Exit 2)
          else if se_pipe2 se < 0 then Inl (Exit 2)
          else if se_fork se < 0 then Inl (Exit 2)
          else if se_fork se = 0 then Inl (Exit 2)
          else Inr (st\<lparr>qm_childpid := se_fork se\<rparr>)))"

definition start_trigger :: "start_env \<Rightarrow> qm \<Rightarrow> qm res" where
  "start_trigger se st =
     (if se_mkfifo se < 0 \<and> \<not> se_eexist se then Inl (Exit 2)
      else if se_trigfd se < 0 then Inl (Exit 2)
      else if se_getfl se < 0 then Inl (Exit 2)
      else if se_setfl se < 0 then Inl (Exit 2)
      else if \<not> se_fdopen se then Inl (Exit 2)
      else Inr (st\<lparr>qm_isconnect := 0, qm_wait := -1, qm_fd0 := False, qm_fd1 := False\<rparr>))"

definition quemngr_start ::
  "qenv \<Rightarrow> start_env \<Rightarrow> (msglist list \<Rightarrow> msglist list) \<Rightarrow> df_entry list option
    \<Rightarrow> (string \<Rightarrow> dirent list option) \<Rightarrow> drop_entry list option \<Rightarrow> fsys \<Rightarrow> qm res" where
  "quemngr_start env se sortq workdir rd dropdir fs =
     res_bind (start_child env se sortq workdir rd dropdir fs) (start_trigger se)"

section \<open>The command line\<close>

text \<open>
  The options \<open>getopt\<close> hands over, unknown ones and ones without their argument included.  The pointers
  are not initialised: without \<open>-w\<close> or \<open>-t\<close> the program passes an indeterminate pointer on.
\<close>

record qm_opts =
  qo_cts_name :: "string option"
  qo_workdir :: "string option"
  qo_trigger :: "string option"
  qo_sender :: "string option"
  qo_debuglevel :: int

fun qm_opt :: "qm_opts \<Rightarrow> char \<times> string \<Rightarrow> qm_opts" where
  "qm_opt o1 (c, arg) =
     (if c = CHR ''n'' then o1\<lparr>qo_cts_name := Some arg\<rparr>
      else if c = CHR ''w'' then o1\<lparr>qo_workdir := Some arg\<rparr>
      else if c = CHR ''t'' then o1\<lparr>qo_trigger := Some arg\<rparr>
      else if c = CHR ''s'' then o1\<lparr>qo_sender := Some arg\<rparr>
      else if c = CHR ''d'' then o1\<lparr>qo_debuglevel := atoi arg\<rparr>
      else o1)"

definition quemngr_main ::
  "qenv \<Rightarrow> start_env \<Rightarrow> (msglist list \<Rightarrow> msglist list) \<Rightarrow> df_entry list option
    \<Rightarrow> (string \<Rightarrow> dirent list option) \<Rightarrow> drop_entry list option \<Rightarrow> fsys \<Rightarrow> (char \<times> string) list \<Rightarrow> qm res" where
  "quemngr_main env se sortq workdir rd dropdir fs opts =
     (let o1 = foldl qm_opt \<lparr>qo_cts_name = None, qo_workdir = None, qo_trigger = None, qo_sender = None, qo_debuglevel = 0\<rparr> opts
      in if qo_workdir o1 = None then Inl NullDeref
         else
           res_bind (start_child env se sortq workdir rd dropdir fs) (\<lambda>st.
             if qo_trigger o1 = None then Inl NullDeref else start_trigger se st))"

end
