(* ===== verification/QuemngrProps.thy ===== *)
theory QuemngrProps
  imports Quemngr
begin

text \<open>
  The invariant of the queue manager and that every handler keeps it: queues and timer heap stay
  well formed, every message handed to the child belongs to a queue, the counter \<open>send\<close> of each
  queue is the number of its messages the child is working on, and that number stays inside the
  queue's window.
\<close>

section \<open>Queues by index\<close>

definition q_at :: "qm \<Rightarrow> int \<Rightarrow> msglist" where
  "q_at st i = qm_list st ! nat i"

definition in_range :: "qm \<Rightarrow> int \<Rightarrow> bool" where
  "in_range st i \<longleftrightarrow> 0 \<le> i \<and> i < int (length (qm_list st))"

lemma que_eq: "que st i = (if in_range st i then Inr (q_at st i) else Inl OutOfBounds)"
  by (auto simp: que_def in_range_def q_at_def)

lemma in_range_set [simp]: "in_range (set_que i l st) j = in_range st j"
  by (simp add: in_range_def set_que_def)

lemma q_at_set: "in_range st i \<Longrightarrow> 0 \<le> j \<Longrightarrow> q_at (set_que i l st) j = (if j = i then l else q_at st j)"
  by (auto simp: q_at_def set_que_def in_range_def nth_list_update)

lemma on_queE:
  assumes "on_que i f st = Inr st'"
  obtains r l where "in_range st i" "f (q_at st i) = Inr (r, l)" "st' = set_que i l st"
  using assms by (auto simp: on_que_def que_eq elim!: res_bindE split: if_splits)

lemma set_que_fields [simp]:
  "qm_countq (set_que i l st) = qm_countq st" "qm_heap (set_que i l st) = qm_heap st"
  "qm_fs (set_que i l st) = qm_fs st" "length (qm_list (set_que i l st)) = length (qm_list st)"
  "qm_clock (set_que i l st) = qm_clock st" "qm_pipe (set_que i l st) = qm_pipe st"
  by (simp_all add: set_que_def)

lemma frame_simps [simp]:
  "q_at (st\<lparr>qm_fs := fs\<rparr>) i = q_at st i" "q_at (st\<lparr>qm_heap := h\<rparr>) i = q_at st i"
  "q_at (st\<lparr>qm_pipe := p\<rparr>) i = q_at st i" "q_at (st\<lparr>qm_clock := c\<rparr>) i = q_at st i"
  "in_range (st\<lparr>qm_fs := fs\<rparr>) i = in_range st i" "in_range (st\<lparr>qm_heap := h\<rparr>) i = in_range st i"
  "in_range (st\<lparr>qm_pipe := p\<rparr>) i = in_range st i" "in_range (st\<lparr>qm_clock := c\<rparr>) i = in_range st i"
  by (simp_all add: q_at_def in_range_def)

section \<open>The invariant\<close>

text \<open>Messages of queue \<open>q\<close> the child is working on.\<close>

definition active :: "qm \<Rightarrow> int \<Rightarrow> int" where
  "active st q = int (length (filter (\<lambda>m. m_state m = q) (live (q_at st ACT))))"

definition qm_inv :: "qm \<Rightarrow> bool" where
  "qm_inv st \<longleftrightarrow> 2 \<le> length (qm_list st) \<and> qm_countq st = int (length (qm_list st)) - 1
     \<and> (\<forall>i. in_range st i \<longrightarrow> wf_msglist (q_at st i))
     \<and> (\<forall>m \<in> set (live (q_at st ACT)). 1 \<le> m_state m \<and> m_state m \<le> qm_countq st)
     \<and> (\<forall>q. 1 \<le> q \<and> q \<le> qm_countq st \<longrightarrow> send (q_at st q) = active st q)
     \<and> active st IN \<le> WINSIZE \<and> (\<forall>q. 2 \<le> q \<and> q \<le> qm_countq st \<longrightarrow> active st q \<le> WINDEFSIZE)
     \<and> wf_heap (qm_heap st) \<and> (\<forall>n. n \<in># heap_items (qm_heap st) \<longrightarrow> 2 \<le> hn_indque n \<and> hn_indque n \<le> qm_countq st)"

lemma same_fields:
  assumes "l' = l\<lparr>ml_msg := ml_msg l', nmax := n, total := t\<rparr>"
  shows "send l' = send l \<and> conf l' = conf l \<and> dir l' = dir l \<and> timeout l' = timeout l"
proof -
  obtain a where "l' = l\<lparr>ml_msg := a, nmax := n, total := t\<rparr>" using assms by blast
  then show ?thesis by simp
qed

lemma elem_add_wf:
  assumes "wf_msglist l" and "elem_add l e = Inr (n, l')"
  shows "wf_msglist l' \<and> live l' = live l @ [e]"
    and "send l' = send l \<and> conf l' = conf l \<and> dir l' = dir l \<and> timeout l' = timeout l"
proof -
  have "wf_msglist l' \<and> live l' = live l @ [e] \<and> (\<exists>m t. l' = l\<lparr>ml_msg := ml_msg l', nmax := m, total := t\<rparr>)"
  proof (cases "msg_room l")
    case True
    with elem_add_law [OF assms(1) True, of e] assms(2) show ?thesis by auto
  next
    case False
    from assms(1) show ?thesis
    proof (cases rule: wf_msglist_cases)
      case null
      then show ?thesis using False by (simp add: msg_room_def INT_MAX_def)
    next
      case (cells ms rest)
      with False assms(2) have lt: "total l < nmax l" by (auto simp: elem_add_def msg_room_def split: if_splits)
      then have "elem_add l e = elem_store l e" using cells by (simp add: elem_add_def)
      moreover have "rest \<noteq> []" using lt cells by auto
      ultimately show ?thesis using elem_store_law [of l ms rest e] cells assms(2) by auto blast
    qed
  qed
  then show "wf_msglist l' \<and> live l' = live l @ [e]"
    and "send l' = send l \<and> conf l' = conf l \<and> dir l' = dir l \<and> timeout l' = timeout l"
    using same_fields by blast+
qed

lemma elem_del_wf:
  assumes "wf_msglist l" and "elem_del l ino = Inr (n, l')"
  shows "wf_msglist l' \<and> live l' = remove_first (\<lambda>m. m_inode m = ino) (live l)"
    and "send l' = send l \<and> conf l' = conf l \<and> dir l' = dir l \<and> timeout l' = timeout l"
proof -
  have l: "wf_msglist l'" "live l' = remove_first (\<lambda>m. m_inode m = ino) (live l)"
      "l' = l\<lparr>ml_msg := ml_msg l', total := total l'\<rparr>"
    using elem_del_law [OF assms(1), of ino] assms(2) by auto
  then show "wf_msglist l' \<and> live l' = remove_first (\<lambda>m. m_inode m = ino) (live l)" by blast
  have "l' = l\<lparr>ml_msg := ml_msg l', nmax := nmax l, total := total l'\<rparr>" using l(3) by simp
  then show "send l' = send l \<and> conf l' = conf l \<and> dir l' = dir l \<and> timeout l' = timeout l"
    by (rule same_fields)
qed

lemma wf_msglist_frame [simp]:
  "wf_msglist (l\<lparr>conf := c\<rparr>) = wf_msglist l" "wf_msglist (l\<lparr>send := s\<rparr>) = wf_msglist l"
  "live (l\<lparr>conf := c\<rparr>) = live l" "live (l\<lparr>send := s\<rparr>) = live l"
  by (simp_all add: wf_msglist_def live_def split: option.split)

section \<open>Every handler keeps the invariant\<close>

text \<open>What changes only what the invariant does not mention.\<close>

lemma inv_frame:
  assumes "qm_list st' = qm_list st" "qm_countq st' = qm_countq st" "qm_heap st' = qm_heap st"
  shows "qm_inv st' = qm_inv st"
proof -
  have "q_at st' = q_at st" "in_range st' = in_range st"
    using assms by (simp_all add: q_at_def in_range_def fun_eq_iff)
  then show ?thesis using assms by (simp add: qm_inv_def active_def)
qed

lemma qinv_wf:
  assumes "qm_inv st"
  shows "in_range st i \<Longrightarrow> wf_msglist (q_at st i)" and "in_range st ACT" and "in_range st IN"
    and "in_range st i \<longleftrightarrow> 0 \<le> i \<and> i \<le> qm_countq st" and "1 \<le> qm_countq st"
  using assms by (auto simp: qm_inv_def in_range_def ACT_def IN_def)

text \<open>A queue other than the active one changes its contents or \<open>conf\<close>, not \<open>send\<close>.\<close>

lemma inv_set_que:
  assumes "qm_inv st" and "in_range st i" and "i \<noteq> ACT" and "wf_msglist l" and "send l = send (q_at st i)"
  shows "qm_inv (set_que i l st)"
proof -
  let ?st = "set_que i l st"
  have act: "q_at ?st ACT = q_at st ACT" using q_at_set [OF assms(2), of ACT] assms(3) by (simp add: ACT_def)
  then have a: "active ?st q = active st q" for q by (simp add: active_def)
  have "in_range ?st j \<Longrightarrow> wf_msglist (q_at ?st j)" for j
    using assms q_at_set [OF assms(2), of j l] by (auto simp: qm_inv_def in_range_def)
  moreover have "1 \<le> q \<Longrightarrow> q \<le> qm_countq st \<Longrightarrow> send (q_at ?st q) = active st q" for q
    using assms q_at_set [OF assms(2), of q l] by (auto simp: qm_inv_def)
  ultimately show ?thesis using assms(1) act a by (auto simp: qm_inv_def)
qed

lemma inv_heap:
  assumes "qm_inv st" and "wf_heap h"
    and "\<And>n. n \<in># heap_items h \<Longrightarrow> 2 \<le> hn_indque n \<and> hn_indque n \<le> qm_countq st"
  shows "qm_inv (st\<lparr>qm_heap := h\<rparr>)"
  using assms by (auto simp: qm_inv_def active_def)

lemma inv_on_que:
  assumes "qm_inv st" and "i \<noteq> ACT" and "on_que i f st = Inr st'"
    and "\<And>r l l'. wf_msglist l \<Longrightarrow> f l = Inr (r, l') \<Longrightarrow> wf_msglist l' \<and> send l' = send l"
  shows "qm_inv st'"
proof -
  obtain r l where "in_range st i" "f (q_at st i) = Inr (r, l)" "st' = set_que i l st"
    using on_queE [OF assms(3)] by blast
  then show ?thesis using inv_set_que [of st i l] assms(1,2,4) qinv_wf(1) by blast
qed

lemma queue_sort_wf:
  assumes "wf_msglist l" and "length (f (live l)) = length (live l)" and "queue_sort f l = Inr l'"
  shows "wf_msglist l' \<and> send l' = send l"
  using assms(1)
proof (cases rule: wf_msglist_cases)
  case null
  then show ?thesis using assms by (simp add: queue_sort_def split: if_splits)
next
  case (cells ms rest)
  let ?l = "l\<lparr>ml_msg := Some (map Some (f ms) @ rest)\<rparr>"
  have "wf_msglist ?l"
    by (rule wf_msglistI(1) [of ?l "f ms" rest]) (use cells assms(2) in simp_all)
  with cells assms(3) queue_sort_cells [OF cells(1,2), of f] show ?thesis by auto
qed

text \<open>The library's sort returns as many messages as it is given.\<close>

definition env_ok :: "qenv \<Rightarrow> bool" where
  "env_ok env \<longleftrightarrow> is_qsort mtimecomp (q_qsort env)"

lemma scan_entries_inv:
  "qm_inv st \<Longrightarrow> scan_entries env es n st = Inr (n', st') \<Longrightarrow> qm_inv st'"
proof (induction es arbitrary: n st)
  case (Cons e es)
  show ?case
  proof (cases "de_name e = CURDIR \<or> de_name e = PARENTDIR \<or> strtoul (de_name e) \<noteq> de_ino e")
    case True
    with Cons show ?thesis by (auto split: if_splits)
  next
    case False
    obtain r fs where mv: "mvfile (q_os env) (mk_path drop_dir (de_name e)) (mk_path (dir (q_at st IN)) (de_name e)) (qm_fs st) = (r, fs)"
      by fastforce
    have inv: "qm_inv (st\<lparr>qm_fs := fs\<rparr>)" using Cons.prems(1) by (simp add: inv_frame [of "st\<lparr>qm_fs := fs\<rparr>" st])
    obtain ino sec nsec st1 where st1: "de_stat e = Some (ino, sec, nsec)" "\<not> r < 0"
        "on_que IN (\<lambda>l. elem_add l (elem_new ino (Timeval sec (nsec div 1000)) IN)) (st\<lparr>qm_fs := fs\<rparr>) = Inr st1"
        "scan_entries env es (n + 1) st1 = Inr (n', st')"
      using Cons.prems(2) False mv qinv_wf(3) [OF Cons.prems(1)]
      by (auto simp: que_eq elim!: res_bindE split: option.splits if_splits)
    have "qm_inv st1"
      by (rule inv_on_que [OF inv _ st1(3)]) (use elem_add_wf in \<open>auto simp: IN_def ACT_def\<close>)
    then show ?thesis using Cons.IH st1(4) by blast
  qed
qed auto

lemma sort_keeps:
  assumes "env_ok env" and "wf_msglist l" and "res_bind (queue_sort (q_qsort env) l) (\<lambda>l. Inr (0 :: int, l)) = Inr (r, l')"
  shows "wf_msglist l' \<and> send l' = send l"
proof -
  have "queue_sort (q_qsort env) l = Inr l'" using assms(3) by (auto elim!: res_bindE)
  moreover have "length (q_qsort env (live l)) = length (live l)"
    using assms(1) is_qsort_length unfolding env_ok_def by blast
  ultimately show ?thesis using queue_sort_wf assms(2) by blast
qed

lemma scan_drop_inv:
  assumes "env_ok env" and "qm_inv st" and "scan_drop env workdir st = Inr (n, st')"
  shows "qm_inv st'"
proof -
  obtain es m st1 where st1: "workdir = Some es" "scan_entries env es 0 st = Inr (m, st1)"
    using assms(3) by (auto simp: scan_drop_def elim!: res_bindE split: option.splits)
  have inv: "qm_inv st1" using scan_entries_inv [OF assms(2) st1(2)] .
  show ?thesis
  proof (cases "m = 0")
    case True
    with assms(3) st1 inv show ?thesis by (simp add: scan_drop_def)
  next
    case False
    have "on_que IN (\<lambda>l. res_bind (queue_sort (q_qsort env) l) (\<lambda>l. Inr (0, l))) st1 = Inr st'"
      using assms(3) st1 False by (auto simp: scan_drop_def elim!: res_bindE)
    moreover have "IN \<noteq> ACT" by (simp add: IN_def ACT_def)
    ultimately show ?thesis using inv_on_que [OF inv] sort_keeps [OF assms(1)] by blast
  qed
qed

lemma inv_effect:
  assumes inv: "qm_inv st" and len: "length (qm_list st') = length (qm_list st)"
    and cq: "qm_countq st' = qm_countq st" and hp: "qm_heap st' = qm_heap st"
    and wf: "\<And>j. in_range st j \<Longrightarrow> wf_msglist (q_at st' j)"
    and ms: "set (live (q_at st' ACT)) \<subseteq> insert m (set (live (q_at st ACT)))"
    and m: "m \<in> set (live (q_at st' ACT)) \<Longrightarrow> 1 \<le> m_state m \<and> m_state m \<le> qm_countq st"
    and snd: "\<And>q. 1 \<le> q \<Longrightarrow> q \<le> qm_countq st \<Longrightarrow> send (q_at st' q) - send (q_at st q) = active st' q - active st q"
    and lim: "\<And>q. 1 \<le> q \<Longrightarrow> q \<le> qm_countq st \<Longrightarrow> active st' q \<le> active st q
      \<or> active st' q \<le> (if q = IN then WINSIZE else WINDEFSIZE)"
  shows "qm_inv st'"
proof -
  have sa: "send (q_at st q) = active st q" "active st IN \<le> WINSIZE" if "1 \<le> q" "q \<le> qm_countq st" for q
    using inv that by (auto simp: qm_inv_def)
  have "active st' IN \<le> WINSIZE" using lim [of IN] inv by (auto simp: qm_inv_def IN_def)
  moreover have "active st' q \<le> WINDEFSIZE" if "2 \<le> q" "q \<le> qm_countq st" for q
    using lim [of q] inv that by (force simp: qm_inv_def IN_def)
  moreover have "send (q_at st' q) = active st' q" if "1 \<le> q" "q \<le> qm_countq st" for q
    using snd [OF that] sa(1) [OF that] by simp
  moreover have "1 \<le> m_state x \<and> m_state x \<le> qm_countq st" if "x \<in> set (live (q_at st' ACT))" for x
    using that ms m inv by (auto simp: qm_inv_def)
  moreover have "in_range st' j = in_range st j" for j using len by (simp add: in_range_def)
  ultimately show ?thesis using inv wf len cq hp by (auto simp: qm_inv_def)
qed

lemma dispatch_eff:
  assumes "qm_inv st" and "q \<noteq> ACT" and "dispatch env q ino st = Inr st'"
  obtains fs la r where "cpfile (mk_path (dir (q_at st q)) (fmt_ld ino)) (mk_path (dir (q_at st ACT)) (fmt_ld ino)) (qm_fs st) = (r, fs)"
    "0 \<le> r" "in_range st q" "wf_msglist la" "live la = live (q_at st ACT) @ [elem_new ino (Timeval 0 0) q]" "send la = send (q_at st ACT)"
    "dir la = dir (q_at st ACT)"
    "st' = set_que q ((q_at st q)\<lparr>send := send (q_at st q) + 1\<rparr>) (set_que ACT la (st\<lparr>qm_fs := fs, qm_pipe := qm_pipe st @ [ino]\<rparr>))"
proof -
  obtain r fs where cp: "cpfile (mk_path (dir (q_at st q)) (fmt_ld ino)) (mk_path (dir (q_at st ACT)) (fmt_ld ino)) (qm_fs st) = (r, fs)"
    by fastforce
  let ?e = "elem_new ino (Timeval 0 0) q"
  have rq: "in_range st q" "0 \<le> r"
    using assms(3) cp qinv_wf(2) [OF assms(1)] by (auto simp: dispatch_def COPYFILE_def que_eq elim!: res_bindE split: if_splits)
  obtain n la where la: "elem_add (q_at st ACT) ?e = Inr (n, la)"
    using assms(3) cp rq by (auto simp: dispatch_def COPYFILE_def que_eq on_que_def elim!: res_bindE split: if_splits)
  have st': "st' = set_que q ((q_at st q)\<lparr>send := send (q_at st q) + 1\<rparr>) (set_que ACT la (st\<lparr>qm_fs := fs, qm_pipe := qm_pipe st @ [ino]\<rparr>))"
    using assms cp rq la qinv_wf(2) [OF assms(1)]
    by (auto simp: dispatch_def COPYFILE_def que_eq on_que_def q_at_def set_que_def ACT_def in_range_def elim!: res_bindE split: if_splits)
  show ?thesis using that [OF cp rq(2,1)] elem_add_wf [OF qinv_wf(1) [OF assms(1) qinv_wf(2) [OF assms(1)]] la] st' by blast
qed

lemma dispatch_inv:
  assumes inv: "qm_inv st" and q: "1 \<le> q" and win: "send (q_at st q) < (if q = IN then WINSIZE else WINDEFSIZE)"
    and d: "dispatch env q ino st = Inr st'"
  shows "qm_inv st'"
proof -
  have qa: "q \<noteq> ACT" using q by (simp add: ACT_def)
  obtain fs la r where la: "in_range st q" "wf_msglist la" "live la = live (q_at st ACT) @ [elem_new ino (Timeval 0 0) q]"
      "st' = set_que q ((q_at st q)\<lparr>send := send (q_at st q) + 1\<rparr>) (set_que ACT la (st\<lparr>qm_fs := fs, qm_pipe := qm_pipe st @ [ino]\<rparr>))"
    using dispatch_eff [OF inv qa d] by blast
  have qle: "q \<le> qm_countq st" using la(1) inv by (auto simp: qm_inv_def in_range_def)
  have at: "q_at st' j = (if j = q then (q_at st q)\<lparr>send := send (q_at st q) + 1\<rparr> else if j = ACT then la else q_at st j)"
    if "0 \<le> j" for j
    using that la(1,4) q_at_set qinv_wf(2) [OF inv] by (auto simp: q_at_def set_que_def in_range_def ACT_def nth_list_update)
  have act: "active st' j = active st j + (if j = q then 1 else 0)" for j
    using at [of ACT] qa la(3) by (auto simp: active_def ACT_def elem_new_def)
  have sq: "send (q_at st q) = active st q" using inv q qle by (auto simp: qm_inv_def)
  show ?thesis
  proof (rule inv_effect [OF inv, where m = "elem_new ino (Timeval 0 0) q"])
    show "in_range st j \<Longrightarrow> wf_msglist (q_at st' j)" for j
      using at [of j] la(2) qinv_wf(1) [OF inv] by (auto simp: in_range_def)
    show "send (q_at st' p) - send (q_at st p) = active st' p - active st p" if "1 \<le> p" "p \<le> qm_countq st" for p
      using that at [of p] act by (simp add: ACT_def)
    show "active st' p \<le> active st p \<or> active st' p \<le> (if p = IN then WINSIZE else WINDEFSIZE)"
      if "1 \<le> p" "p \<le> qm_countq st" for p using act [of p] sq win by (auto split: if_splits)
  qed (use la at [of ACT] qa q qle in \<open>auto simp: ACT_def elem_new_def\<close>)
qed

text \<open>A message leaves: the first one with its inode, in the active queue and in its own.\<close>

lemma filter_remove_first:
  "first_idx P xs = Some k \<Longrightarrow>
   int (length (filter R (remove_first P xs))) = int (length (filter R xs)) - (if R (xs ! k) then 1 else 0)"
  by (induction xs arbitrary: k) (auto split: if_splits)

lemma retire_eff:
  assumes "qm_inv st" and "s \<noteq> ACT" and "retire s ino st = Inr st'"
  obtains la ls where "in_range st s" "wf_msglist la" "live la = remove_first (\<lambda>m. m_inode m = ino) (live (q_at st ACT))"
    "dir la = dir (q_at st ACT)" "wf_msglist ls" "live ls = remove_first (\<lambda>m. m_inode m = ino) (live (q_at st s))"
    "send ls = send (q_at st s) - 1" "conf ls = conf (q_at st s) - 1" "dir ls = dir (q_at st s)" "timeout ls = timeout (q_at st s)"
    "st' = set_que s ls (set_que ACT la st)"
proof -
  obtain n1 la where la: "elem_del (q_at st ACT) ino = Inr (n1, la)"
    using assms(3) by (auto simp: retire_def elim!: res_bindE on_queE)
  have ra: "in_range st ACT" using qinv_wf(2) [OF assms(1)] .
  let ?st1 = "set_que ACT la st"
  have r1: "retire s ino st = res_bind (on_que s (\<lambda>l. elem_del l ino) ?st1) (\<lambda>st.
      on_que s (\<lambda>l. Inr (0, l\<lparr>conf := conf l - 1, send := send l - 1\<rparr>)) st)"
    using la ra by (simp add: retire_def on_que_def que_eq)
  have rs: "in_range st s" using assms(3) unfolding r1 by (auto elim!: res_bindE on_queE)
  then have s0: "0 \<le> s" by (simp add: in_range_def)
  have qs: "q_at ?st1 s = q_at st s" using q_at_set [OF ra s0, of la] assms(2) by simp
  obtain n2 l2 where l2: "elem_del (q_at st s) ino = Inr (n2, l2)"
    using assms(3) unfolding r1 by (auto simp: qs elim!: res_bindE on_queE)
  let ?ls = "l2\<lparr>conf := conf l2 - 1, send := send l2 - 1\<rparr>"
  have rs1: "in_range ?st1 s" using rs by simp
  have q2: "q_at (set_que s l2 ?st1) s = l2" using q_at_set [OF rs1 s0, of l2] by simp
  have "st' = set_que s ?ls (set_que s l2 ?st1)"
    using assms(3) rs unfolding r1 by (simp add: on_que_def que_eq qs l2 q2)
  then have "st' = set_que s ?ls ?st1" by (simp add: set_que_def)
  then show ?thesis
    using that [of la ?ls] rs elem_del_wf [OF qinv_wf(1) [OF assms(1) ra] la] elem_del_wf [OF qinv_wf(1) [OF assms(1) rs] l2]
    by simp
qed

lemma q_at_set2:
  "in_range st i \<Longrightarrow> in_range st k \<Longrightarrow> 0 \<le> j \<Longrightarrow>
   q_at (set_que i a (set_que k b st)) j = (if j = i then a else if j = k then b else q_at st j)"
  by (simp add: q_at_set)

lemma retire_inv:
  assumes inv: "qm_inv st" and fst: "first_idx (\<lambda>m. m_inode m = ino) (live (q_at st ACT)) = Some k"
    and s: "s = m_state (live (q_at st ACT) ! k)" and d: "retire s ino st = Inr st'"
  shows "qm_inv st'"
proof -
  have k: "k < length (live (q_at st ACT))" using first_idx_Some [OF fst] by blast
  then have sr: "1 \<le> s" "s \<le> qm_countq st" using inv s by (auto simp: qm_inv_def)
  then have sa: "s \<noteq> ACT" by (simp add: ACT_def)
  obtain la ls where e: "in_range st s" "wf_msglist la" "live la = remove_first (\<lambda>m. m_inode m = ino) (live (q_at st ACT))"
      "wf_msglist ls" "send ls = send (q_at st s) - 1" "st' = set_que s ls (set_que ACT la st)"
    using retire_eff [OF inv sa d] by metis
  note at = q_at_set2 [OF e(1) qinv_wf(2) [OF inv], of _ ls la, folded e(6)]
  have act: "active st' j = active st j - (if j = s then 1 else 0)" for j
    using at [of ACT] sa e(3) filter_remove_first [OF fst, of "\<lambda>m. m_state m = j"] s by (auto simp: active_def ACT_def)
  show ?thesis
  proof (rule inv_effect [OF inv, where m = "live (q_at st ACT) ! k"])
    show "in_range st j \<Longrightarrow> wf_msglist (q_at st' j)" for j
      using at [of j] e(2,4) qinv_wf(1) [OF inv] by (auto simp: in_range_def)
    show "send (q_at st' p) - send (q_at st p) = active st' p - active st p" if "1 \<le> p" "p \<le> qm_countq st" for p
      using that at [of p] act e(5) by (simp add: ACT_def)
    show "active st' p \<le> active st p \<or> active st' p \<le> (if p = IN then WINSIZE else WINDEFSIZE)"
      if "1 \<le> p" "p \<le> qm_countq st" for p using act [of p] by auto
    show "set (live (q_at st' ACT)) \<subseteq> insert (live (q_at st ACT) ! k) (set (live (q_at st ACT)))"
      using at [of ACT] sa e(3) set_remove_first_subset [of "\<lambda>m. m_inode m = ino" "live (q_at st ACT)"]
      by (auto simp: ACT_def)
  qed (use e(6) sr s in auto)
qed

lemma fs_only:
  "unlink_sync env d ino st = Inr st' \<Longrightarrow> \<exists>fs. st' = st\<lparr>qm_fs := fs\<rparr>"
  "MOVEFILE env a b ino st = Inr st' \<Longrightarrow> \<exists>fs. st' = st\<lparr>qm_fs := fs\<rparr>"
  by (auto simp: unlink_sync_def MOVEFILE_def elim!: res_bindE split: prod.splits if_splits)

lemma inv_fs [simp]: "qm_inv (st\<lparr>qm_fs := fs\<rparr>) = qm_inv st"
  by (rule inv_frame) simp_all

lemma ADDTIMER_inv:
  assumes inv: "qm_inv st" and q: "2 \<le> q" "q \<le> qm_countq st" and d: "ADDTIMER env q ino st = Inr st'"
  shows "qm_inv st'"
proof -
  obtain now h where h: "heap_insert (q_junk env) (qm_heap st) now q (ucast ino) = Inr h"
      "st' = st\<lparr>qm_heap := h, qm_clock := qm_clock st + 1\<rparr>"
    using d by (auto simp: ADDTIMER_def Let_def elim!: res_bindE)
  have wf: "wf_heap (qm_heap st)" using inv by (simp add: qm_inv_def)
  have "qm_inv (st\<lparr>qm_heap := h\<rparr>)"
    using inv q heap_insert_wf [OF wf h(1)] heap_insert_items [OF wf h(1)]
    by (intro inv_heap) (auto simp: qm_inv_def)
  then show ?thesis using h(2) inv_frame [of st' "st\<lparr>qm_heap := h\<rparr>"] by simp
qed

lemma retire_after:
  assumes inv: "qm_inv st" and fst: "first_idx (\<lambda>m. m_inode m = ino) (live (q_at st ACT)) = Some k"
    and s: "s = m_state (live (q_at st ACT) ! k)" and d: "retire s ino st1 = Inr st'"
    and st1: "qm_inv st1" "live (q_at st1 ACT) = live (q_at st ACT)"
  shows "qm_inv st'"
  using retire_inv [OF st1(1) _ _ d] fst s st1(2) by simp

lemma elem_find_first:
  assumes "wf_msglist l" and "elem_find l ino = Inr i" and "\<not> i < 0"
  obtains k where "first_idx (\<lambda>m. m_inode m = ino) (live l) = Some k" "i = int k" "msg_at l i = Inr (live l ! k)"
proof -
  obtain k where k: "first_idx (\<lambda>m. m_inode m = ino) (live l) = Some k" "i = int k"
    using elem_find_law [OF assms(1), of ino] assms(2,3) by (auto split: option.splits)
  have "k < length (live l)" using first_idx_Some [OF k(1)] by blast
  moreover from this have "live l \<noteq> []" by auto
  ultimately have "i < total l" using total_of_live [OF assms(1)] k(2) by simp
  then show ?thesis using that [OF k] msg_at_live [OF assms(1), of i] k(2) by simp
qed

lemma check_response_eq:
  assumes inv: "qm_inv st"
  shows "check_response env ino code st =
    (case first_idx (\<lambda>m. m_inode m = ino) (live (q_at st ACT)) of
       None \<Rightarrow> Inr (-1, st) | Some k \<Rightarrow> respond env ino code (m_state (live (q_at st ACT) ! k)) st)"
proof -
  have ra: "in_range st ACT" using qinv_wf(2) [OF inv] .
  note wf = qinv_wf(1) [OF inv ra]
  note find = elem_find_law [OF wf, of ino]
  show ?thesis
  proof (cases "first_idx (\<lambda>m. m_inode m = ino) (live (q_at st ACT))")
    case None
    with ra find show ?thesis by (simp add: check_response_def que_eq)
  next
    case (Some k)
    then have f: "elem_find (q_at st ACT) ino = Inr (int k)" using find by simp
    obtain j where "first_idx (\<lambda>m. m_inode m = ino) (live (q_at st ACT)) = Some j" "int k = int j"
        "msg_at (q_at st ACT) (int k) = Inr (live (q_at st ACT) ! j)"
      using elem_find_first [OF wf f] by auto
    with Some ra f show ?thesis by (simp add: check_response_def que_eq)
  qed
qed

lemma respond_inv:
  assumes inv: "qm_inv st" and k: "first_idx (\<lambda>m. m_inode m = ino) (live (q_at st ACT)) = Some k"
    and s: "s = m_state (live (q_at st ACT) ! k)" and d: "respond env ino code s st = Inr (r, st')"
  shows "qm_inv st'"
proof -
  have sr: "1 \<le> s" "s \<le> qm_countq st"
    using first_idx_Some [OF k] inv s by (auto simp: qm_inv_def)
  then have rs: "in_range st s" and sa: "s \<noteq> ACT" using qinv_wf(4) [OF inv] by (auto simp: ACT_def)
  note step = retire_after [OF inv k s]
  note cr = d [unfolded respond_def que_eq Let_def, simplified rs, simplified]
  consider (ok) "code = 0" | (conf) "code = 1" | (fail) "code \<noteq> 0" "code \<noteq> 1" "s = qm_countq st"
    | (later) "code \<noteq> 0" "code \<noteq> 1" "s \<noteq> qm_countq st" by blast
  then show ?thesis
  proof cases
    case ok
    then obtain st1 st2 where u: "unlink_sync env act_dir ino st = Inr st1"
        "unlink_sync env (dir (q_at st s)) ino st1 = Inr st2" "retire s ino st2 = Inr st'"
      using cr by (auto elim!: res_bindE)
    then obtain fs where "st2 = st\<lparr>qm_fs := fs\<rparr>" using fs_only(1) [OF u(1)] fs_only(1) [OF u(2)] by auto
    then show ?thesis using step [OF u(3)] inv by simp
  next
    case conf
    then have "on_que s (\<lambda>l. Inr (0, l\<lparr>conf := conf l + 1\<rparr>)) st = Inr st'" using cr by (auto elim!: res_bindE)
    then show ?thesis using inv_on_que [OF inv sa] by fastforce
  next
    case fail
    then obtain st1 fs where u: "unlink_sync env act_dir ino st = Inr st1" "retire s ino (st1\<lparr>qm_fs := fs\<rparr>) = Inr st'"
      using cr by (auto elim!: res_bindE split: if_splits prod.splits)
    then obtain fs' where "st1 = st\<lparr>qm_fs := fs'\<rparr>" using fs_only(1) [OF u(1)] by auto
    then show ?thesis using step [OF u(2)] inv by simp
  next
    case later
    let ?add = "\<lambda>l. elem_add l (elem_new ino (Timeval 0 0) (s + 1))"
    obtain st1 st2 st3 st4 where st: "unlink_sync env act_dir ino st = Inr st1" "MOVEFILE env s (s + 1) ino st1 = Inr st2"
        "on_que (s + 1) ?add st2 = Inr st3" "retire s ino st3 = Inr st4" "ADDTIMER env (s + 1) ino st4 = Inr st'"
      using cr later by (auto elim!: res_bindE)
    obtain fs where st2: "st2 = st\<lparr>qm_fs := fs\<rparr>" using fs_only(1) [OF st(1)] fs_only(2) [OF st(2)] by auto
    have n: "s + 1 \<noteq> ACT" using sr by (simp add: ACT_def)
    have inv2: "qm_inv st2" using inv st2 by simp
    have inv3: "qm_inv st3" using inv_on_que [OF inv2 n st(3)] elem_add_wf by blast
    obtain l where l: "in_range st2 (s + 1)" "st3 = set_que (s + 1) l st2" using on_queE [OF st(3)] by blast
    then have q: "q_at st3 ACT = q_at st ACT" using q_at_set [OF l(1), of ACT l] n st2 by (simp add: ACT_def)
    have inv4: "qm_inv st4" using step [OF st(4) inv3] q by simp
    obtain la ls where "st4 = set_que s ls (set_que ACT la st3)" using retire_eff [OF inv3 sa st(4)] by metis
    then have "qm_countq st4 = qm_countq st" using l(2) st2 by simp
    then show ?thesis using ADDTIMER_inv [OF inv4 _ _ st(5)] sr later(3) by simp
  qed
qed

lemma check_response_inv:
  assumes "qm_inv st" and "check_response env ino code st = Inr (r, st')"
  shows "qm_inv st'"
  using assms respond_inv [OF assms(1)] by (auto simp: check_response_eq split: option.splits)

lemma read_responses_inv: "qm_inv st \<Longrightarrow> read_responses env rs n st = Inr (n', st') \<Longrightarrow> qm_inv st'"
  by (induction env rs n st rule: read_responses.induct) (auto elim!: res_bindE dest: check_response_inv)

lemma inv_frame_simps [simp]:
  "qm_inv (st\<lparr>qm_pipe := a\<rparr>) = qm_inv st" "qm_inv (st\<lparr>qm_clock := b\<rparr>) = qm_inv st"
  "qm_inv (st\<lparr>qm_sigpipe := c\<rparr>) = qm_inv st" "qm_inv (st\<lparr>qm_kills := d\<rparr>) = qm_inv st"
  "qm_inv (st\<lparr>qm_isconnect := e\<rparr>) = qm_inv st" "qm_inv (st\<lparr>qm_wait := e\<rparr>) = qm_inv st"
  "qm_inv (st\<lparr>qm_fd0 := g\<rparr>) = qm_inv st" "qm_inv (st\<lparr>qm_fd1 := g\<rparr>) = qm_inv st"
  "qm_inv (st\<lparr>qm_minnode := h\<rparr>) = qm_inv st" "qm_inv (st\<lparr>qm_childpid := e\<rparr>) = qm_inv st"
  by (rule inv_frame; simp)+

text \<open>Sending under a window no wider than the queue's own.\<close>

lemma send_inv:
  assumes "qm_inv st" and "1 \<le> q" and "may_send w (q_at st q)" and "w \<le> (if q = IN then WINSIZE else WINDEFSIZE)"
    and "dispatch env q ino st = Inr st'"
  shows "qm_inv st'"
  using dispatch_inv [OF assms(1,2) _ assms(5)] assms(3,4) by (auto simp: may_send_def)

text \<open>One pass of the flushing loop: finished, a look at a queue with messages, or the next queue down.\<close>

lemma flush_loop_cases [consumes 2, case_names done0 step down]:
  assumes fl: "flush_loop env i bs n st = Some (Inr (n', bs', st'))" and inv: "qm_inv st"
  obtains "i = 0" "st' = st"
  | l st1 b bs1 m st2 where "i \<noteq> 0" "que st (int i) = Inr l" "total l > 0"
      "(if may_send WINSIZE l
        then res_bind (GETFILENAME (int i) st) (\<lambda>definode. dispatch env (int i) definode st) else Inr st) = Inr st1"
      "bs = b # bs1" "read_responses env b n st1 = Inr (m, st2)"
      "flush_loop env i bs1 m st2 = Some (Inr (n', bs', st'))" "qm_inv st1" "qm_inv st2"
  | l where "i \<noteq> 0" "que st (int i) = Inr l" "\<not> total l > 0"
      "flush_loop env (i - 1) bs n st = Some (Inr (n', bs', st'))"
proof (cases "i = 0")
  case True
  then show ?thesis using that(1) fl by (subst (asm) flush_loop.simps) simp
next
  case i: False
  note fl = fl [unfolded flush_loop.simps [of env i bs n st]]
  obtain l where l: "que st (int i) = Inr l" using fl i by (cases "que st (int i)") auto
  then have lq: "l = q_at st (int i)" by (auto simp: que_eq split: if_splits)
  show ?thesis
  proof (cases "total l > 0")
    case False
    then show ?thesis using that(3) [OF i l] fl i l by simp
  next
    case tot: True
    let ?x = "if may_send WINSIZE l
      then res_bind (GETFILENAME (int i) st) (\<lambda>definode. dispatch env (int i) definode st) else Inr st"
    obtain st1 where x: "?x = Inr st1" using fl i l tot by (cases ?x) auto
    have inv1: "qm_inv st1"
    proof (cases "may_send WINSIZE l")
      case True
      then obtain ino where "dispatch env (int i) ino st = Inr st1" using x by (auto elim!: res_bindE)
      then show ?thesis using send_inv [of st "int i" WINSIZE] inv i True lq
        by (auto simp: WINSIZE_def WINDEFSIZE_def split: if_splits)
    qed (use x inv in auto)
    obtain b bs1 where bs: "bs = b # bs1" using fl i l tot x by (cases bs) auto
    obtain m st2 where rr: "read_responses env b n st1 = Inr (m, st2)"
      using fl i l tot x bs by (cases "read_responses env b n st1") auto
    have "flush_loop env i bs1 m st2 = Some (Inr (n', bs', st'))" using fl i l tot x bs rr by simp
    then show ?thesis using that(2) [OF i l tot x bs rr _ inv1 read_responses_inv [OF inv1 rr]] by simp
  qed
qed

lemma flush_loop_inv:
  "flush_loop env i bs n st = Some (Inr (n', bs', st')) \<Longrightarrow> qm_inv st \<Longrightarrow> qm_inv st'"
proof (induction env i bs n st rule: flush_loop.induct)
  case (1 env i bs n st)
  from "1.prems" show ?case
  proof (cases rule: flush_loop_cases)
    case (step l st1 b bs1 m st2)
    then show ?thesis using "1.IH"(1) [OF step(1,2,3,4,5,6)] by blast
  next
    case (down l)
    then show ?thesis using "1.IH"(2) "1.prems"(2) by blast
  qed (use "1.prems" in simp)
qed

text \<open>While the poll waits with a timeout there is a connection and a timer.\<close>

definition wait_inv :: "qm \<Rightarrow> bool" where
  "wait_inv st \<longleftrightarrow> (qm_wait st \<noteq> -1 \<longrightarrow> qm_isconnect st > 0 \<and> heap_items (qm_heap st) \<noteq> {#})"

text \<open>What keeps the waiting time and the connection and loses no timer.\<close>

definition calm :: "qm \<Rightarrow> qm \<Rightarrow> bool" where
  "calm st st' \<longleftrightarrow> qm_wait st' = qm_wait st \<and> qm_isconnect st' = qm_isconnect st
     \<and> heap_items (qm_heap st) \<subseteq># heap_items (qm_heap st')"

lemma calm_refl [simp]: "calm st st"
  by (simp add: calm_def)

lemma calm_trans: "calm a b \<Longrightarrow> calm b c \<Longrightarrow> calm a c"
  by (auto simp: calm_def intro: subset_mset.order_trans)

lemma calm_wait_inv: "calm st st' \<Longrightarrow> wait_inv st \<Longrightarrow> wait_inv st'"
  by (auto simp: calm_def wait_inv_def)

lemma calm_frame:
  "qm_heap st' = qm_heap st \<Longrightarrow> qm_wait st' = qm_wait st \<Longrightarrow> qm_isconnect st' = qm_isconnect st \<Longrightarrow> calm st st'"
  by (simp add: calm_def)

lemma on_que_calm: "on_que i f st = Inr st' \<Longrightarrow> calm st st'"
  by (erule on_queE) (simp add: calm_def set_que_def)

lemma dispatch_calm: "dispatch env q ino st = Inr st' \<Longrightarrow> calm st st'"
  by (auto simp: dispatch_def COPYFILE_def elim!: res_bindE on_queE split: prod.splits if_splits)
    (simp_all add: calm_def set_que_def)

lemma retire_calm: "retire s ino st = Inr st' \<Longrightarrow> calm st st'"
  by (auto simp: retire_def elim!: res_bindE dest!: on_que_calm intro: calm_trans)

lemma fs_calm: "calm (st\<lparr>qm_fs := fs\<rparr>) st' = calm st st'"
  by (simp add: calm_def)

lemma scan_entries_calm: "scan_entries env es n st = Inr (n', st') \<Longrightarrow> calm st st'"
proof (induction es arbitrary: n st)
  case (Cons e es)
  show ?case
  proof (cases "de_name e = CURDIR \<or> de_name e = PARENTDIR \<or> strtoul (de_name e) \<noteq> de_ino e")
    case False
    then obtain f fs n1 st1 where "on_que IN f (st\<lparr>qm_fs := fs\<rparr>) = Inr st1" "scan_entries env es n1 st1 = Inr (n', st')"
      using Cons.prems by (auto elim!: res_bindE split: option.splits if_splits prod.splits)
    then show ?thesis using Cons.IH on_que_calm calm_trans fs_calm by blast
  qed (use Cons in \<open>auto split: if_splits\<close>)
qed auto

lemma scan_drop_calm: "scan_drop env w st = Inr (n, st') \<Longrightarrow> calm st st'"
  by (auto simp: scan_drop_def elim!: res_bindE split: option.splits if_splits
      dest!: scan_entries_calm on_que_calm intro: calm_trans)

lemma ADDTIMER_calm:
  assumes wf: "wf_heap (qm_heap st)" and "ADDTIMER env q ino st = Inr st'"
  shows "calm st st'"
proof -
  obtain now h where h: "heap_insert (q_junk env) (qm_heap st) now q (ucast ino) = Inr h"
      "st' = st\<lparr>qm_heap := h, qm_clock := qm_clock st + 1\<rparr>"
    using assms(2) by (auto simp: ADDTIMER_def Let_def elim!: res_bindE)
  from heap_insert_items [OF wf h(1)] show ?thesis using h(2) by (simp add: calm_def)
qed

lemma heap_frame:
  "on_que i f st = Inr st' \<Longrightarrow> qm_heap st' = qm_heap st"
  "retire s ino st = Inr st' \<Longrightarrow> qm_heap st' = qm_heap st"
  by (auto simp: retire_def elim!: on_queE res_bindE)

lemma respond_calm:
  assumes wf: "wf_heap (qm_heap st)" and d: "respond env ino code s st = Inr (r, st')"
  shows "calm st st'"
proof -
  note cr = d [unfolded respond_def Let_def]
  consider (ok) "code = 0" | (conf) "code = 1" | (fail) "code \<noteq> 0" "code \<noteq> 1" "s = qm_countq st"
    | (later) "code \<noteq> 0" "code \<noteq> 1" "s \<noteq> qm_countq st" by blast
  then show ?thesis
  proof cases
    case ok
    then show ?thesis using cr fs_only(1) by (auto elim!: res_bindE dest!: fs_only(1) retire_calm simp: fs_calm)
  next
    case conf
    then show ?thesis using cr by (auto elim!: res_bindE dest!: on_que_calm)
  next
    case fail
    then show ?thesis using cr by (auto elim!: res_bindE dest!: fs_only(1) retire_calm simp: fs_calm split: prod.splits if_splits)
  next
    case later
    then obtain st1 st2 st3 st4 f where st: "unlink_sync env act_dir ino st = Inr st1" "MOVEFILE env s (s + 1) ino st1 = Inr st2"
        "on_que (s + 1) f st2 = Inr st3" "retire s ino st3 = Inr st4" "ADDTIMER env (s + 1) ino st4 = Inr st'"
      using cr by (auto elim!: res_bindE)
    obtain fs where st2: "st2 = st\<lparr>qm_fs := fs\<rparr>" using fs_only(1) [OF st(1)] fs_only(2) [OF st(2)] by auto
    have "wf_heap (qm_heap st4)" using heap_frame(1) [OF st(3)] heap_frame(2) [OF st(4)] st2 wf by simp
    then have "calm st2 st'"
      using on_que_calm [OF st(3)] retire_calm [OF st(4)] ADDTIMER_calm [OF _ st(5)] calm_trans by blast
    then show ?thesis using st2 by (simp add: fs_calm)
  qed
qed

lemma check_response_calm:
  assumes "qm_inv st" and "check_response env ino code st = Inr (r, st')"
  shows "calm st st'"
  using assms respond_calm [of st] by (auto simp: check_response_eq qm_inv_def split: option.splits)

lemma read_responses_calm: "qm_inv st \<Longrightarrow> read_responses env rs n st = Inr (n', st') \<Longrightarrow> calm st st'"
proof (induction env rs n st rule: read_responses.induct)
  case (2 env ino code rs n st)
  obtain r st1 where c: "check_response env ino code st = Inr (r, st1)"
      and rr: "read_responses env rs (if r > 0 then n + 1 else n) st1 = Inr (n', st')"
    using "2.prems"(2) by (auto elim!: res_bindE)
  have "calm st1 st'" using "2.IH" [OF c refl check_response_inv [OF "2.prems"(1) c] rr] .
  with check_response_calm [OF "2.prems"(1) c] show ?case by (rule calm_trans)
qed simp

lemma flush_loop_calm:
  "flush_loop env i bs n st = Some (Inr (n', bs', st')) \<Longrightarrow> qm_inv st \<Longrightarrow> calm st st'"
proof (induction env i bs n st rule: flush_loop.induct)
  case (1 env i bs n st)
  from "1.prems" show ?case
  proof (cases rule: flush_loop_cases)
    case (step l st1 b bs1 m st2)
    have "calm st2 st'" using "1.IH"(1) [OF step(1,2,3,4,5,6)] step(7,9) by blast
    moreover have "calm st st1" using step(4) dispatch_calm by (auto elim!: res_bindE split: if_splits)
    ultimately show ?thesis using read_responses_calm [OF step(8,6)] calm_trans by blast
  next
    case (down l)
    then show ?thesis using "1.IH"(2) "1.prems"(2) by blast
  qed simp
qed

end
