(* ===== verification/QuemngrTurns.thy ===== *)
theory QuemngrTurns
  imports QuemngrProps
begin

text \<open>
  The main loop of the queue manager: the invariant holds in every state it can reach from its
  start, whatever the child, the file system and the signals do.
\<close>

section \<open>Turns of the main loop\<close>

lemma set_wait_law:
  assumes "set_wait env st = Inr st'"
  shows "qm_inv st' = qm_inv st" and "qm_isconnect st' = qm_isconnect st" and "qm_heap st' = qm_heap st"
    and "qm_wait st' \<noteq> -1 \<Longrightarrow> qm_minnode st' = heap_min (qm_heap st') \<and> qm_minnode st' \<noteq> None"
  using assms by (auto simp: set_wait_def Let_def elim!: res_bindE split: if_splits option.splits)

lemma heap_min_items: "wf_heap h \<Longrightarrow> heap_min h \<noteq> None \<longleftrightarrow> heap_items h \<noteq> {#}"
  by (simp add: heap_min_None)

text \<open>Before the poll at most one message of the input queue is sent, and a timeout is that of the earliest timer.\<close>

lemma before_poll_inv:
  assumes inv: "qm_inv st" "wait_inv st" and b: "before_poll env st = Inr st'"
  shows "qm_inv st' \<and> wait_inv st' \<and> (qm_wait st' \<noteq> -1 \<longrightarrow> qm_minnode st' = heap_min (qm_heap st'))"
proof (cases "qm_isconnect st > 0")
  case False
  then show ?thesis using inv b by (auto simp: before_poll_def wait_inv_def)
next
  case con: True
  obtain l where l: "que st IN = Inr l" using qinv_wf(3) [OF inv(1)] by (simp add: que_eq)
  then have lq: "l = q_at st IN" by (auto simp: que_eq split: if_splits)
  obtain st1 where st1: "(if may_send WINSIZE l
      then res_bind (GETFILENAME IN st) (\<lambda>inode. dispatch env IN inode (st\<lparr>qm_fd0 := False\<rparr>))
      else if total l = send l then Inr (st\<lparr>qm_fd0 := True\<rparr>) else Inr st) = Inr st1"
      and w: "set_wait env st1 = Inr st'"
    using b con l by (auto simp: before_poll_def elim!: res_bindE)
  have s1: "qm_inv st1 \<and> qm_isconnect st1 > 0"
  proof (cases "may_send WINSIZE l")
    case True
    then obtain ino where d: "dispatch env IN ino (st\<lparr>qm_fd0 := False\<rparr>) = Inr st1" using st1 by (auto elim!: res_bindE)
    then have "qm_inv st1" using send_inv [of "st\<lparr>qm_fd0 := False\<rparr>" IN WINSIZE] inv(1) True lq
      by (simp add: IN_def q_at_def)
    then show ?thesis using dispatch_calm [OF d] con by (simp add: calm_def)
  next
    case False
    then show ?thesis using st1 inv(1) con by (auto split: if_splits)
  qed
  have wf: "wf_heap (qm_heap st')" using set_wait_law [OF w] s1 by (simp add: qm_inv_def)
  have "heap_items (qm_heap st') \<noteq> {#}" if "qm_wait st' \<noteq> -1"
    using set_wait_law(4) [OF w that] heap_min_items [OF wf] by metis
  then show ?thesis using set_wait_law [OF w] s1 by (simp add: wait_inv_def)
qed

lemma extract_inv:
  assumes inv: "qm_inv st" and m: "heap_min (qm_heap st) = Some x" and e: "heap_extract_min (qm_heap st) = Inr (y, h)"
  shows "qm_inv (st\<lparr>qm_heap := h\<rparr>)"
proof -
  have wf: "wf_heap (qm_heap st)" using inv by (simp add: qm_inv_def)
  then have e': "heap_extract_min (qm_heap st) = Inr (x, h)" using e heap_extract_min_eq [OF wf m] by simp
  show ?thesis
    using inv heap_extract_min_wf [OF wf m e'] heap_extract_min_items [OF wf m e']
    by (intro inv_heap) (auto simp: qm_inv_def)
qed

lemma dispatch_heap: "dispatch env q ino st = Inr st' \<Longrightarrow> qm_heap st' = qm_heap st"
  by (auto simp: dispatch_def COPYFILE_def elim!: res_bindE on_queE split: prod.splits if_splits)

lemma on_timeout_inv:
  assumes inv: "qm_inv st" and m: "qm_minnode st = heap_min (qm_heap st)" and t: "on_timeout env st = Inr st'"
  shows "qm_inv st' \<and> wait_inv st'"
proof -
  obtain x where x: "qm_minnode st = Some x" using t by (auto simp: on_timeout_def split: option.splits)
  let ?st = "st\<lparr>qm_wait := -1\<rparr>" and ?q = "hn_indque x" and ?ino = "scast (hn_inode x) :: ino_t"
  have wf: "wf_heap (qm_heap st)" using inv by (simp add: qm_inv_def)
  have q: "2 \<le> ?q" using timers.peek_in [OF wf] m x inv by (auto simp: qm_inv_def)
  have inv': "qm_inv ?st" and m': "heap_min (qm_heap ?st) = Some x" using inv m x by simp_all
  note t' = t [unfolded on_timeout_def x option.case Let_def]
  obtain l i where l: "que ?st ?q = Inr l" "elem_find l ?ino = Inr i" using t' by (auto elim!: res_bindE)
  have lq: "l = q_at ?st ?q" using l(1) by (auto simp: que_eq split: if_splits)
  consider (gone) y h where "i < 0" "heap_extract_min (qm_heap ?st) = Inr (y, h)" "st' = ?st\<lparr>qm_heap := h\<rparr>"
    | (send) st1 y h where "may_send WINDEFSIZE l" "dispatch env ?q ?ino ?st = Inr st1"
        "heap_extract_min (qm_heap st1) = Inr (y, h)" "st' = st1\<lparr>qm_heap := h\<rparr>"
    | (busy) "st' = ?st"
    using t' l by (auto elim!: res_bindE split: if_splits)
  then show ?thesis
  proof cases
    case gone
    then show ?thesis using extract_inv [OF inv' m'] by (simp add: wait_inv_def)
  next
    case send
    have "qm_inv st1" using send_inv [OF inv' _ send(1) [unfolded lq] _ send(2)] q
      by (simp add: IN_def WINSIZE_def WINDEFSIZE_def)
    then have "qm_inv st'" using extract_inv [OF _ _ send(3)] dispatch_heap [OF send(2)] m' send(4) by simp
    then show ?thesis using dispatch_calm [OF send(2)] send(4) by (simp add: calm_def wait_inv_def)
  next
    case busy
    then show ?thesis using inv' by (simp add: wait_inv_def)
  qed
qed

lemma on_signals_inv:
  "env_ok env \<Longrightarrow> qm_inv st \<Longrightarrow> wait_inv st \<Longrightarrow> on_signals env cs usr st = Some (Inr st') \<Longrightarrow> qm_inv st' \<and> wait_inv st'"
proof (induction cs arbitrary: usr st)
  case (Cons c cs)
  let ?st = "st\<lparr>qm_sigpipe := tl (qm_sigpipe st)\<rparr>"
  note sig = Cons.prems(4) [simplified on_signals.simps Let_def]
  have rd: "q_sig_read env" using sig by (simp split: if_splits)
  have inv: "qm_inv ?st" "wait_inv ?st" using Cons.prems(2,3) by (simp_all add: wait_inv_def)
  consider (H) "c = CHR ''H''" | (U) "c = CHR ''U''" | (other) "c \<noteq> CHR ''H''" "c \<noteq> CHR ''U''" by blast
  then show ?case
  proof cases
    case H
    let ?st1 = "?st\<lparr>qm_wait := -1, qm_isconnect := 0, qm_fd0 := False, qm_fd1 := False\<rparr>"
    have "on_signals env cs usr ?st1 = Some (Inr st')" using sig H rd by simp
    moreover have "qm_inv ?st1" "wait_inv ?st1" using inv by (simp_all add: wait_inv_def)
    ultimately show ?thesis using Cons.IH [OF Cons.prems(1)] by blast
  next
    case other
    then have "on_signals env cs usr ?st = Some (Inr st')" using sig rd by simp
    then show ?thesis using Cons.IH [OF Cons.prems(1)] inv by blast
  next
    case U
    let ?st1 = "?st\<lparr>qm_isconnect := 1, qm_fd0 := True, qm_fd1 := True\<rparr>"
    obtain d bs usr' where usr: "usr = (d, bs) # usr'" using U sig rd by (cases usr) auto
    obtain n st2 where st2: "scan_drop env d ?st1 = Inr (n, st2)"
      using U sig usr rd by (cases "scan_drop env d ?st1") auto
    obtain n' bs' st3 where st3: "Quemngr.flush_queue env bs st2 = Some (Inr (n', bs', st3))"
        and rest: "on_signals env cs usr' (st3\<lparr>qm_kills := qm_kills st3 @ [''USR2'']\<rparr>) = Some (Inr st')"
      using U sig usr st2 rd by (auto split: option.splits sum.splits)
    have inv2: "qm_inv st2" using scan_drop_inv [OF Cons.prems(1) _ st2] inv(1) by simp
    have "calm ?st1 st3"
      using scan_drop_calm [OF st2] flush_loop_calm [OF st3 [unfolded flush_queue_def] inv2] by (rule calm_trans)
    moreover have "wait_inv ?st1" using inv(2) by (simp add: wait_inv_def)
    ultimately have "wait_inv st3" by (rule calm_wait_inv)
    moreover have "qm_inv st3" using flush_loop_inv [OF st3 [unfolded flush_queue_def] inv2] .
    ultimately show ?thesis using Cons.IH [OF Cons.prems(1) _ _ rest] by (simp add: wait_inv_def)
  qed
qed simp

lemma on_ready_inv:
  assumes env: "env_ok env" and inv: "qm_inv st" "wait_inv st" and r: "on_ready env r st = Some (Inr st')"
  shows "qm_inv st' \<and> wait_inv st'"
proof -
  let ?t = "case rdy_trig r of None \<Rightarrow> Inr st | Some (te, dropdir) \<Rightarrow> on_trigger env te dropdir st"
  obtain st1 where st1: "?t = Inr st1" using r by (cases ?t) (auto simp: on_ready_def)
  let ?p = "case rdy_pipe r of None \<Rightarrow> Inr (0, st1) | Some rs \<Rightarrow> read_responses env rs 0 st1"
  obtain n st2 where st2: "?p = Inr (n, st2)" using r st1 by (cases ?p) (auto simp: on_ready_def)
  have s: "if rdy_sig r then on_signals env (qm_sigpipe st2) (rdy_usr r) st2 = Some (Inr st') else st' = st2"
    using r st1 st2 by (auto simp: on_ready_def split: if_splits)
  have 1: "qm_inv st1 \<and> calm st st1"
  proof (cases "rdy_trig r")
    case (Some td)
    then obtain k where "scan_drop env (snd td) st = Inr (k, st1)"
      using st1 by (auto simp: on_trigger_def elim!: res_bindE split: if_splits prod.splits)
    then show ?thesis using scan_drop_inv [OF env inv(1)] scan_drop_calm by blast
  qed (use st1 inv in auto)
  have 2: "qm_inv st2 \<and> calm st1 st2"
  proof (cases "rdy_pipe r")
    case (Some rs)
    then show ?thesis using st2 1 read_responses_inv read_responses_calm by auto
  qed (use st2 1 in auto)
  have "wait_inv st2" using 1 2 inv(2) calm_wait_inv by blast
  then show ?thesis using s 2 on_signals_inv [OF env] by (cases "rdy_sig r") auto
qed

section \<open>Start-up\<close>

text \<open>A queue before anything is put into it.\<close>

definition unused :: "msglist \<Rightarrow> bool" where
  "unused l \<longleftrightarrow> ml_msg l = None \<and> nmax l = 0 \<and> (total l = 0 \<or> total l = -1) \<and> send l = 0 \<and> conf l = 0"

lemma unused_facts: "unused l \<Longrightarrow> wf_msglist l \<and> live l = [] \<and> send l = 0"
  by (simp add: unused_def wf_msglist_def live_def)

lemma unused_zero [simp]: "unused msglist_zero" "unused (msglist_zero\<lparr>dir := d, timeout := t\<rparr>)"
  "unused (msglist_zero\<lparr>dir := d, timeout := t, total := -1\<rparr>)"
  by (simp_all add: unused_def msglist_zero_def)

lemma add_deferred_law:
  "add_deferred es c ql = Inr (c', ql') \<Longrightarrow> (\<forall>l \<in> set ql. unused l) \<Longrightarrow> int (length ql) = c + 1 \<Longrightarrow>
   (\<forall>l \<in> set ql'. unused l) \<and> int (length ql') = c' + 1 \<and> length ql \<le> length ql'"
proof (induction es arbitrary: c ql)
  case (Cons e es)
  show ?case
  proof (cases "df_name e = CURDIR \<or> df_name e = PARENTDIR \<or> df_stat e = Some False \<or> \<not> calctimeout (df_name e) > 0")
    case True
    then show ?thesis using Cons by (auto split: if_splits option.splits)
  next
    case False
    let ?q = "msglist_zero\<lparr>dir := df_dir @ df_name e, timeout := calctimeout (df_name e)\<rparr>"
    have "add_deferred es (int (length ql)) (ql @ [?q]) = Inr (c', ql')"
      using Cons.prems(1) False by (auto simp: queue_add_def split: if_splits option.splits)
    from Cons.IH [OF this] show ?thesis using Cons.prems(2) by auto
  qed
qed auto

lemma unused_inv:
  assumes "\<forall>l \<in> set (qm_list st). unused l" and "2 \<le> length (qm_list st)"
    and "qm_countq st = int (length (qm_list st)) - 1" and "wf_heap (qm_heap st)" and "heap_items (qm_heap st) = {#}"
  shows "qm_inv st"
proof -
  have u: "in_range st i \<Longrightarrow> unused (q_at st i)" for i using assms(1) by (auto simp: in_range_def q_at_def)
  have "in_range st ACT" using assms(2) by (auto simp: in_range_def ACT_def)
  then have "live (q_at st ACT) = []" using u unused_facts by blast
  then have a: "active st q = 0" for q by (simp add: active_def)
  have "send (q_at st q) = 0" if "1 \<le> q" "q \<le> qm_countq st" for q
    using u [of q] unused_facts that assms(3) by (auto simp: in_range_def)
  then show ?thesis using assms a u unused_facts \<open>live (q_at st ACT) = []\<close>
    by (auto simp: qm_inv_def WINSIZE_def WINDEFSIZE_def)
qed

lemma queue_restore_keeps:
  assumes "wf_msglist l" and "queue_restore l i w = Inr (r, l')"
  shows "wf_msglist l' \<and> send l' = send l"
proof -
  have e: "wf_msglist l \<Longrightarrow> queue_restore_entries l i es = Inr l' \<Longrightarrow> wf_msglist l' \<and> send l' = send l" for es l
  proof (induction es arbitrary: l)
    case (Cons e es)
    show ?case
    proof (cases "d_name e = CURDIR \<or> d_name e = PARENTDIR")
      case False
      then obtain m n l1 where l1: "elem_add l m = Inr (n, l1)" "queue_restore_entries l1 i es = Inr l'"
        using Cons.prems(2) by (auto elim!: res_bindE split: option.splits)
      then show ?thesis using Cons.IH elem_add_wf [OF Cons.prems(1) l1(1)] by auto
    qed (use Cons in auto)
  qed simp
  obtain es where "queue_restore_entries l i es = Inr l'"
    using assms(2) by (auto simp: queue_restore_def elim!: res_bindE split: option.splits)
  then show ?thesis using e assms(1) by blast
qed

lemma restore_queues_inv:
  "env_ok env \<Longrightarrow> qm_inv st \<Longrightarrow> 1 \<le> i \<Longrightarrow> restore_queues env rd n i st = Inr st' \<Longrightarrow> qm_inv st'"
proof (induction n arbitrary: i st)
  case (Suc n)
  obtain st1 st2 where st1: "on_que i (\<lambda>l. queue_restore l i (rd (dir l))) st = Inr st1"
      and st2: "on_que i (\<lambda>l. res_bind (queue_sort (q_qsort env) l) (\<lambda>l. Inr (0, l))) st1 = Inr st2"
      and rest: "restore_queues env rd n (i + 1) st2 = Inr st'"
    using Suc.prems(4) by (auto elim!: res_bindE)
  have i: "i \<noteq> ACT" using Suc.prems(3) by (simp add: ACT_def)
  have "qm_inv st1" using inv_on_que [OF Suc.prems(2) i st1] queue_restore_keeps by blast
  then have "qm_inv st2" using inv_on_que [OF _ i st2] sort_keeps [OF Suc.prems(1)] by blast
  then show ?case using Suc.IH [OF Suc.prems(1) _ _ rest] Suc.prems(3) by simp
qed simp

lemma initqueue_lists_inv:
  assumes s: "is_qsort queue_comp sortq"
    and a: "add_deferred es 1 [msglist_zero\<lparr>dir := act_dir, timeout := 0, total := -1\<rparr>, msglist_zero\<lparr>dir := in_dir, timeout := 0\<rparr>] = Inr (c, ql)"
  shows "qm_inv (st\<lparr>qm_list := sortq ql, qm_countq := c, qm_heap := heap_create (q_junk env) TIMERHEAPSIZE\<rparr>)"
proof -
  have ql: "\<forall>l \<in> set ql. unused l" "int (length ql) = c + 1" "2 \<le> length ql"
    using add_deferred_law [OF a] by simp_all
  then show ?thesis
    by (intro unused_inv) (use is_qsort_set [OF s] is_qsort_length [OF s] in
        \<open>simp_all add: wf_heap_create heap_items_create TIMERHEAPSIZE_def\<close>)
qed

lemma initqueue_restored_inv:
  assumes env: "env_ok env" and s: "is_qsort queue_comp sortq"
    and a: "add_deferred es 1 [msglist_zero\<lparr>dir := act_dir, timeout := 0, total := -1\<rparr>, msglist_zero\<lparr>dir := in_dir, timeout := 0\<rparr>] = Inr (c, ql)"
    and r: "restore_queues env rd (nat c) 1 (st\<lparr>qm_list := sortq ql, qm_countq := c,
      qm_heap := heap_create (q_junk env) TIMERHEAPSIZE\<rparr>) = Inr st2"
  shows "qm_inv st2"
  using restore_queues_inv [OF env initqueue_lists_inv [OF s a] _ r] by simp

lemma initqueue_inv:
  assumes env: "env_ok env" and s: "is_qsort queue_comp sortq" and q: "initqueue env sortq w rd d st = Inr st'"
  shows "qm_inv st'"
proof -
  let ?ql = "[msglist_zero\<lparr>dir := act_dir, timeout := 0, total := -1\<rparr>, msglist_zero\<lparr>dir := in_dir, timeout := 0\<rparr>]"
  obtain es c ql k st2 where a: "add_deferred es 1 ?ql = Inr (c, ql)"
    and r: "restore_queues env rd (nat c) 1 (st\<lparr>qm_list := sortq ql, qm_countq := c,
      qm_heap := heap_create (q_junk env) TIMERHEAPSIZE\<rparr>) = Inr st2"
    and d: "scan_drop env d st2 = Inr (k, st')"
    using q by (auto simp: initqueue_def queue_add_def Let_def elim!: res_bindE split: option.splits)
  show ?thesis using scan_drop_inv [OF env initqueue_restored_inv [OF env s a r] d] .
qed

lemma start_inv:
  assumes "env_ok env" and "is_qsort queue_comp sortq" and "quemngr_start env se sortq w rd d fs = Inr st"
  shows "qm_inv st \<and> wait_inv st"
proof -
  obtain st1 where i: "initqueue env sortq w rd d (qm_zero fs) = Inr st1"
      and "st = st1\<lparr>qm_childpid := se_fork se, qm_isconnect := 0, qm_wait := -1, qm_fd0 := False, qm_fd1 := False\<rparr>"
    using assms(3) by (auto simp: quemngr_start_def start_child_def start_trigger_def elim!: res_bindE split: if_splits)
  then show ?thesis using initqueue_inv [OF assms(1,2) i] by (simp add: wait_inv_def)
qed

section \<open>Reachable states\<close>

text \<open>\<open>poll\<close> reports a timeout only when it was given one.\<close>

definition may_return :: "qenv \<Rightarrow> poll_result \<Rightarrow> qm \<Rightarrow> bool" where
  "may_return env p st =
     (case before_poll env st of Inl e \<Rightarrow> True | Inr st1 \<Rightarrow> p \<noteq> PollTimeout \<or> 0 \<le> qm_wait st1)"

text \<open>Turns of the loop and, between them, signal handlers and other processes that change files.\<close>

inductive qm_reach :: "qm \<Rightarrow> bool" where
  start: "env_ok env \<Longrightarrow> is_qsort queue_comp sortq \<Longrightarrow> quemngr_start env se sortq w rd d fs = Inr st \<Longrightarrow> qm_reach st"
| turn: "qm_reach st \<Longrightarrow> env_ok env \<Longrightarrow> may_return env p st \<Longrightarrow> main_turn env p st = Some (Inr st') \<Longrightarrow> qm_reach st'"
| hup: "qm_reach st \<Longrightarrow> sig_hup env st = Inr st' \<Longrightarrow> qm_reach st'"
| usr1: "qm_reach st \<Longrightarrow> sig_usr1 env st = Inr st' \<Longrightarrow> qm_reach st'"
| sigterm: "qm_reach st \<Longrightarrow> sig_term st = Inr st' \<Longrightarrow> qm_reach st'"
| chld: "qm_reach st \<Longrightarrow> sig_chld pid st = Inr st' \<Longrightarrow> qm_reach st'"
| files: "qm_reach st \<Longrightarrow> qm_reach (st\<lparr>qm_fs := fs\<rparr>)"

lemma main_turn_inv:
  assumes "qm_inv st" "wait_inv st" "env_ok env" and may: "may_return env p st"
    and t: "main_turn env p st = Some (Inr st')"
  shows "qm_inv st' \<and> wait_inv st'"
proof -
  obtain st1 where b: "before_poll env st = Inr st1" and a: "after_poll env p st1 = Some (Inr st')"
    using t by (auto simp: main_turn_def split: sum.splits)
  note st1 = before_poll_inv [OF assms(1,2) b]
  show ?thesis
  proof (cases p)
    case PollTimeout
    then have "qm_minnode st1 = heap_min (qm_heap st1)" using st1 may b by (auto simp: may_return_def)
    then show ?thesis using on_timeout_inv [of st1 env st'] st1 a PollTimeout by (simp add: after_poll_def)
  qed (use a st1 on_ready_inv [OF assms(3)] in \<open>auto simp: after_poll_def\<close>)
qed

lemma signal_frame:
  "sig_hup env st = Inr st' \<Longrightarrow> qm_inv st' = qm_inv st \<and> wait_inv st' = wait_inv st"
  "sig_usr1 env st = Inr st' \<Longrightarrow> qm_inv st' = qm_inv st \<and> wait_inv st' = wait_inv st"
  "sig_term st = Inr st' \<Longrightarrow> qm_inv st' = qm_inv st \<and> wait_inv st' = wait_inv st"
  by (auto simp: sig_hup_def sig_usr1_def flag_signal_def sig_term_def wait_inv_def elim!: res_bindE split: if_splits)

lemma qm_reach_inv: "qm_reach st \<Longrightarrow> qm_inv st \<and> wait_inv st"
proof (induction rule: qm_reach.induct)
  case (chld st pid st')
  then show ?case using signal_frame(3) [of "st\<lparr>qm_childpid := 0\<rparr>" st']
    by (auto simp: sig_chld_def wait_inv_def split: if_splits)
next
  case (files st fs)
  then show ?case by (simp add: wait_inv_def)
qed (use start_inv main_turn_inv signal_frame in blast)+

end
