(* ===== verification/QuemngrSafety.thy ===== *)
theory QuemngrSafety
  imports QuemngrTurns
begin

text \<open>
  No turn of the queue manager touches memory outside its objects: under the invariant every
  index is inside its array and every pointer that is followed is set.
\<close>

lemma que_safe: "in_range st i \<Longrightarrow> mem_safe (que st i)"
  by (simp add: que_eq)

lemma on_que_safe: "in_range st i \<Longrightarrow> mem_safe (f (q_at st i)) \<Longrightarrow> mem_safe (on_que i f st)"
  by (auto simp: on_que_def que_eq intro!: mem_safe_bind)

lemma on_que_pure_safe: "in_range st i \<Longrightarrow> mem_safe (on_que i (\<lambda>l. Inr (g l)) st)"
  by (simp add: on_que_safe)

lemma elem_add_safe: "wf_msglist l \<Longrightarrow> mem_safe (elem_add l e)"
proof (cases "msg_room l")
  case False
  assume "wf_msglist l"
  then show ?thesis
  proof (cases rule: wf_msglist_cases)
    case null
    then show ?thesis using False by (simp add: msg_room_def INT_MAX_def)
  next
    case (cells ms rest)
    then show ?thesis using False by (auto simp: elem_add_def elem_store_def msg_room_def)
  qed
next
  case True
  assume "wf_msglist l"
  from elem_add_law [OF this True, of e] show ?thesis by auto
qed

lemma elem_del_safe: "wf_msglist l \<Longrightarrow> mem_safe (elem_del l ino)"
  by (drule elem_del_law [of l ino]) auto

lemma queue_sort_safe:
  "env_ok env \<Longrightarrow> wf_msglist l \<Longrightarrow> mem_safe (res_bind (queue_sort (q_qsort env) l) (\<lambda>l. Inr (0 :: int, l)))"
  using queue_sort_law [of l "q_qsort env"] by (auto simp: env_ok_def)

lemma files_safe:
  "mem_safe (unlink_sync env d ino st)"
  "in_range st a \<Longrightarrow> in_range st b \<Longrightarrow> mem_safe (MOVEFILE env a b ino st)"
  "in_range st a \<Longrightarrow> in_range st b \<Longrightarrow> mem_safe (COPYFILE a b ino st)"
  by (auto simp: unlink_sync_def MOVEFILE_def COPYFILE_def que_eq split: prod.split)

lemma heap_insert_safe: "wf_heap h \<Longrightarrow> mem_safe (heap_insert junk h key q i)"
  by (auto simp: heap_insert_def wf_heap_def Let_def)

lemma getmonotime_safe: "mem_safe (getmonotime os i)"
  by (simp add: getmonotime_def split: option.split)

lemma ADDTIMER_safe: "wf_heap (qm_heap st) \<Longrightarrow> in_range st q \<Longrightarrow> mem_safe (ADDTIMER env q ino st)"
  by (auto simp: ADDTIMER_def Let_def intro!: mem_safe_bind heap_insert_safe getmonotime_safe que_safe)

lemma inv_heap_wf: "qm_inv st \<Longrightarrow> wf_heap (qm_heap st)"
  by (simp add: qm_inv_def)

lemma dispatch_safe:
  assumes "qm_inv st" and "in_range st q"
  shows "mem_safe (dispatch env q ino st)"
proof -
  note act = qinv_wf(2) [OF assms(1)]
  have "mem_safe (on_que ACT (\<lambda>l. elem_add l (elem_new ino (Timeval 0 0) q)) st1)" if cp: "COPYFILE q ACT ino st = Inr st1" for st1
  proof -
    obtain fs where "st1 = st\<lparr>qm_fs := fs\<rparr>" using cp
      by (auto simp: COPYFILE_def elim!: res_bindE split: prod.splits if_splits)
    then show ?thesis using act qinv_wf(1) [OF assms(1) act] by (auto intro!: on_que_safe elem_add_safe)
  qed
  moreover have "in_range st2 q" if "COPYFILE q ACT ino st = Inr st1" "on_que ACT f st1 = Inr st2" for st1 st2 f
    using that assms(2) by (auto simp: COPYFILE_def elim!: res_bindE on_queE split: prod.splits if_splits)
  ultimately show ?thesis
    using assms(2) act by (auto simp: dispatch_def intro!: mem_safe_bind files_safe on_que_pure_safe)
qed

lemma GETFILENAME_safe:
  assumes inv: "qm_inv st" and q: "1 \<le> q" "in_range st q" and s: "may_send w (q_at st q)"
  shows "mem_safe (GETFILENAME q st)"
proof -
  have "send (q_at st q) = active st q" using inv q qinv_wf(4) [OF inv] by (simp add: qm_inv_def)
  then have "0 \<le> send (q_at st q)" by (simp add: active_def)
  then show ?thesis using msg_at_live [OF qinv_wf(1) [OF inv q(2)]] s q(2) by (simp add: GETFILENAME_def que_eq may_send_def)
qed

lemma retire_safe:
  assumes inv: "qm_inv st" and s: "in_range st s" "s \<noteq> ACT"
  shows "mem_safe (retire s ino st)"
proof -
  note act = qinv_wf(2) [OF inv]
  have st1: "in_range st1 s \<and> wf_msglist (q_at st1 s)" if d: "on_que ACT (\<lambda>l. elem_del l ino) st = Inr st1" for st1
  proof -
    obtain l where "st1 = set_que ACT l st" using on_queE [OF d] by blast
    then show ?thesis using s q_at_set [OF act, of s l] qinv_wf(1) [OF inv s(1)] by (simp add: in_range_def)
  qed
  have "mem_safe (on_que ACT (\<lambda>l. elem_del l ino) st)"
    using act qinv_wf(1) [OF inv act] by (intro on_que_safe elem_del_safe)
  moreover have "mem_safe (on_que s (\<lambda>l. elem_del l ino) st1)" if "on_que ACT (\<lambda>l. elem_del l ino) st = Inr st1" for st1
    using st1 [OF that] by (intro on_que_safe elem_del_safe) auto
  moreover have "in_range st2 s" if "on_que ACT f st = Inr st1" "on_que s g st1 = Inr st2" for st1 st2 f g
    using that s(1) by (auto elim!: on_queE)
  ultimately show ?thesis unfolding retire_def by (auto intro!: mem_safe_bind on_que_pure_safe)
qed

text \<open>A message put off to the next queue.\<close>

lemma respond_later_safe:
  assumes inv: "qm_inv st" and s: "1 \<le> s" "s < qm_countq st" and code: "code \<noteq> 0" "code \<noteq> 1"
  shows "mem_safe (respond env ino code s st)"
proof -
  have sr: "in_range st s" "s \<noteq> ACT" and n: "in_range st (s + 1)"
    using s qinv_wf(4) [OF inv] by (auto simp: ACT_def)
  let ?add = "\<lambda>l. elem_add l (elem_new ino (Timeval 0 0) (s + 1))"
  have un: "mem_safe (MOVEFILE env s (s + 1) ino st1)" if "unlink_sync env act_dir ino st = Inr st1" for st1
    using fs_only(1) [OF that] sr n files_safe(2) by auto
  have st2: "\<exists>fs. st2 = st\<lparr>qm_fs := fs\<rparr>"
    if "unlink_sync env act_dir ino st = Inr st1" "MOVEFILE env s (s + 1) ino st1 = Inr st2" for st1 st2
    using fs_only(1) [OF that(1)] fs_only(2) [OF that(2)] by auto
  have ad: "mem_safe (on_que (s + 1) ?add st2)"
    if "unlink_sync env act_dir ino st = Inr st1" "MOVEFILE env s (s + 1) ino st1 = Inr st2" for st1 st2
    using st2 [OF that] n qinv_wf(1) [OF inv n] by (intro on_que_safe elem_add_safe) auto
  have st3: "qm_inv st3 \<and> in_range st3 s \<and> in_range st3 (s + 1)"
    if "unlink_sync env act_dir ino st = Inr st1" "MOVEFILE env s (s + 1) ino st1 = Inr st2"
      and a: "on_que (s + 1) ?add st2 = Inr st3" for st1 st2 st3
  proof -
    have "qm_inv st2" "in_range st2 s" "in_range st2 (s + 1)" using st2 [OF that(1,2)] inv n sr by auto
    moreover have "s + 1 \<noteq> ACT" using s by (simp add: ACT_def)
    ultimately show ?thesis using inv_on_que [OF _ _ a] elem_add_wf on_queE [OF a] by (metis in_range_set)
  qed
  have rt3: "mem_safe (retire s ino st3)"
    if "unlink_sync env act_dir ino st = Inr st1" "MOVEFILE env s (s + 1) ino st1 = Inr st2"
      "on_que (s + 1) ?add st2 = Inr st3" for st1 st2 st3
    using st3 [OF that] retire_safe sr(2) by blast
  have tm: "mem_safe (ADDTIMER env (s + 1) ino st4)"
    if "unlink_sync env act_dir ino st = Inr st1" "MOVEFILE env s (s + 1) ino st1 = Inr st2"
      "on_que (s + 1) ?add st2 = Inr st3" and r: "retire s ino st3 = Inr st4" for st1 st2 st3 st4
    using st3 [OF that(1-3)] heap_frame(2) [OF r] inv_heap_wf [of st3] retire_eff [OF _ sr(2) r]
    by (metis ADDTIMER_safe in_range_set)
  show ?thesis using code s(2) sr(1)
    by (simp add: respond_def que_eq, intro mem_safe_bind)
      (assumption | rule files_safe(1) | erule un | erule (1) ad | erule (2) rt3 | erule (3) tm | simp)+
qed

lemma respond_safe:
  assumes inv: "qm_inv st" and s: "1 \<le> s" "s \<le> qm_countq st"
  shows "mem_safe (respond env ino code s st)"
proof -
  have sr: "in_range st s" "s \<noteq> ACT" using s qinv_wf(4) [OF inv] by (auto simp: ACT_def)
  have rt: "mem_safe (retire s ino st1)" if "st1 = st\<lparr>qm_fs := fs\<rparr>" for st1 fs
    using retire_safe [of st1 s ino] inv sr that by simp
  have fs: "\<exists>fs. st2 = st\<lparr>qm_fs := fs\<rparr>" if "unlink_sync env d ino st = Inr st1" "unlink_sync env d' ino st1 = Inr st2" for st1 st2 d d'
    using fs_only(1) [OF that(1)] fs_only(1) [OF that(2)] by auto
  consider (ok) "code = 0" | (conf) "code = 1" | (fail) "code \<noteq> 0" "code \<noteq> 1" "s = qm_countq st"
    | (later) "code \<noteq> 0" "code \<noteq> 1" "s \<noteq> qm_countq st" by blast
  then show ?thesis
  proof cases
    case ok
    then show ?thesis using fs rt sr(1) unfolding respond_def que_eq
      by (auto intro!: mem_safe_bind files_safe dest: fs)
  next
    case conf
    then show ?thesis using sr(1) by (auto simp: respond_def que_eq intro!: mem_safe_bind on_que_pure_safe)
  next
    case fail
    have "mem_safe (retire s ino (st1\<lparr>qm_fs := f\<rparr>))" if "unlink_sync env act_dir ino st = Inr st1" for st1 f
      using rt [of "st1\<lparr>qm_fs := f\<rparr>" f] fs_only(1) [OF that] by auto
    then show ?thesis using sr(1) fail
      by (auto simp: respond_def que_eq intro!: mem_safe_bind files_safe split: prod.split)
  next
    case later
    then show ?thesis using respond_later_safe [OF inv s(1)] s(2) by simp
  qed
qed

lemma check_response_safe: "qm_inv st \<Longrightarrow> mem_safe (check_response env ino code st)"
proof -
  assume inv: "qm_inv st"
  show ?thesis
  proof (cases "first_idx (\<lambda>m. m_inode m = ino) (live (q_at st ACT))")
    case (Some k)
    then have "live (q_at st ACT) ! k \<in> set (live (q_at st ACT))" using first_idx_Some [OF Some] by simp
    then show ?thesis using Some inv respond_safe [OF inv] by (auto simp: check_response_eq qm_inv_def)
  qed (simp add: check_response_eq inv)
qed

lemma read_responses_safe: "qm_inv st \<Longrightarrow> mem_safe (read_responses env rs n st)"
proof (induction rs arbitrary: n st)
  case (Cons r rs)
  obtain ino code where r: "r = (ino, code)" by fastforce
  show ?case unfolding r read_responses.simps
  proof (rule mem_safe_bind)
    show "mem_safe (check_response env ino code st)" using check_response_safe [OF Cons.prems] .
    show "mem_safe (case x of (c, st) \<Rightarrow> read_responses env rs (if c > 0 then n + 1 else n) st)"
      if c: "check_response env ino code st = Inr x" for x
    proof (cases x)
      case (Pair a b)
      then show ?thesis using Cons.IH [OF check_response_inv [OF Cons.prems c [unfolded Pair]]] by simp
    qed
  qed
qed simp

lemma scan_entries_safe: "qm_inv st \<Longrightarrow> mem_safe (scan_entries env es n st)"
proof (induction es arbitrary: n st)
  case (Cons e es)
  note in_r = qinv_wf(3) [OF Cons.prems]
  let ?f = "\<lambda>ino sec nsec. (\<lambda>l. elem_add l (elem_new ino (Timeval sec (nsec div 1000)) IN))"
  have ad: "mem_safe (on_que IN (?f ino sec nsec) (st\<lparr>qm_fs := fs\<rparr>))" for fs ino sec nsec
    using in_r qinv_wf(1) [OF Cons.prems in_r] by (intro on_que_safe elem_add_safe) auto
  have st1: "qm_inv st1" if "on_que IN (?f ino sec nsec) (st\<lparr>qm_fs := fs\<rparr>) = Inr st1" for st1 fs ino sec nsec
    using inv_on_que [OF _ _ that] Cons.prems elem_add_wf by (fastforce simp: IN_def ACT_def)
  show ?case using Cons in_r
    by (auto simp: que_eq intro!: mem_safe_bind ad dest!: st1 split: prod.split option.split)
qed simp

lemma scan_drop_safe:
  assumes env: "env_ok env" and inv: "qm_inv st"
  shows "mem_safe (scan_drop env w st)"
proof -
  have "mem_safe (on_que IN (\<lambda>l. res_bind (queue_sort (q_qsort env) l) (\<lambda>l. Inr (0, l))) st1)"
    if "scan_entries env es n st = Inr (m, st1)" for es n m st1
  proof -
    have "qm_inv st1" using scan_entries_inv [OF inv that] .
    then show ?thesis using qinv_wf(1,3) by (blast intro: on_que_safe queue_sort_safe [OF env])
  qed
  then show ?thesis using scan_entries_safe [OF inv]
    by (auto simp: scan_drop_def intro!: mem_safe_bind split: option.split prod.split)
qed

text \<open>The number of queues never changes.\<close>

lemma dispatch_count: "dispatch env q ino st = Inr st' \<Longrightarrow> qm_countq st' = qm_countq st"
  by (auto simp: dispatch_def COPYFILE_def elim!: res_bindE on_queE split: prod.splits if_splits)

lemma retire_count: "retire s ino st = Inr st' \<Longrightarrow> qm_countq st' = qm_countq st"
  by (auto simp: retire_def elim!: res_bindE on_queE)

lemma respond_count: "respond env ino code s st = Inr (r, st') \<Longrightarrow> qm_countq st' = qm_countq st"
  by (auto simp: respond_def ADDTIMER_def Let_def elim!: res_bindE on_queE
      dest!: fs_only retire_count split: if_splits prod.splits)

lemma read_responses_count: "read_responses env rs n st = Inr (m, st') \<Longrightarrow> qm_countq st' = qm_countq st"
  by (induction env rs n st rule: read_responses.induct)
    (auto simp: check_response_def elim!: res_bindE split: if_splits dest!: respond_count)

lemma flush_send_inv:
  assumes inv: "qm_inv st" and i: "i \<noteq> 0" and x: "(if may_send WINSIZE (q_at st (int i))
      then res_bind (GETFILENAME (int i) st) (\<lambda>definode. dispatch env (int i) definode st) else Inr st) = Inr st1"
  shows "qm_inv st1" and "qm_countq st1 = qm_countq st"
proof -
  have "qm_inv st1 \<and> qm_countq st1 = qm_countq st"
  proof (cases "may_send WINSIZE (q_at st (int i))")
    case True
    then obtain ino where d: "dispatch env (int i) ino st = Inr st1" using x by (auto elim!: res_bindE)
    have "qm_inv st1" using send_inv [OF inv _ True _ d] i by (simp add: WINSIZE_def WINDEFSIZE_def)
    then show ?thesis using dispatch_count [OF d] by simp
  qed (use x inv in auto)
  then show "qm_inv st1" and "qm_countq st1 = qm_countq st" by blast+
qed

lemma flush_loop_safe: "qm_inv st \<Longrightarrow> int i \<le> qm_countq st \<Longrightarrow> flush_loop env i bs n st = Some r \<Longrightarrow> mem_safe r"
proof (induction env i bs n st rule: flush_loop.induct)
  case (1 env i bs n st)
  note fl = "1.prems"(3) [unfolded flush_loop.simps [of env i bs n st]]
  show ?case
  proof (cases "i = 0")
    case True
    then show ?thesis using fl by auto
  next
    case i: False
    let ?l = "q_at st (int i)"
    have rg: "in_range st (int i)" using "1.prems"(1,2) qinv_wf(4) by simp
    then have l: "que st (int i) = Inr ?l" by (simp add: que_eq)
    let ?x = "if may_send WINSIZE ?l
      then res_bind (GETFILENAME (int i) st) (\<lambda>definode. dispatch env (int i) definode st) else Inr st"
    have xs: "mem_safe ?x"
      using GETFILENAME_safe [OF "1.prems"(1) _ rg] dispatch_safe [OF "1.prems"(1) rg] i
      by (auto intro!: mem_safe_bind)
    show ?thesis
    proof (cases "total ?l > 0")
      case False
      then show ?thesis using "1.IH"(2) [OF i l] fl i l "1.prems"(1,2) by simp
    next
      case tot: True
      show ?thesis
      proof (cases ?x)
        case (Inl e)
        then show ?thesis using fl i l tot xs by auto
      next
        case x: (Inr st1)
        note inv1 = flush_send_inv [OF "1.prems"(1) i x]
        obtain b bs1 where bs: "bs = b # bs1" using fl i l tot x by (cases bs) auto
        show ?thesis
        proof (cases "read_responses env b n st1")
          case (Inl e)
          then show ?thesis using fl i l tot x bs read_responses_safe [of st1 env b n] inv1 by auto
        next
          case (Inr p)
          then obtain m st2 where rr: "read_responses env b n st1 = Inr (m, st2)" by (cases p) auto
          have "qm_inv st2" "qm_countq st2 = qm_countq st1"
            using read_responses_inv [OF _ rr] read_responses_count [OF rr] inv1 by simp_all
          then show ?thesis using "1.IH"(1) [OF i l tot x bs rr] fl i l tot x bs rr inv1 "1.prems"(2) by simp
        qed
      qed
    qed
  qed
qed

section \<open>Turns\<close>

lemma set_wait_safe:
  assumes "wf_heap (qm_heap st)" and "qm_wait st > 0 \<Longrightarrow> heap_items (qm_heap st) \<noteq> {#}"
  shows "mem_safe (set_wait env st)"
proof -
  have "heap_min (qm_heap st) \<noteq> None" if "qm_wait st > 0 \<or> nodecount (qm_heap st) \<noteq> 0"
    using that assms heap_min_items [OF assms(1)] by (auto simp: heap_min_def)
  then show ?thesis using getmonotime_safe [of "q_os env" "qm_clock st"]
    by (cases "heap_min (qm_heap st)") (auto simp: set_wait_def Let_def intro!: mem_safe_bind)
qed

lemma before_poll_safe:
  assumes inv: "qm_inv st" "wait_inv st"
  shows "mem_safe (before_poll env st)"
proof -
  let ?l = "q_at st IN"
  let ?x = "if may_send WINSIZE ?l
      then res_bind (GETFILENAME IN st) (\<lambda>inode. dispatch env IN inode (st\<lparr>qm_fd0 := False\<rparr>))
      else if total ?l = send ?l then Inr (st\<lparr>qm_fd0 := True\<rparr>) else Inr st"
  note rg = qinv_wf(3) [OF inv(1)]
  have "mem_safe ?x"
    using GETFILENAME_safe [OF inv(1) _ rg] rg dispatch_safe [of "st\<lparr>qm_fd0 := False\<rparr>" IN] inv(1)
    by (auto simp: IN_def in_range_def intro!: mem_safe_bind)
  moreover have "mem_safe (set_wait env st1)" if x: "?x = Inr st1" for st1
  proof (rule set_wait_safe)
    have "calm st st1 \<and> qm_heap st1 = qm_heap st"
    proof (cases "may_send WINSIZE ?l")
      case True
      then obtain ino where "dispatch env IN ino (st\<lparr>qm_fd0 := False\<rparr>) = Inr st1" using x by (auto elim!: res_bindE)
      then show ?thesis using dispatch_calm dispatch_heap by (fastforce simp: calm_def)
    qed (use x in \<open>auto simp: calm_def split: if_splits\<close>)
    then show "wf_heap (qm_heap st1)" "qm_wait st1 > 0 \<Longrightarrow> heap_items (qm_heap st1) \<noteq> {#}"
      using inv inv_heap_wf by (auto simp: wait_inv_def calm_def)
  qed
  moreover have "before_poll env st = (if qm_isconnect st > 0 then res_bind ?x (set_wait env) else Inr st)"
    using rg by (simp add: before_poll_def que_eq)
  ultimately show ?thesis using mem_safe_bind [of ?x "set_wait env"] by (simp only: split: if_split) simp
qed

lemma heap_extract_safe: "wf_heap h \<Longrightarrow> mem_safe (heap_extract_min h)"
  by (simp add: heap_extract_min_def wf_heap_def Let_def)

lemma on_timeout_safe:
  assumes inv: "qm_inv st" and m: "qm_minnode st = heap_min (qm_heap st)" "qm_minnode st = Some x"
  shows "mem_safe (on_timeout env st)"
proof -
  let ?st = "st\<lparr>qm_wait := -1\<rparr>"
  have wf: "wf_heap (qm_heap st)" using inv_heap_wf [OF inv] .
  have q: "2 \<le> hn_indque x" "hn_indque x \<le> qm_countq st" using timers.peek_in [OF wf] m inv by (auto simp: qm_inv_def)
  then have rg: "in_range st (hn_indque x)" using qinv_wf(4) [OF inv] by simp
  then have rg': "in_range ?st (hn_indque x)" "q_at ?st (hn_indque x) = q_at st (hn_indque x)"
    by (simp_all add: in_range_def q_at_def)
  have "mem_safe (elem_find (q_at st (hn_indque x)) i)" for i
    using elem_find_law [OF qinv_wf(1) [OF inv rg]] by simp
  moreover have "mem_safe (dispatch env (hn_indque x) i ?st)" for i using dispatch_safe [of ?st] inv rg'(1) by simp
  moreover have "mem_safe (heap_extract_min (qm_heap st1))" if "dispatch env (hn_indque x) i ?st = Inr st1" for i st1
    using dispatch_heap [OF that] wf heap_extract_safe by simp
  ultimately show ?thesis using m(2) rg' wf heap_extract_safe [OF wf]
    by (auto simp: on_timeout_def que_eq Let_def intro!: mem_safe_bind)
qed

lemma on_signals_safe:
  "env_ok env \<Longrightarrow> qm_inv st \<Longrightarrow> on_signals env cs usr st = Some r \<Longrightarrow> mem_safe r"
proof (induction cs arbitrary: usr st)
  case (Cons c cs)
  let ?st = "st\<lparr>qm_sigpipe := tl (qm_sigpipe st)\<rparr>"
  let ?st1 = "?st\<lparr>qm_isconnect := 1, qm_fd0 := True, qm_fd1 := True\<rparr>"
  note sig = Cons.prems(3) [simplified on_signals.simps Let_def]
  show ?case
  proof (cases "q_sig_read env \<and> c = CHR ''U''")
    case False
    let ?h = "?st\<lparr>qm_wait := -1, qm_isconnect := 0, qm_fd0 := False, qm_fd1 := False\<rparr>"
    show ?thesis
      using False sig Cons.IH [OF Cons.prems(1), of ?h usr] Cons.IH [OF Cons.prems(1), of ?st usr] Cons.prems(2)
      by (auto split: if_splits)
  next
    case U: True
    obtain d bs usr' where usr: "usr = (d, bs) # usr'" using U sig by (cases usr) auto
    show ?thesis
    proof (cases "scan_drop env d ?st1")
      case (Inl e)
      then show ?thesis using sig U usr scan_drop_safe [OF Cons.prems(1), of ?st1 d] Cons.prems(2) by auto
    next
      case (Inr p)
      then obtain n st2 where st2: "scan_drop env d ?st1 = Inr (n, st2)" by (cases p) auto
      have inv2: "qm_inv st2" using scan_drop_inv [OF Cons.prems(1) _ st2] Cons.prems(2) by simp
      obtain f where f: "Quemngr.flush_queue env bs st2 = Some f" using sig U usr st2 by (auto split: option.splits)
      have "mem_safe f" using flush_loop_safe [OF inv2 _ f [unfolded flush_queue_def]] qinv_wf(5) [OF inv2] by simp
      then show ?thesis
      proof (cases f)
        case (Inr p)
        then obtain n' bs' st3 where p: "f = Inr (n', bs', st3)" by (cases p) auto
        have "qm_inv st3" using flush_loop_inv [OF f [unfolded flush_queue_def p] inv2] .
        then show ?thesis
          using sig U usr st2 f p Cons.IH [OF Cons.prems(1), of "st3\<lparr>qm_kills := qm_kills st3 @ [''USR2'']\<rparr>" usr'] by simp
      qed (use sig U usr st2 f in auto)
    qed
  qed
qed auto

lemma on_ready_safe:
  assumes env: "env_ok env" and inv: "qm_inv st" and r: "on_ready env r st = Some x"
  shows "mem_safe x"
proof -
  let ?t = "case rdy_trig r of None \<Rightarrow> Inr st | Some (te, dropdir) \<Rightarrow> on_trigger env te dropdir st"
  have t: "mem_safe ?t" using scan_drop_safe [OF env inv] inv
    by (auto simp: on_trigger_def intro!: mem_safe_bind split: option.split prod.split)
  show ?thesis
  proof (cases ?t)
    case (Inl e)
    then show ?thesis using r t by (auto simp: on_ready_def)
  next
    case st1: (Inr st1)
    have inv1: "qm_inv st1" using st1 inv scan_drop_inv [OF env inv]
      by (auto simp: on_trigger_def elim!: res_bindE split: option.splits prod.splits if_splits)
    let ?p = "case rdy_pipe r of None \<Rightarrow> Inr (0, st1) | Some rs \<Rightarrow> read_responses env rs 0 st1"
    have p: "mem_safe ?p" using read_responses_safe [OF inv1] by (auto split: option.split)
    show ?thesis
    proof (cases ?p)
      case (Inl e)
      then show ?thesis using r st1 p by (auto simp: on_ready_def)
    next
      case (Inr q)
      then obtain n st2 where st2: "?p = Inr (n, st2)" by (cases q) auto
      have "qm_inv st2" using st2 inv1 read_responses_inv [OF inv1] by (auto split: option.splits)
      then show ?thesis using r st1 st2 on_signals_safe [OF env, of st2] by (auto simp: on_ready_def split: if_splits)
    qed
  qed
qed

lemma main_turn_safe:
  assumes inv: "qm_inv st" "wait_inv st" and env: "env_ok env" and may: "may_return env p st"
    and t: "main_turn env p st = Some r"
  shows "mem_safe r"
proof (cases "before_poll env st")
  case (Inl e)
  then show ?thesis using before_poll_safe [OF inv, of env, unfolded Inl] t by (simp add: main_turn_def) (metis mem_safe.simps(2))
next
  case (Inr st1)
  note st1 = before_poll_inv [OF inv Inr]
  have a: "after_poll env p st1 = Some r" using t Inr by (simp add: main_turn_def)
  show ?thesis
  proof (cases p)
    case PollTimeout
    then have w: "qm_wait st1 \<noteq> -1" using may Inr by (auto simp: may_return_def)
    then obtain x where "heap_min (qm_heap st1) = Some x"
      using st1 heap_min_items [OF inv_heap_wf] by (auto simp: wait_inv_def)
    then show ?thesis using on_timeout_safe [of st1 x env] st1 w a PollTimeout by (auto simp: after_poll_def)
  qed (use a st1 on_ready_safe [OF env] in \<open>auto simp: after_poll_def\<close>)
qed

end
