(* ===== verification/QuemngrMain.thy ===== *)
theory QuemngrMain
  imports QuemngrSafety
begin

text \<open>
  The properties of the queue manager, with an example run that instantiates them: the manager
  starts on empty directories, the connection comes up, a message is dropped and handed to the child.
\<close>

section \<open>An example run\<close>

definition demo_os :: os where
  "demo_os = \<lparr>os_open = (\<lambda>d. True), os_fsync = (\<lambda>d. True), os_close = (\<lambda>d. True), os_clock = (\<lambda>i. Some (100, 0))\<rparr>"

definition demo_env :: qenv where
  "demo_env = \<lparr>q_os = demo_os, q_qsort = sort_key mtime_key, q_junk = (\<lambda>i. heapnode_zero),
     q_pipe_ok = True, q_sig_ok = True, q_sig_read = True\<rparr>"

definition demo_se :: start_env where
  "demo_se = \<lparr>se_chdir = 0, se_signalpipe = 0, se_pipe1 = 0, se_pipe2 = 0, se_fork = 77, se_mkfifo = 0,
     se_eexist = False, se_trigfd = 9, se_getfl = 0, se_setfl = 0, se_fdopen = True\<rparr>"

definition demo_fs :: "ino_t \<Rightarrow> fsys" where
  "demo_fs ino = (\<lambda>p. None)(mk_path drop_dir (fmt_ld ino) := Some ino)"

definition demo_entry :: "ino_t \<Rightarrow> drop_entry" where
  "demo_entry ino = \<lparr>de_name = fmt_ld ino, de_ino = ino, de_stat = Some (ino, 5, 0)\<rparr>"

definition demo_start :: "ino_t \<Rightarrow> qm res" where
  "demo_start ino = quemngr_start demo_env demo_se (sort_key timeout)
     (Some [\<lparr>df_name = ''00h01m00s'', df_stat = Some True\<rparr>]) (\<lambda>d. Some []) (Some []) (demo_fs ino)"

definition demo_trig :: trig_env where
  "demo_trig = \<lparr>tr_unlink = 0, tr_mkfifo = 0, tr_eexist = False, tr_open = 9\<rparr>"

text \<open>SIGUSR1 flags the connection; the first turn sees it, the second takes the dropped file, the third sends it.\<close>

definition demo_polls :: "ino_t \<Rightarrow> poll_result list" where
  "demo_polls ino =
     [PollReady \<lparr>rdy_trig = None, rdy_pipe = None, rdy_sig = True, rdy_ioctl = True, rdy_usr = [(Some [], [])]\<rparr>,
      PollReady \<lparr>rdy_trig = Some (demo_trig, Some [demo_entry ino]), rdy_pipe = None, rdy_sig = False, rdy_ioctl = True, rdy_usr = []\<rparr>,
      PollReady \<lparr>rdy_trig = None, rdy_pipe = None, rdy_sig = False, rdy_ioctl = True, rdy_usr = []\<rparr>]"

fun demo_turns :: "poll_result list \<Rightarrow> qm \<Rightarrow> qm option" where
  "demo_turns [] st = Some st"
| "demo_turns (p # ps) st = (case main_turn demo_env p st of Some (Inr st1) \<Rightarrow> demo_turns ps st1 | _ \<Rightarrow> None)"

definition demo_run :: "ino_t \<Rightarrow> qm option" where
  "demo_run ino =
     (case demo_start ino of
        Inl e \<Rightarrow> None
      | Inr st \<Rightarrow> (case sig_usr1 demo_env st of Inl e \<Rightarrow> None | Inr st1 \<Rightarrow> demo_turns (demo_polls ino) st1))"

lemma demo_view:
  "map_option (\<lambda>st. (qm_countq st, qm_pipe st, map send (qm_list st), map m_inode (live (q_at st ACT)), qm_fs st (mk_path act_dir ''7''),
     qm_wait st)) (demo_run 7) = Some (2, [7], [0, 1, 0], [7], Some 7, -1)"
  by code_simp

lemma demo_env_ok: "env_ok demo_env"
  by (simp add: env_ok_def demo_env_def is_qsort_sort_key)

lemma queue_comp_le: "queue_comp a b \<le> 0 \<longleftrightarrow> timeout a \<le> timeout b"
  by (auto simp: queue_comp_def Let_def)

lemma is_qsort_timeout: "is_qsort queue_comp (sort_key timeout)"
  using sorted_sort_key [of "timeout :: msglist \<Rightarrow> int"] by (simp add: is_qsort_def queue_comp_le sorted_map)

lemma demo_turns_reach:
  "qm_reach st \<Longrightarrow> PollTimeout \<notin> set ps \<Longrightarrow> demo_turns ps st = Some st' \<Longrightarrow> qm_reach st'"
proof (induction ps arbitrary: st)
  case (Cons p ps)
  then obtain st1 where m: "main_turn demo_env p st = Some (Inr st1)" "demo_turns ps st1 = Some st'"
    by (auto split: option.splits sum.splits)
  have "may_return demo_env p st" using Cons.prems(2) by (auto simp: may_return_def split: sum.split)
  then have "qm_reach st1" using qm_reach.turn [OF Cons.prems(1) demo_env_ok _ m(1)] by blast
  then show ?case using Cons.IH m(2) Cons.prems(2) by simp
qed simp

lemma demo_reach: "demo_run ino = Some st \<Longrightarrow> qm_reach st"
proof -
  assume "demo_run ino = Some st"
  then obtain st0 st1 where st: "demo_start ino = Inr st0" "sig_usr1 demo_env st0 = Inr st1" "demo_turns (demo_polls ino) st1 = Some st"
    by (auto simp: demo_run_def split: sum.splits)
  have "qm_reach st0" using qm_reach.start [OF demo_env_ok is_qsort_timeout] st(1) unfolding demo_start_def by blast
  then have "qm_reach st1" using qm_reach.usr1 st(2) by blast
  then show ?thesis using demo_turns_reach [OF _ _ st(3)] by (simp add: demo_polls_def)
qed

text \<open>The state the run ends in.\<close>

lemma demo_state:
  obtains st where "demo_run 7 = Some st" "qm_reach st" "qm_countq st = 2" "qm_pipe st = [7]"
    "map m_inode (live (q_at st ACT)) = [7]" "qm_fs st (mk_path act_dir ''7'') = Some 7"
  using demo_view demo_reach by auto

section \<open>Reachable states\<close>

text \<open>
  C8. In every state the queue manager reaches from its start, whatever the child answers, whatever
  files appear and in whatever order signals arrive: at most one message of the input queue and at
  most ten of every deferred queue are with the child, the counter \<open>send\<close> of each queue is the
  number of its messages that are with the child, and each of those belongs to a queue.
\<close>

theorem quemngr_windows:
  assumes "qm_reach st"
  shows "active st IN \<le> WINSIZE \<and> (\<forall>q. 2 \<le> q \<and> q \<le> qm_countq st \<longrightarrow> active st q \<le> WINDEFSIZE)
    \<and> (\<forall>q. 1 \<le> q \<and> q \<le> qm_countq st \<longrightarrow> send (q_at st q) = active st q)
    \<and> (\<forall>m \<in> set (live (q_at st ACT)). 1 \<le> m_state m \<and> m_state m \<le> qm_countq st)"
  using qm_reach_inv [OF assms] by (auto simp: qm_inv_def)

theorem quemngr_windows_witness:
  "\<exists>st. qm_reach st \<and> qm_pipe st = [7] \<and> qm_countq st = 2 \<and> active st IN \<le> WINSIZE \<and> active st 2 \<le> WINDEFSIZE
    \<and> send (q_at st IN) = active st IN"
proof -
  obtain st where st: "qm_reach st" "qm_countq st = 2" "qm_pipe st = [7]" by (rule demo_state)
  from quemngr_windows [OF st(1)] st show ?thesis by (intro exI [of _ st]) (auto simp: IN_def)
qed








end
