(* ===== verification/QuemngrDelivery.thy ===== *)
theory QuemngrDelivery
  imports QuemngrMain
begin

text \<open>
  What happens to a message: handed to the child, delivered, put off to the next queue with a timer,
  given up, sent again when its timer expires; and flushing, which ends with empty queues when the
  child answers.
\<close>

section \<open>Steps that succeed\<close>

definition disk_ok :: "os \<Rightarrow> bool" where
  "disk_ok os \<longleftrightarrow> (\<forall>d. os_open os d \<and> os_fsync os d \<and> os_close os d)"

lemma unlink_sync_ok:
  assumes "disk_ok (q_os env)" and "qm_fs st (mk_path d (fmt_ld ino)) \<noteq> None"
  shows "unlink_sync env d ino st = Inr (st\<lparr>qm_fs := (qm_fs st)(mk_path d (fmt_ld ino) := None)\<rparr>)"
  using assms by (simp add: unlink_sync_def sys_unlink_def fsyncdir_def disk_ok_def Let_def)

lemma mvfile_ok:
  assumes "disk_ok os" and "fs src = Some i" and "fs dst = None"
  shows "mvfile os src dst fs = (0, (fs(src := None))(dst := Some i))"
  using assms by (simp add: mvfile_def sys_rename_def disk_ok_def Let_def)

lemma mk_path_eq: "mk_path d n = mk_path d' n' \<longleftrightarrow> strip_slash d = strip_slash d' \<and> n = n'"
  by (simp add: mk_path_def)

lemma elem_add_ok:
  assumes "wf_msglist l" and "live l = [] \<or> msg_room l"
  shows "\<exists>n l'. elem_add l e = Inr (n, l')"
proof (cases "msg_room l")
  case True
  then show ?thesis using elem_add_law [OF assms(1)] by blast
next
  case False
  from assms(1) show ?thesis
  proof (cases rule: wf_msglist_cases)
    case null
    then show ?thesis using False by (simp add: msg_room_def INT_MAX_def)
  next
    case (cells ms rest)
    then have "rest \<noteq> []" "ms = []" using False assms(2) by (auto simp: ARINIT_def)
    then show ?thesis using cells by (simp add: elem_add_def elem_store_def)
  qed
qed

lemma retire_ok:
  assumes inv: "qm_inv st" and s: "in_range st s" "s \<noteq> ACT"
  shows "\<exists>st'. retire s ino st = Inr st'"
proof -
  note act = qinv_wf(2) [OF inv]
  obtain r1 la where la: "elem_del (q_at st ACT) ino = Inr (r1, la)" using elem_del_law [OF qinv_wf(1) [OF inv act]] by blast
  obtain r2 ls where ls: "elem_del (q_at st s) ino = Inr (r2, ls)" using elem_del_law [OF qinv_wf(1) [OF inv s(1)]] by blast
  have "q_at (set_que ACT la st) s = q_at st s" using q_at_set [OF act, of s la] s by (simp add: in_range_def)
  then show ?thesis using la ls act s(1) by (simp add: retire_def on_que_def que_eq)
qed

lemma dispatch_ok:
  assumes inv: "qm_inv st" and q: "in_range st q" "q \<noteq> ACT" and room: "live (q_at st ACT) = [] \<or> msg_room (q_at st ACT)"
    and src: "qm_fs st (mk_path (dir (q_at st q)) (fmt_ld ino)) = Some i"
    and dst: "qm_fs st (mk_path (dir (q_at st ACT)) (fmt_ld ino)) = None" and p: "q_pipe_ok env"
  shows "\<exists>st'. dispatch env q ino st = Inr st'"
proof -
  note act = qinv_wf(2) [OF inv]
  obtain n la where "elem_add (q_at st ACT) (elem_new ino (Timeval 0 0) q) = Inr (n, la)"
    using elem_add_ok [OF qinv_wf(1) [OF inv act] room] by blast
  then show ?thesis using act q src dst p
    by (simp add: dispatch_def COPYFILE_def que_eq cpfile_def sys_link_def on_que_def)
qed

text \<open>What dispatching a message does, in terms of the contents.\<close>

lemma dispatch_law:
  assumes inv: "qm_inv st" and q: "q \<noteq> ACT" and d: "dispatch env q ino st = Inr st'"
  shows "live (q_at st' ACT) = live (q_at st ACT) @ [elem_new ino (Timeval 0 0) q]"
    and "dir (q_at st' ACT) = dir (q_at st ACT)"
    and "q_at st' q = (q_at st q)\<lparr>send := send (q_at st q) + 1\<rparr>"
    and "\<lbrakk>0 \<le> j; j \<noteq> ACT; j \<noteq> q\<rbrakk> \<Longrightarrow> q_at st' j = q_at st j"
    and "qm_pipe st' = qm_pipe st @ [ino]" and "in_range st' j = in_range st j"
    and "qm_fs st' = (qm_fs st)(mk_path (dir (q_at st ACT)) (fmt_ld ino) := qm_fs st (mk_path (dir (q_at st q)) (fmt_ld ino)))"
proof -
  obtain fs la r where e: "cpfile (mk_path (dir (q_at st q)) (fmt_ld ino)) (mk_path (dir (q_at st ACT)) (fmt_ld ino)) (qm_fs st) = (r, fs)"
      "0 \<le> r" "in_range st q" "live la = live (q_at st ACT) @ [elem_new ino (Timeval 0 0) q]" "dir la = dir (q_at st ACT)"
      "st' = set_que q ((q_at st q)\<lparr>send := send (q_at st q) + 1\<rparr>) (set_que ACT la (st\<lparr>qm_fs := fs, qm_pipe := qm_pipe st @ [ino]\<rparr>))"
    using dispatch_eff [OF inv q d] by blast
  let ?st = "st\<lparr>qm_fs := fs, qm_pipe := qm_pipe st @ [ino]\<rparr>"
  have r: "in_range ?st q" "in_range ?st ACT" using e(3) qinv_wf(2) [OF inv] by (simp_all add: in_range_def)
  have q0: "0 \<le> q" using e(3) by (simp add: in_range_def)
  note at = q_at_set2 [OF r, of _ "(q_at st q)\<lparr>send := send (q_at st q) + 1\<rparr>" la, folded e(6)]
  show "live (q_at st' ACT) = live (q_at st ACT) @ [elem_new ino (Timeval 0 0) q]" "dir (q_at st' ACT) = dir (q_at st ACT)"
    using at [of ACT] q e(4,5) by (simp_all add: ACT_def)
  show "q_at st' q = (q_at st q)\<lparr>send := send (q_at st q) + 1\<rparr>" using at [OF q0] by simp
  show "q_at st' j = q_at st j" if "0 \<le> j" "j \<noteq> ACT" "j \<noteq> q" using at [OF that(1)] that by (simp add: q_at_def)
  show "qm_pipe st' = qm_pipe st @ [ino]" "in_range st' j = in_range st j" using e(6) by (simp_all add: in_range_def)
  show "qm_fs st' = (qm_fs st)(mk_path (dir (q_at st ACT)) (fmt_ld ino) := qm_fs st (mk_path (dir (q_at st q)) (fmt_ld ino)))"
    using e(1,2,6) by (auto simp: cpfile_def sys_link_def split: option.splits if_splits)
qed

lemma retire_law:
  assumes inv: "qm_inv st" and s: "s \<noteq> ACT" and d: "retire s ino st = Inr st'"
  shows "live (q_at st' ACT) = remove_first (\<lambda>m. m_inode m = ino) (live (q_at st ACT))"
    and "dir (q_at st' ACT) = dir (q_at st ACT)"
    and "live (q_at st' s) = remove_first (\<lambda>m. m_inode m = ino) (live (q_at st s))"
    and "send (q_at st' s) = send (q_at st s) - 1" and "conf (q_at st' s) = conf (q_at st s) - 1"
    and "dir (q_at st' s) = dir (q_at st s)"
    and "\<lbrakk>0 \<le> j; j \<noteq> ACT; j \<noteq> s\<rbrakk> \<Longrightarrow> q_at st' j = q_at st j"
    and "qm_fs st' = qm_fs st" and "qm_heap st' = qm_heap st" and "qm_pipe st' = qm_pipe st"
    and "qm_clock st' = qm_clock st" and "in_range st' j = in_range st j" and "qm_countq st' = qm_countq st"
proof -
  obtain la ls where e: "in_range st s" "live la = remove_first (\<lambda>m. m_inode m = ino) (live (q_at st ACT))"
      "dir la = dir (q_at st ACT)" "live ls = remove_first (\<lambda>m. m_inode m = ino) (live (q_at st s))"
      "send ls = send (q_at st s) - 1" "conf ls = conf (q_at st s) - 1" "dir ls = dir (q_at st s)"
      "st' = set_que s ls (set_que ACT la st)"
    using retire_eff [OF inv s d] by metis
  have s0: "0 \<le> s" using e(1) by (simp add: in_range_def)
  note at = q_at_set2 [OF e(1) qinv_wf(2) [OF inv], of _ ls la, folded e(8)]
  show "live (q_at st' ACT) = remove_first (\<lambda>m. m_inode m = ino) (live (q_at st ACT))"
    "dir (q_at st' ACT) = dir (q_at st ACT)"
    using at [of ACT] s e(2,3) by (simp_all add: ACT_def)
  show "live (q_at st' s) = remove_first (\<lambda>m. m_inode m = ino) (live (q_at st s))"
    "send (q_at st' s) = send (q_at st s) - 1" "conf (q_at st' s) = conf (q_at st s) - 1" "dir (q_at st' s) = dir (q_at st s)"
    using at [OF s0] e by simp_all
  show "q_at st' j = q_at st j" if "0 \<le> j" "j \<noteq> ACT" "j \<noteq> s" using at [OF that(1)] that by simp
  show "qm_fs st' = qm_fs st" "qm_heap st' = qm_heap st" "qm_pipe st' = qm_pipe st"
    "qm_clock st' = qm_clock st" "in_range st' j = in_range st j" "qm_countq st' = qm_countq st"
    using e(8) by simp_all
qed

section \<open>Responses\<close>

text \<open>A message the child is working on: the first active one with its inode, of queue \<open>s\<close>.\<close>

definition in_work :: "qm \<Rightarrow> ino_t \<Rightarrow> int \<Rightarrow> bool" where
  "in_work st ino s \<longleftrightarrow>
     (\<exists>k. first_idx (\<lambda>m. m_inode m = ino) (live (q_at st ACT)) = Some k \<and> s = m_state (live (q_at st ACT) ! k))"

lemma in_work_range:
  assumes "qm_inv st" and "in_work st ino s"
  shows "1 \<le> s" "s \<le> qm_countq st" "in_range st s" "s \<noteq> ACT"
proof -
  obtain k where k: "first_idx (\<lambda>m. m_inode m = ino) (live (q_at st ACT)) = Some k" "s = m_state (live (q_at st ACT) ! k)"
    using assms(2) by (auto simp: in_work_def)
  then have "live (q_at st ACT) ! k \<in> set (live (q_at st ACT))" using first_idx_Some [OF k(1)] by simp
  then show "1 \<le> s" "s \<le> qm_countq st" using assms(1) k(2) by (auto simp: qm_inv_def)
  then show "in_range st s" "s \<noteq> ACT" using qinv_wf(4) [OF assms(1)] by (auto simp: ACT_def)
qed

lemma check_response_in_work:
  "qm_inv st \<Longrightarrow> in_work st ino s \<Longrightarrow> check_response env ino code st = respond env ino code s st"
  by (auto simp: check_response_eq in_work_def)

text \<open>The message has left the active queue and its own, whose counters go down; the other queues stay.\<close>

definition retired :: "ino_t \<Rightarrow> int \<Rightarrow> qm \<Rightarrow> qm \<Rightarrow> bool" where
  "retired ino s st st' \<longleftrightarrow>
     live (q_at st' ACT) = remove_first (\<lambda>m. m_inode m = ino) (live (q_at st ACT))
     \<and> live (q_at st' s) = remove_first (\<lambda>m. m_inode m = ino) (live (q_at st s))
     \<and> send (q_at st' s) = send (q_at st s) - 1 \<and> conf (q_at st' s) = conf (q_at st s) - 1
     \<and> qm_pipe st' = qm_pipe st"

lemma respond_delivered:
  assumes inv: "qm_inv st" and w: "in_range st s" "s \<noteq> ACT" and os: "disk_ok (q_os env)"
    and fa: "qm_fs st (mk_path act_dir (fmt_ld ino)) \<noteq> None"
    and fo: "qm_fs st (mk_path (dir (q_at st s)) (fmt_ld ino)) \<noteq> None"
    and ne: "strip_slash (dir (q_at st s)) \<noteq> strip_slash act_dir"
  obtains st' where "respond env ino 0 s st = Inr (1, st')"
    "retire s ino (st\<lparr>qm_fs := (qm_fs st)(mk_path act_dir (fmt_ld ino) := None,
       mk_path (dir (q_at st s)) (fmt_ld ino) := None)\<rparr>) = Inr st'"
proof -
  let ?st1 = "st\<lparr>qm_fs := (qm_fs st)(mk_path act_dir (fmt_ld ino) := None)\<rparr>"
  let ?st2 = "st\<lparr>qm_fs := (qm_fs st)(mk_path act_dir (fmt_ld ino) := None, mk_path (dir (q_at st s)) (fmt_ld ino) := None)\<rparr>"
  have u1: "unlink_sync env act_dir ino st = Inr ?st1" using unlink_sync_ok [OF os fa] .
  have "unlink_sync env (dir (q_at st s)) ino ?st1 = Inr ?st2"
    using unlink_sync_ok [OF os, of ?st1 "dir (q_at st s)" ino] fo ne by (simp add: mk_path_eq)
  moreover obtain st' where st': "retire s ino ?st2 = Inr st'"
    using retire_ok [of ?st2 s ino] inv w by auto
  ultimately have "respond env ino 0 s st = Inr (1, st')" using w u1 by (simp add: respond_def que_eq)
  then show ?thesis using that st' by blast
qed

text \<open>
  C15. Delivered (code 0): both links of the message's file are removed, in the active directory and
  in its queue's, the message leaves both queues and the counters go down by one; no other queue, no
  timer and nothing sent changes.
\<close>

theorem response_delivered:
  assumes "qm_inv st" and "in_work st ino s" and "disk_ok (q_os env)"
    and "qm_fs st (mk_path act_dir (fmt_ld ino)) \<noteq> None"
    and "qm_fs st (mk_path (dir (q_at st s)) (fmt_ld ino)) \<noteq> None"
    and "strip_slash (dir (q_at st s)) \<noteq> strip_slash act_dir"
  shows "\<exists>st'. check_response env ino 0 st = Inr (1, st') \<and> retired ino s st st'
    \<and> qm_fs st' = (qm_fs st)(mk_path act_dir (fmt_ld ino) := None, mk_path (dir (q_at st s)) (fmt_ld ino) := None)
    \<and> qm_heap st' = qm_heap st \<and> (\<forall>j. 1 \<le> j \<and> j \<noteq> s \<longrightarrow> q_at st' j = q_at st j)"
proof -
  note w = in_work_range(3,4) [OF assms(1,2)]
  obtain st' where r: "respond env ino 0 s st = Inr (1, st')"
    "retire s ino (st\<lparr>qm_fs := (qm_fs st)(mk_path act_dir (fmt_ld ino) := None,
       mk_path (dir (q_at st s)) (fmt_ld ino) := None)\<rparr>) = Inr st'"
    using respond_delivered [OF assms(1) w assms(3-6)] by blast
  have "qm_inv (st\<lparr>qm_fs := f\<rparr>)" for f using assms(1) by simp
  note law = retire_law [OF this w(2) r(2)]
  show ?thesis
    using check_response_in_work [OF assms(1,2)] r(1) law by (intro exI [of _ st']) (simp add: retired_def ACT_def)
qed

lemma demo_files:
  "map_option (\<lambda>st. (map m_state (live (q_at st ACT)), map dir (qm_list st), qm_fs st (mk_path act_dir ''7''), qm_fs st (mk_path in_dir ''7'')))
     (demo_run 7) = Some ([1], [act_dir, in_dir, df_dir @ ''00h01m00s''], Some 7, Some 7)"
  by code_simp

lemma fmt_7: "fmt_ld 7 = ''7''"
  by code_simp

lemma in_dirs: "strip_slash in_dir \<noteq> strip_slash act_dir" "strip_slash (df_dir @ ''00h01m00s'') \<noteq> strip_slash in_dir"
  "strip_slash (df_dir @ ''00h01m00s'') \<noteq> strip_slash act_dir"
  by code_simp+

lemma demo_disk: "disk_ok (q_os demo_env)"
  by (simp add: disk_ok_def demo_env_def demo_os_def)

text \<open>The example run ends with message 7 of the input queue in work.\<close>

lemma demo_work:
  obtains st where "demo_run 7 = Some st" "qm_inv st" "in_work st 7 1" "dir (q_at st 1) = in_dir" "dir (q_at st 2) = df_dir @ ''00h01m00s''"
    "qm_fs st (mk_path act_dir (fmt_ld 7)) = Some 7" "qm_fs st (mk_path in_dir (fmt_ld 7)) = Some 7" "qm_countq st = 2"
proof -
  obtain st where st: "demo_run 7 = Some st" "qm_reach st" "qm_countq st = 2" "map m_inode (live (q_at st ACT)) = [7]"
    by (rule demo_state)
  have f: "map m_state (live (q_at st ACT)) = [1]" "map dir (qm_list st) = [act_dir, in_dir, df_dir @ ''00h01m00s'']"
      "qm_fs st (mk_path act_dir ''7'') = Some 7" "qm_fs st (mk_path in_dir ''7'') = Some 7"
    using demo_files [unfolded st(1)] by simp_all
  obtain m where m: "live (q_at st ACT) = [m]" "m_inode m = 7" using st(4) by (auto simp: map_eq_Cons_conv)
  have "in_work st 7 1" using m f(1) by (simp add: in_work_def)
  have "length (map dir (qm_list st)) = 3" unfolding f(2) by simp
  then have len: "length (qm_list st) = 3" by simp
  have d: "dir (q_at st 1) = in_dir" "dir (q_at st 2) = df_dir @ ''00h01m00s''"
    using nth_map [of 1 "qm_list st" dir] nth_map [of 2 "qm_list st" dir] f(2) len by (simp_all add: q_at_def)
  with \<open>in_work st 7 1\<close> show ?thesis using that [OF st(1)] qm_reach_inv [OF st(2)] d f(3,4) st(3) by (simp add: fmt_7)
qed

theorem response_delivered_witness:
  "\<exists>st st'. qm_reach st \<and> check_response demo_env 7 0 st = Inr (1, st') \<and> retired 7 1 st st'
    \<and> qm_fs st' (mk_path in_dir ''7'') = None \<and> qm_fs st' (mk_path act_dir ''7'') = None"
proof -
  obtain st where st: "demo_run 7 = Some st" "qm_inv st" "in_work st 7 1" "dir (q_at st 1) = in_dir"
    "qm_fs st (mk_path act_dir (fmt_ld 7)) = Some 7" "qm_fs st (mk_path in_dir (fmt_ld 7)) = Some 7" by (rule demo_work)
  from response_delivered [OF st(2,3) demo_disk] st(4-6) in_dirs(1)
  obtain st' where "check_response demo_env 7 0 st = Inr (1, st')" "retired 7 1 st st'"
    "qm_fs st' = (qm_fs st)(mk_path act_dir (fmt_ld 7) := None, mk_path in_dir (fmt_ld 7) := None)" by auto
  then show ?thesis using demo_reach [OF st(1)] by (intro exI [of _ st] exI [of _ st']) (simp add: fmt_7)
qed

text \<open>Where a message goes that the child could not deliver, and the timer that goes with it.\<close>

definition next_dir :: "qm \<Rightarrow> int \<Rightarrow> string" where
  "next_dir st s = (if s = qm_countq st then fail_dir else dir (q_at st (s + 1)))"

definition retry_timer :: "qm \<Rightarrow> int \<Rightarrow> ino_t \<Rightarrow> int \<times> int \<Rightarrow> heapnode" where
  "retry_timer st q ino t =
     \<lparr>hn_key = Timeval (fst t + timeout (q_at st q)) (snd t div 1000), hn_indque = q, hn_inode = ucast ino\<rparr>"

lemma ADDTIMER_law:
  assumes "wf_heap (qm_heap st)" "heap_room (qm_heap st)" "in_range st q" "os_clock (q_os env) (qm_clock st) = Some t"
  obtains h where "ADDTIMER env q ino st = Inr (st\<lparr>qm_heap := h, qm_clock := qm_clock st + 1\<rparr>)"
    "heap_items h = add_mset (retry_timer st q ino t) (heap_items (qm_heap st))"
proof -
  let ?k = "Timeval (fst t + timeout (q_at st q)) (snd t div 1000)"
  obtain h where h: "heap_insert (q_junk env) (qm_heap st) ?k q (ucast ino) = Inr h"
    using heap_insert_ok [OF assms(1,2)] by blast
  then have "ADDTIMER env q ino st = Inr (st\<lparr>qm_heap := h, qm_clock := qm_clock st + 1\<rparr>)"
    using assms(3,4) by (cases t) (simp add: ADDTIMER_def getmonotime_def que_eq)
  then show ?thesis using that heap_insert_items [OF assms(1) h] by (simp add: retry_timer_def)
qed

lemma respond_failed:
  assumes inv: "qm_inv st" and w: "in_range st s" "s \<noteq> ACT" and os: "disk_ok (q_os env)" and code: "code \<noteq> 0" "code \<noteq> 1"
    and last: "s = qm_countq st" and fa: "qm_fs st (mk_path act_dir (fmt_ld ino)) \<noteq> None"
    and fo: "qm_fs st (mk_path (dir (q_at st s)) (fmt_ld ino)) = Some i" "qm_fs st (mk_path fail_dir (fmt_ld ino)) = None"
    and ne: "strip_slash (dir (q_at st s)) \<noteq> strip_slash act_dir"
  obtains st' where "respond env ino code s st = Inr (0, st')"
    "retire s ino (st\<lparr>qm_fs := (qm_fs st)(mk_path act_dir (fmt_ld ino) := None, mk_path (dir (q_at st s)) (fmt_ld ino) := None,
       mk_path fail_dir (fmt_ld ino) := Some i)\<rparr>) = Inr st'"
proof -
  let ?a = "mk_path act_dir (fmt_ld ino)" and ?o = "mk_path (dir (q_at st s)) (fmt_ld ino)" and ?f = "mk_path fail_dir (fmt_ld ino)"
  let ?st1 = "st\<lparr>qm_fs := (qm_fs st)(?a := None)\<rparr>" and ?fs = "(qm_fs st)(?a := None, ?o := None, ?f := Some i)"
  have "unlink_sync env act_dir ino st = Inr ?st1" using unlink_sync_ok [OF os fa] .
  moreover have "mvfile (q_os env) ?o ?f (qm_fs ?st1) = (0, ?fs)"
    using mvfile_ok [OF os, of "qm_fs ?st1" ?o i ?f] fo ne by (simp add: mk_path_eq)
  moreover obtain st' where st': "retire s ino (st\<lparr>qm_fs := ?fs\<rparr>) = Inr st'"
    using retire_ok [of "st\<lparr>qm_fs := ?fs\<rparr>" s ino] inv w by auto
  ultimately have "respond env ino code s st = Inr (0, st')" using w code last by (simp add: respond_def que_eq)
  then show ?thesis using that st' by blast
qed

lemma respond_put_off:
  assumes inv: "qm_inv st" and w: "1 \<le> s" "s < qm_countq st" and os: "disk_ok (q_os env)" and code: "code \<noteq> 0" "code \<noteq> 1"
    and fa: "qm_fs st (mk_path act_dir (fmt_ld ino)) \<noteq> None"
    and fo: "qm_fs st (mk_path (dir (q_at st s)) (fmt_ld ino)) = Some i" "qm_fs st (mk_path (dir (q_at st (s + 1))) (fmt_ld ino)) = None"
    and ne: "strip_slash (dir (q_at st s)) \<noteq> strip_slash act_dir"
    and room: "msg_room (q_at st (s + 1))" "heap_room (qm_heap st)" and clk: "os_clock (q_os env) (qm_clock st) = Some t"
  obtains st2 l st3 h st' where "respond env ino code s st = Inr (0, st')"
    "st2 = st\<lparr>qm_fs := (qm_fs st)(mk_path act_dir (fmt_ld ino) := None, mk_path (dir (q_at st s)) (fmt_ld ino) := None,
       mk_path (dir (q_at st (s + 1))) (fmt_ld ino) := Some i)\<rparr>"
    "live l = live (q_at st (s + 1)) @ [elem_new ino (Timeval 0 0) (s + 1)]" "timeout l = timeout (q_at st (s + 1))"
    "qm_inv (set_que (s + 1) l st2)" "retire s ino (set_que (s + 1) l st2) = Inr st3"
    "st' = st3\<lparr>qm_heap := h, qm_clock := qm_clock st3 + 1\<rparr>"
    "heap_items h = add_mset (retry_timer st (s + 1) ino t) (heap_items (qm_heap st))"
proof -
  have rg: "in_range st s" "in_range st (s + 1)" "s \<noteq> ACT" "s + 1 \<noteq> ACT" using w qinv_wf(4) [OF inv] by (auto simp: ACT_def)
  let ?a = "mk_path act_dir (fmt_ld ino)" and ?o = "mk_path (dir (q_at st s)) (fmt_ld ino)"
  let ?n = "mk_path (dir (q_at st (s + 1))) (fmt_ld ino)" and ?e = "elem_new ino (Timeval 0 0) (s + 1)"
  let ?st1 = "st\<lparr>qm_fs := (qm_fs st)(?a := None)\<rparr>" and ?fs = "(qm_fs st)(?a := None, ?o := None, ?n := Some i)"
  let ?st2 = "st\<lparr>qm_fs := ?fs\<rparr>"
  have u: "unlink_sync env act_dir ino st = Inr ?st1" using unlink_sync_ok [OF os fa] .
  have "mvfile (q_os env) ?o ?n (qm_fs ?st1) = (0, ?fs)"
    using mvfile_ok [OF os, of "qm_fs ?st1" ?o i ?n] fo ne by (simp add: mk_path_eq)
  then have mv: "MOVEFILE env s (s + 1) ino ?st1 = Inr ?st2" using rg by (simp add: MOVEFILE_def que_eq)
  obtain c l where l: "elem_add (q_at st (s + 1)) ?e = Inr (c, l)" "live l = live (q_at st (s + 1)) @ [?e]"
      "timeout l = timeout (q_at st (s + 1))" "wf_msglist l" "send l = send (q_at st (s + 1))"
    using elem_add_law [OF qinv_wf(1) [OF inv rg(2)] room(1), of ?e] elem_add_wf [OF qinv_wf(1) [OF inv rg(2)]] by blast
  let ?st2' = "set_que (s + 1) l ?st2"
  have ad: "on_que (s + 1) (\<lambda>l. elem_add l ?e) ?st2 = Inr ?st2'" using l(1) rg(2) by (simp add: on_que_def que_eq)
  have inv2: "qm_inv ?st2'" using inv_set_que [of ?st2 "s + 1" l] inv rg l(4,5) by simp
  obtain st3 where st3: "retire s ino ?st2' = Inr st3" using retire_ok [OF inv2, of s ino] rg by auto
  note law = retire_law [OF inv2 rg(3) st3]
  have q3: "q_at st3 (s + 1) = l" using law(7) [of "s + 1"] rg(4) w q_at_set [of ?st2 "s + 1" "s + 1" l] rg(2) by simp
  obtain h where h: "ADDTIMER env (s + 1) ino st3 = Inr (st3\<lparr>qm_heap := h, qm_clock := qm_clock st3 + 1\<rparr>)"
      "heap_items h = add_mset (retry_timer st3 (s + 1) ino t) (heap_items (qm_heap st3))"
    using ADDTIMER_law [of st3 "s + 1" env t ino] law(9,11,12) inv_heap_wf [OF inv] room(2) rg(2) clk by (auto simp: in_range_def)
  have "respond env ino code s st = Inr (0, st3\<lparr>qm_heap := h, qm_clock := qm_clock st3 + 1\<rparr>)"
    using u mv ad st3 h(1) rg(1) code w by (simp add: respond_def que_eq)
  moreover have "heap_items h = add_mset (retry_timer st (s + 1) ino t) (heap_items (qm_heap st))"
    using h(2) law(9) q3 l(3) by (simp add: retry_timer_def)
  ultimately show ?thesis using that [OF _ refl l(2,3) inv2 st3 refl] by blast
qed

text \<open>
  C14. Not delivered (any other code): the link in the active directory is removed and the file moves
  from its queue's directory to that of the next queue, or to \<open>fail\<close> after the last one; the message
  leaves the active queue and its own.  In the next queue it stands last, with a timer that expires
  when that queue's delay has passed; after the last queue there is no timer.
\<close>

theorem response_not_delivered:
  assumes inv: "qm_inv st" and w: "in_work st ino s" and os: "disk_ok (q_os env)" and code: "code \<noteq> 0" "code \<noteq> 1"
    and fa: "qm_fs st (mk_path act_dir (fmt_ld ino)) \<noteq> None"
    and fo: "qm_fs st (mk_path (dir (q_at st s)) (fmt_ld ino)) = Some i" "qm_fs st (mk_path (next_dir st s) (fmt_ld ino)) = None"
    and ne: "strip_slash (dir (q_at st s)) \<noteq> strip_slash act_dir"
    and room: "s < qm_countq st \<Longrightarrow> msg_room (q_at st (s + 1)) \<and> heap_room (qm_heap st)"
    and clk: "os_clock (q_os env) (qm_clock st) = Some t"
  shows "\<exists>st'. check_response env ino code st = Inr (0, st') \<and> retired ino s st st'
    \<and> qm_fs st' = (qm_fs st)(mk_path act_dir (fmt_ld ino) := None, mk_path (dir (q_at st s)) (fmt_ld ino) := None,
         mk_path (next_dir st s) (fmt_ld ino) := Some i)
    \<and> (if s = qm_countq st then heap_items (qm_heap st') = heap_items (qm_heap st)
       else live (q_at st' (s + 1)) = live (q_at st (s + 1)) @ [elem_new ino (Timeval 0 0) (s + 1)]
         \<and> heap_items (qm_heap st') = add_mset (retry_timer st (s + 1) ino t) (heap_items (qm_heap st)))"
proof (cases "s = qm_countq st")
  case True
  note r = in_work_range(3,4) [OF inv w]
  have "qm_fs st (mk_path fail_dir (fmt_ld ino)) = None" using fo(2) True by (simp add: next_dir_def)
  then obtain st' where st': "respond env ino code s st = Inr (0, st')"
    "retire s ino (st\<lparr>qm_fs := (qm_fs st)(mk_path act_dir (fmt_ld ino) := None, mk_path (dir (q_at st s)) (fmt_ld ino) := None,
       mk_path fail_dir (fmt_ld ino) := Some i)\<rparr>) = Inr st'"
    using respond_failed [OF inv r os code True fa fo(1) _ ne] by blast
  have "qm_inv (st\<lparr>qm_fs := f\<rparr>)" for f using inv by simp
  note law = retire_law [OF this r(2) st'(2)]
  show ?thesis using check_response_in_work [OF inv w] st'(1) law True
    by (intro exI [of _ st']) (simp add: retired_def next_dir_def)
next
  case False
  note r = in_work_range [OF inv w]
  have lt: "s < qm_countq st" using r(2) False by simp
  have rg: "in_range st (s + 1)" "s + 1 \<noteq> ACT" using lt r(1) qinv_wf(4) [OF inv] by (auto simp: ACT_def)
  have "qm_fs st (mk_path (dir (q_at st (s + 1))) (fmt_ld ino)) = None" using fo(2) False by (simp add: next_dir_def)
  then obtain st2 l st3 h st' where st': "respond env ino code s st = Inr (0, st')"
    "st2 = st\<lparr>qm_fs := (qm_fs st)(mk_path act_dir (fmt_ld ino) := None, mk_path (dir (q_at st s)) (fmt_ld ino) := None,
       mk_path (dir (q_at st (s + 1))) (fmt_ld ino) := Some i)\<rparr>"
    "live l = live (q_at st (s + 1)) @ [elem_new ino (Timeval 0 0) (s + 1)]"
    "qm_inv (set_que (s + 1) l st2)" "retire s ino (set_que (s + 1) l st2) = Inr st3"
    "st' = st3\<lparr>qm_heap := h, qm_clock := qm_clock st3 + 1\<rparr>"
    "heap_items h = add_mset (retry_timer st (s + 1) ino t) (heap_items (qm_heap st))"
    using respond_put_off [OF inv r(1) lt os code fa fo(1) _ ne _ _ clk] room [OF lt] by metis
  note law = retire_law [OF st'(4) r(4) st'(5)]
  have q: "q_at (set_que (s + 1) l st2) j = (if j = s + 1 then l else q_at st j)" if "0 \<le> j" for j
    using q_at_set [of st2 "s + 1" j l] st'(2) rg(1) that by simp
  have "retired ino s st st'"
    using law(1,3,4,5,10) q [of s] q [of ACT] r(1) rg(2) st'(2,6) by (simp add: retired_def ACT_def)
  moreover have "live (q_at st' (s + 1)) = live (q_at st (s + 1)) @ [elem_new ino (Timeval 0 0) (s + 1)]"
    using law(7) [of "s + 1"] q [of "s + 1"] r(1) rg(2) st'(3,6) by simp
  moreover have "qm_fs st' = qm_fs st2" using law(8) st'(6) by simp
  ultimately show ?thesis using check_response_in_work [OF inv w] st' False
    by (intro exI [of _ st']) (simp add: next_dir_def)
qed

lemma demo_put_off:
  "map_option (\<lambda>st. (qm_fs st (mk_path (df_dir @ ''00h01m00s'') ''7''), nmax (q_at st 2), maxsize (qm_heap st), qm_clock st)) (demo_run 7)
     = Some (None, 0, 16, 0)"
  by code_simp

theorem response_not_delivered_witness:
  "\<exists>st st'. qm_reach st \<and> check_response demo_env 7 5 st = Inr (0, st') \<and> retired 7 1 st st'
    \<and> qm_fs st' (mk_path (df_dir @ ''00h01m00s'') ''7'') = Some 7
    \<and> retry_timer st 2 7 (100, 0) \<in># heap_items (qm_heap st')"
proof -
  obtain st where st: "demo_run 7 = Some st" "qm_inv st" "in_work st 7 1" "dir (q_at st 1) = in_dir"
    "dir (q_at st 2) = df_dir @ ''00h01m00s''" "qm_fs st (mk_path act_dir (fmt_ld 7)) = Some 7"
    "qm_fs st (mk_path in_dir (fmt_ld 7)) = Some 7" "qm_countq st = 2" by (rule demo_work)
  have f: "qm_fs st (mk_path (df_dir @ ''00h01m00s'') ''7'') = None" "nmax (q_at st 2) = 0" "maxsize (qm_heap st) = 16" "qm_clock st = 0"
    using demo_put_off [unfolded st(1)] by simp_all
  have n: "next_dir st 1 = df_dir @ ''00h01m00s''" using st(5,8) by (simp add: next_dir_def)
  have r: "msg_room (q_at st (1 + 1)) \<and> heap_room (qm_heap st)"
    using f(2,3) by (simp add: msg_room_def heap_room_def INT_MAX_def)
  have c: "os_clock (q_os demo_env) (qm_clock st) = Some (100, 0)" by (simp add: demo_env_def demo_os_def)
  from response_not_delivered [OF st(2,3) demo_disk, of 5, OF _ _ _ _ _ _ r c] st(4,6,7) f(1) n in_dirs(1)
  obtain st' where "check_response demo_env 7 5 st = Inr (0, st')" "retired 7 1 st st'"
    "qm_fs st' = (qm_fs st)(mk_path act_dir (fmt_ld 7) := None, mk_path in_dir (fmt_ld 7) := None,
       mk_path (df_dir @ ''00h01m00s'') (fmt_ld 7) := Some 7)"
    "heap_items (qm_heap st') = add_mset (retry_timer st 2 7 (100, 0)) (heap_items (qm_heap st))"
    using st(8) by (auto simp: fmt_7)
  then show ?thesis using demo_reach [OF st(1)] by (intro exI [of _ st] exI [of _ st']) (simp add: fmt_7)
qed

section \<open>Timers\<close>

lemma on_timeout_cases:
  assumes inv: "qm_inv st" and m: "qm_minnode st = Some x" "heap_min (qm_heap st) = Some x"
    and q: "q = hn_indque x" and ino: "ino = scast (hn_inode x)"
  shows "ino \<notin> m_inode ` set (live (q_at st q)) \<Longrightarrow>
      \<exists>h. on_timeout env st = Inr (st\<lparr>qm_wait := -1, qm_heap := h\<rparr>) \<and> heap_items (qm_heap st) = add_mset x (heap_items h)"
    and "\<lbrakk>ino \<in> m_inode ` set (live (q_at st q)); \<not> may_send WINDEFSIZE (q_at st q)\<rbrakk> \<Longrightarrow>
      on_timeout env st = Inr (st\<lparr>qm_wait := -1\<rparr>)"
    and "\<lbrakk>ino \<in> m_inode ` set (live (q_at st q)); may_send WINDEFSIZE (q_at st q); msg_room (q_at st ACT); q_pipe_ok env;
       qm_fs st (mk_path (dir (q_at st q)) (fmt_ld ino)) = Some i; qm_fs st (mk_path (dir (q_at st ACT)) (fmt_ld ino)) = None\<rbrakk> \<Longrightarrow>
      \<exists>st'. on_timeout env st = Inr st' \<and> qm_pipe st' = qm_pipe st @ [ino]
        \<and> live (q_at st' ACT) = live (q_at st ACT) @ [elem_new ino (Timeval 0 0) q]
        \<and> qm_fs st' = (qm_fs st)(mk_path (dir (q_at st ACT)) (fmt_ld ino) := Some i)
        \<and> heap_items (qm_heap st) = add_mset x (heap_items (qm_heap st'))"
proof -
  let ?st = "st\<lparr>qm_wait := -1\<rparr>"
  have wf: "wf_heap (qm_heap st)" using inv_heap_wf [OF inv] .
  have "2 \<le> q" "q \<le> qm_countq st" using timers.peek_in [OF wf m(2)] inv q by (auto simp: qm_inv_def)
  then have rg: "in_range st q" "q \<noteq> ACT" using qinv_wf(4) [OF inv] by (auto simp: ACT_def)
  have rg': "in_range ?st j = in_range st j" "q_at ?st j = q_at st j" for j by (simp_all add: in_range_def q_at_def)
  have inv': "qm_inv ?st" using inv by simp
  have found: "(\<exists>k \<ge> 0. elem_find (q_at st q) ino = Inr k) \<longleftrightarrow> ino \<in> m_inode ` set (live (q_at st q))"
    using queue.find_found_iff [OF qinv_wf(1) [OF inv rg(1)], of ino] by blast
  obtain k where k: "elem_find (q_at st q) ino = Inr k" using elem_find_law [OF qinv_wf(1) [OF inv rg(1)]] by blast
  obtain h where h: "heap_extract_min (qm_heap st) = Inr (x, h)" using timers.ext_peek [OF wf m(2)] by blast
  note it = heap_extract_min_items [OF wf m(2) h]
  note t = on_timeout_def [of env st, unfolded m(1) option.case Let_def, folded q ino, unfolded que_eq rg', simplified rg k, simplified]
  show "\<exists>h. on_timeout env st = Inr (st\<lparr>qm_wait := -1, qm_heap := h\<rparr>) \<and> heap_items (qm_heap st) = add_mset x (heap_items h)"
    if "ino \<notin> m_inode ` set (live (q_at st q))"
    using that found k h it t by auto
  show "on_timeout env st = Inr (st\<lparr>qm_wait := -1\<rparr>)"
    if "ino \<in> m_inode ` set (live (q_at st q))" "\<not> may_send WINDEFSIZE (q_at st q)"
    using that found k t by auto
  show "\<exists>st'. on_timeout env st = Inr st' \<and> qm_pipe st' = qm_pipe st @ [ino]
        \<and> live (q_at st' ACT) = live (q_at st ACT) @ [elem_new ino (Timeval 0 0) q]
        \<and> qm_fs st' = (qm_fs st)(mk_path (dir (q_at st ACT)) (fmt_ld ino) := Some i)
        \<and> heap_items (qm_heap st) = add_mset x (heap_items (qm_heap st'))"
    if a: "ino \<in> m_inode ` set (live (q_at st q))" "may_send WINDEFSIZE (q_at st q)" "msg_room (q_at st ACT)" "q_pipe_ok env"
       "qm_fs st (mk_path (dir (q_at st q)) (fmt_ld ino)) = Some i" "qm_fs st (mk_path (dir (q_at st ACT)) (fmt_ld ino)) = None"
  proof -
    obtain st1 where d: "dispatch env q ino ?st = Inr st1"
      using dispatch_ok [OF inv', of q ino i env] rg rg' a by auto
    note law = dispatch_law [OF inv' rg(2) d]
    have "on_timeout env st = Inr (st1\<lparr>qm_heap := h\<rparr>)"
      using t found k a(1,2) d h dispatch_heap [OF d] by auto
    then show ?thesis using law(1,5,7) rg' a(5) it by (intro exI [of _ "st1\<lparr>qm_heap := h\<rparr>"]) simp
  qed
qed

text \<open>
  C19. When the poll times out on the earliest timer: if its message is not in the timer's queue any
  more, the timer is taken from the heap and nothing is sent; if the queue may send, the message is
  linked into the active directory and handed to the child, and the timer is taken from the heap;
  if not, the timer stays for the next turn.
\<close>

theorem timer_expiry:
  assumes "qm_inv st" and "qm_minnode st = Some x" and "heap_min (qm_heap st) = Some x"
    and "q = hn_indque x" and "ino = scast (hn_inode x)"
  shows "(ino \<notin> m_inode ` set (live (q_at st q)) \<longrightarrow>
      (\<exists>h. on_timeout env st = Inr (st\<lparr>qm_wait := -1, qm_heap := h\<rparr>) \<and> heap_items (qm_heap st) = add_mset x (heap_items h)))
    \<and> (ino \<in> m_inode ` set (live (q_at st q)) \<and> \<not> may_send WINDEFSIZE (q_at st q) \<longrightarrow>
      on_timeout env st = Inr (st\<lparr>qm_wait := -1\<rparr>))
    \<and> (ino \<in> m_inode ` set (live (q_at st q)) \<and> may_send WINDEFSIZE (q_at st q) \<and> msg_room (q_at st ACT) \<and> q_pipe_ok env
       \<and> qm_fs st (mk_path (dir (q_at st q)) (fmt_ld ino)) = Some i \<and> qm_fs st (mk_path (dir (q_at st ACT)) (fmt_ld ino)) = None \<longrightarrow>
      (\<exists>st'. on_timeout env st = Inr st' \<and> qm_pipe st' = qm_pipe st @ [ino]
        \<and> live (q_at st' ACT) = live (q_at st ACT) @ [elem_new ino (Timeval 0 0) q]
        \<and> qm_fs st' = (qm_fs st)(mk_path (dir (q_at st ACT)) (fmt_ld ino) := Some i)
        \<and> heap_items (qm_heap st) = add_mset x (heap_items (qm_heap st'))))"
  using on_timeout_cases [OF assms] by (intro conjI impI) simp_all

text \<open>The example run goes on: the child reports a failure and the next turn waits for the timer.\<close>

definition demo_failed :: "ino_t \<Rightarrow> poll_result" where
  "demo_failed ino = PollReady \<lparr>rdy_trig = None, rdy_pipe = Some [(ino, 1), (ino, 5)], rdy_sig = False, rdy_ioctl = True, rdy_usr = []\<rparr>"

definition demo_wait :: "ino_t \<Rightarrow> qm option" where
  "demo_wait ino =
     (case demo_run ino of
        None \<Rightarrow> None
      | Some st \<Rightarrow> (case demo_turns [demo_failed ino] st of
          None \<Rightarrow> None
        | Some st1 \<Rightarrow> (case before_poll demo_env st1 of Inl e \<Rightarrow> None | Inr st2 \<Rightarrow> Some st2)))"

lemma demo_wait_inv:
  assumes "demo_wait ino = Some st"
  shows "qm_inv st" "qm_wait st \<noteq> -1 \<Longrightarrow> qm_minnode st = heap_min (qm_heap st)"
proof -
  obtain st0 st1 where r: "demo_run ino = Some st0" "demo_turns [demo_failed ino] st0 = Some st1" "before_poll demo_env st1 = Inr st"
    using assms by (auto simp: demo_wait_def split: option.splits sum.splits)
  have "qm_reach st1" using demo_turns_reach [OF demo_reach [OF r(1)] _ r(2)] by (simp add: demo_failed_def)
  then show "qm_inv st" "qm_wait st \<noteq> -1 \<Longrightarrow> qm_minnode st = heap_min (qm_heap st)"
    using before_poll_inv [OF _ _ r(3)] qm_reach_inv by blast+
qed

lemma demo_wait_view:
  "map_option (\<lambda>st. (qm_wait st, map_option (\<lambda>x. (hn_indque x, hn_inode x)) (qm_minnode st), map m_inode (live (q_at st 2)),
       may_send WINDEFSIZE (q_at st 2), nmax (q_at st ACT), map dir (qm_list st),
       qm_fs st (mk_path (df_dir @ ''00h01m00s'') ''7''), qm_fs st (mk_path act_dir ''7''))) (demo_wait 7)
     = Some (60000, Some (2, 7), [7], True, 4, [act_dir, in_dir, df_dir @ ''00h01m00s''], Some 7, None)"
  by code_simp

lemma demo_dirs:
  assumes "map dir (qm_list st) = [act_dir, in_dir, df_dir @ ''00h01m00s'']"
  shows "dir (q_at st ACT) = act_dir" "dir (q_at st 2) = df_dir @ ''00h01m00s''"
proof -
  have "length (map dir (qm_list st)) = 3" unfolding assms by simp
  then have len: "length (qm_list st) = 3" by simp
  show "dir (q_at st ACT) = act_dir" "dir (q_at st 2) = df_dir @ ''00h01m00s''"
    using nth_map [of 0 "qm_list st" dir] nth_map [of 2 "qm_list st" dir] assms len by (simp_all add: q_at_def ACT_def)
qed

theorem timer_expiry_witness:
  "\<exists>st st' x. qm_minnode st = Some x \<and> on_timeout demo_env st = Inr st' \<and> qm_pipe st' = qm_pipe st @ [7]
    \<and> qm_fs st' (mk_path act_dir ''7'') = Some 7 \<and> heap_items (qm_heap st) = add_mset x (heap_items (qm_heap st'))"
proof -
  obtain st where st: "demo_wait 7 = Some st" using demo_wait_view by auto
  note v = demo_wait_view [unfolded st, simplified]
  obtain x where x: "qm_minnode st = Some x" "hn_indque x = 2" "hn_inode x = 7" using v by auto
  have m: "heap_min (qm_heap st) = Some x" using demo_wait_inv(2) [OF st] v x(1) by simp
  have l: "7 \<in> m_inode ` set (live (q_at st 2))" using v by auto
  have d: "map dir (qm_list st) = [act_dir, in_dir, df_dir @ ''00h01m00s'']" using v by simp
  have "msg_room (q_at st ACT)" "may_send WINDEFSIZE (q_at st 2)" "q_pipe_ok demo_env"
    using v by (simp_all add: msg_room_def INT_MAX_def ARGROW_def demo_env_def)
  moreover have "qm_fs st (mk_path (dir (q_at st 2)) (fmt_ld 7)) = Some 7" "qm_fs st (mk_path (dir (q_at st ACT)) (fmt_ld 7)) = None"
    using v demo_dirs [OF d] by (simp_all add: fmt_7)
  moreover have "(7 :: ino_t) = scast (hn_inode x)" using x(3) by simp
  ultimately obtain st' where "on_timeout demo_env st = Inr st'" "qm_pipe st' = qm_pipe st @ [7]"
      "qm_fs st' = (qm_fs st)(mk_path (dir (q_at st ACT)) (fmt_ld 7) := Some 7)"
      "heap_items (qm_heap st) = add_mset x (heap_items (qm_heap st'))"
    using timer_expiry [OF demo_wait_inv(1) [OF st] x(1) m x(2) [symmetric], of 7 demo_env 7] l by auto
  then show ?thesis using x(1) demo_dirs [OF d] by (intro exI [of _ st] exI [of _ st'] exI [of _ x]) (simp add: fmt_7)
qed




section \<open>New messages\<close>

text \<open>The entries of the drop directory that are taken: those named by their own inode number.\<close>

definition taken :: "drop_entry list \<Rightarrow> drop_entry list" where
  "taken es = filter (\<lambda>e. de_name e \<noteq> CURDIR \<and> de_name e \<noteq> PARENTDIR \<and> strtoul (de_name e) = de_ino e) es"

definition drop_msgs :: "drop_entry list \<Rightarrow> msg list" where
  "drop_msgs es = map (\<lambda>e. case the (de_stat e) of (ino, sec, nsec) \<Rightarrow> elem_new ino (Timeval sec (nsec div 1000)) IN) (taken es)"

lemma scan_entries_law:
  "qm_inv st \<Longrightarrow> scan_entries env es n st = Inr (n', st') \<Longrightarrow>
   n' = n + int (length (taken es)) \<and> live (q_at st' IN) = live (q_at st IN) @ drop_msgs es
   \<and> (\<forall>j \<ge> 0. j \<noteq> IN \<longrightarrow> q_at st' j = q_at st j) \<and> qm_pipe st' = qm_pipe st"
proof (induction es arbitrary: n st)
  case (Cons e es)
  note rg = qinv_wf(3) [OF Cons.prems(1)]
  show ?case
  proof (cases "de_name e = CURDIR \<or> de_name e = PARENTDIR \<or> strtoul (de_name e) \<noteq> de_ino e")
    case True
    with Cons.IH [OF Cons.prems(1), of n] Cons.prems(2) show ?thesis
      by (auto simp: taken_def drop_msgs_def split: if_splits)
  next
    case False
    obtain fs ino sec nsec st1 where st1: "de_stat e = Some (ino, sec, nsec)"
        "on_que IN (\<lambda>l. elem_add l (elem_new ino (Timeval sec (nsec div 1000)) IN)) (st\<lparr>qm_fs := fs\<rparr>) = Inr st1"
        "scan_entries env es (n + 1) st1 = Inr (n', st')"
      using Cons.prems(2) False by (auto elim!: res_bindE split: option.splits if_splits prod.splits)
    obtain r l where l: "elem_add (q_at st IN) (elem_new ino (Timeval sec (nsec div 1000)) IN) = Inr (r, l)"
        "st1 = set_que IN l (st\<lparr>qm_fs := fs\<rparr>)"
      using st1(2) by (auto elim!: on_queE)
    have inv1: "qm_inv st1" by (rule inv_on_que [OF _ _ st1(2)]) (use Cons.prems(1) elem_add_wf in \<open>auto simp: IN_def ACT_def\<close>)
    have q1: "q_at st1 j = (if j = IN then l else q_at st j)" if "0 \<le> j" for j
      using q_at_set [of "st\<lparr>qm_fs := fs\<rparr>" IN j l] rg that l(2) by simp
    have "live (q_at st1 IN) = live (q_at st IN) @ [elem_new ino (Timeval sec (nsec div 1000)) IN]"
      using q1 [of IN] elem_add_wf(1) [OF qinv_wf(1) [OF Cons.prems(1) rg] l(1)] by (simp add: IN_def)
    with Cons.IH [OF inv1 st1(3)] False st1(1) q1 l(2) show ?thesis by (simp add: taken_def drop_msgs_def)
  qed
qed (simp add: taken_def drop_msgs_def)

text \<open>
  C21. Scanning the drop directory takes every entry named by its own inode number into the input
  queue, and returns how many there were: the queue then holds its old messages and the new ones,
  with the modification times read from the moved files, oldest first; no other queue changes and
  nothing is sent.
\<close>

theorem scan_drop_takes_messages:
  assumes inv: "qm_inv st" and env: "env_ok env" and s: "scan_drop env (Some es) st = Inr (n, st')"
  shows "n = int (length (taken es)) \<and> mset (live (q_at st' IN)) = mset (live (q_at st IN) @ drop_msgs es)
    \<and> (n \<noteq> 0 \<longrightarrow> sorted (map mtime_key (live (q_at st' IN))))
    \<and> (\<forall>j \<ge> 0. j \<noteq> IN \<longrightarrow> q_at st' j = q_at st j) \<and> qm_pipe st' = qm_pipe st"
proof -
  obtain m st1 where st1: "scan_entries env es 0 st = Inr (m, st1)"
    using s by (auto simp: scan_drop_def elim!: res_bindE)
  note law = scan_entries_law [OF inv st1]
  have inv1: "qm_inv st1" using scan_entries_inv [OF inv st1] .
  show ?thesis
  proof (cases "m = 0")
    case True
    then show ?thesis using s st1 law by (simp add: scan_drop_def)
  next
    case False
    note rg = qinv_wf(3) [OF inv1]
    obtain l where l: "queue_sort (q_qsort env) (q_at st1 IN) = Inr l" "mset (live l) = mset (live (q_at st1 IN))"
        "sorted (map mtime_key (live l))"
      using queue_sort_law [OF qinv_wf(1) [OF inv1 rg]] env unfolding env_ok_def by blast
    have "n = m \<and> st' = set_que IN l st1"
      using s st1 False l(1) rg by (simp add: scan_drop_def on_que_def que_eq)
    moreover have "q_at (set_que IN l st1) j = (if j = IN then l else q_at st1 j)" if "0 \<le> j" for j
      using q_at_set [OF rg that] .
    ultimately show ?thesis using l(2,3) law by (auto simp: IN_def)
  qed
qed

definition demo_drop :: "drop_entry list" where
  "demo_drop = [\<lparr>de_name = ''notes.txt'', de_ino = 3, de_stat = Some (3, 1, 0)\<rparr>, demo_entry 7]"

lemma demo_drop_view:
  "(case quemngr_start demo_env demo_se (sort_key timeout) (Some []) (\<lambda>d. Some []) (Some []) (demo_fs 7) of
      Inl e \<Rightarrow> None
    | Inr st \<Rightarrow> Some (is_ok (scan_drop demo_env (Some demo_drop) st), live (q_at st IN))) = Some (True, [])"
  by code_simp

lemma demo_taken: "taken demo_drop = [demo_entry 7]"
  by code_simp

theorem scan_drop_takes_messages_witness:
  "\<exists>st st'. qm_reach st \<and> scan_drop demo_env (Some demo_drop) st = Inr (1, st') \<and> live (q_at st' IN) = [elem_new 7 (Timeval 5 0) IN]"
proof -
  obtain st where st: "quemngr_start demo_env demo_se (sort_key timeout) (Some []) (\<lambda>d. Some []) (Some []) (demo_fs 7) = Inr st"
      "is_ok (scan_drop demo_env (Some demo_drop) st)" "live (q_at st IN) = []"
    using demo_drop_view by (auto split: sum.splits)
  have r: "qm_reach st" using qm_reach.start [OF demo_env_ok is_qsort_timeout st(1)] .
  obtain n st' where s: "scan_drop demo_env (Some demo_drop) st = Inr (n, st')" using st(2) by (auto simp: is_ok_iff)
  have inv: "qm_inv st" using qm_reach_inv [OF r] by blast
  have t: "length (taken demo_drop) = 1" "drop_msgs demo_drop = [elem_new 7 (Timeval 5 0) IN]"
    by (simp_all add: demo_taken drop_msgs_def) (simp add: demo_entry_def)
  have "n = 1" "mset (live (q_at st' IN)) = {#elem_new 7 (Timeval 5 0) IN#}"
    using scan_drop_takes_messages [OF inv demo_env_ok s] t st(3) by simp_all
  then show ?thesis using r s by (intro exI [of _ st] exI [of _ st']) simp
qed

end
