(* ===== verification/QuemngrFlush.thy ===== *)
theory QuemngrFlush
  imports QuemngrDelivery
begin

text \<open>
  Flushing (\<open>flush_queue\<close>) when the connection is back: if the child confirms and delivers every
  message it is given, the loop ends with every queue empty, the messages handed over queue by
  queue from the last to the first and inside a queue in its order.
\<close>

text \<open>
  Nothing is with the child; every queued message has its file in its queue's directory and none in
  the active directory; directories and the inodes of a queue are different from each other.
\<close>

definition flushable :: "qm \<Rightarrow> bool" where
  "flushable st \<longleftrightarrow> qm_inv st \<and> live (q_at st ACT) = [] \<and> strip_slash (dir (q_at st ACT)) = strip_slash act_dir
     \<and> inj_on (\<lambda>q. strip_slash (dir (q_at st q))) {0..qm_countq st}
     \<and> (\<forall>q \<in> {1..qm_countq st}. conf (q_at st q) = 0 \<and> distinct (map m_inode (live (q_at st q)))
         \<and> (\<forall>m \<in> set (live (q_at st q)). qm_fs st (mk_path (dir (q_at st q)) (fmt_ld (m_inode m))) \<noteq> None
              \<and> qm_fs st (mk_path act_dir (fmt_ld (m_inode m))) = None))"

text \<open>The child's answers: received, then delivered.\<close>

definition answered :: "ino_t list \<Rightarrow> (ino_t \<times> int) list list" where
  "answered inos = map (\<lambda>i. [(i, 1), (i, 0)]) inos"

lemma flushable_dirs:
  assumes "flushable st" and "1 \<le> q" "q \<le> qm_countq st" "0 \<le> j" "j \<le> qm_countq st" "j \<noteq> q"
  shows "strip_slash (dir (q_at st j)) \<noteq> strip_slash (dir (q_at st q))"
  using assms inj_onD [of "\<lambda>q. strip_slash (dir (q_at st q))" "{0..qm_countq st}" j q] by (auto simp: flushable_def)

lemma flushable_queue:
  assumes "flushable st" and "1 \<le> q" "q \<le> qm_countq st"
  shows "conf (q_at st q) = 0" and "distinct (map m_inode (live (q_at st q)))"
    and "m \<in> set (live (q_at st q)) \<Longrightarrow> qm_fs st (mk_path (dir (q_at st q)) (fmt_ld (m_inode m))) \<noteq> None
           \<and> qm_fs st (mk_path act_dir (fmt_ld (m_inode m))) = None"
  using assms by (simp_all add: flushable_def)

text \<open>A message handed over, confirmed and delivered: what is left of it.\<close>

definition delivered :: "ino_t \<Rightarrow> int \<Rightarrow> qm \<Rightarrow> qm \<Rightarrow> bool" where
  "delivered ino q st st' \<longleftrightarrow>
     qm_inv st' \<and> live (q_at st' ACT) = [] \<and> dir (q_at st' ACT) = dir (q_at st ACT)
     \<and> live (q_at st' q) = remove_first (\<lambda>m. m_inode m = ino) (live (q_at st q))
     \<and> conf (q_at st' q) = conf (q_at st q) \<and> dir (q_at st' q) = dir (q_at st q)
     \<and> (\<forall>j \<ge> 1. j \<noteq> q \<longrightarrow> q_at st' j = q_at st j)
     \<and> qm_fs st' = (qm_fs st)(mk_path (dir (q_at st q)) (fmt_ld ino) := None)
     \<and> qm_pipe st' = qm_pipe st @ [ino] \<and> qm_countq st' = qm_countq st"

lemma confirm_law:
  assumes "qm_inv st" and "in_work st ino q"
  shows "check_response env ino 1 st = Inr (0, set_que q ((q_at st q)\<lparr>conf := conf (q_at st q) + 1\<rparr>) st)"
  using in_work_range(3) [OF assms] check_response_in_work [OF assms, of env 1]
  by (simp add: respond_def que_eq on_que_def)

lemma hand_over:
  assumes fl: "flushable st" and q: "1 \<le> q" "q \<le> qm_countq st" and m: "m \<in> set (live (q_at st q))" and os: "q_pipe_ok env"
  obtains st1 i where "dispatch env q (m_inode m) st = Inr st1" "qm_inv st1" "in_work st1 (m_inode m) q"
    "qm_fs st (mk_path (dir (q_at st q)) (fmt_ld (m_inode m))) = Some i" "qm_fs st (mk_path act_dir (fmt_ld (m_inode m))) = None"
    "qm_fs st1 = (qm_fs st)(mk_path act_dir (fmt_ld (m_inode m)) := Some i)"
proof -
  let ?i = "m_inode m" and ?own = "mk_path (dir (q_at st q)) (fmt_ld (m_inode m))" and ?act = "mk_path act_dir (fmt_ld (m_inode m))"
  have inv: "qm_inv st" and e: "live (q_at st ACT) = []" and da: "strip_slash (dir (q_at st ACT)) = strip_slash act_dir"
    using fl by (auto simp: flushable_def)
  have rg: "in_range st q" "q \<noteq> ACT" using q qinv_wf(4) [OF inv] by (auto simp: ACT_def)
  have f: "qm_fs st ?own \<noteq> None" "qm_fs st ?act = None" using fl q m by (auto simp: flushable_def)
  have pa: "mk_path (dir (q_at st ACT)) (fmt_ld ?i) = ?act" using da by (simp add: mk_path_eq)
  obtain i where i: "qm_fs st ?own = Some i" using f(1) by blast
  obtain st1 where d: "dispatch env q ?i st = Inr st1" using dispatch_ok [OF inv rg _ i] e f(2) pa os by auto
  note dl = dispatch_law [OF inv rg(2) d]
  have s0: "send (q_at st q) = 0" using inv e q by (auto simp: qm_inv_def active_def)
  have "qm_inv st1" using dispatch_inv [OF inv q(1) _ d] s0 by (simp add: WINSIZE_def WINDEFSIZE_def)
  moreover have "in_work st1 ?i q" using dl(1) e by (simp add: in_work_def elem_new_def)
  moreover have "qm_fs st1 = (qm_fs st)(?act := Some i)" using dl(7) pa i by simp
  ultimately show ?thesis using that d i f(2) by blast
qed

lemma deliver_one:
  assumes fl: "flushable st" and q: "1 \<le> q" "q \<le> qm_countq st" and l: "live (q_at st q) = m # ms"
    and os: "disk_ok (q_os env)" "q_pipe_ok env"
  obtains st1 st' where "dispatch env q (m_inode m) st = Inr st1"
    "read_responses env [(m_inode m, 1), (m_inode m, 0)] n st1 = Inr (n + 1, st')" "delivered (m_inode m) q st st'"
proof -
  let ?i = "m_inode m" and ?own = "mk_path (dir (q_at st q)) (fmt_ld (m_inode m))" and ?act = "mk_path act_dir (fmt_ld (m_inode m))"
  have inv: "qm_inv st" and e: "live (q_at st ACT) = []" and da: "strip_slash (dir (q_at st ACT)) = strip_slash act_dir"
    using fl by (auto simp: flushable_def)
  have rg: "in_range st q" "q \<noteq> ACT" using q qinv_wf(4) [OF inv] by (auto simp: ACT_def)
  have m: "m \<in> set (live (q_at st q))" using l by simp
  have ne: "strip_slash (dir (q_at st q)) \<noteq> strip_slash act_dir"
    using flushable_dirs [OF fl q, of ACT] rg(2) q da by (auto simp: ACT_def)
  obtain st1 i where d: "dispatch env q ?i st = Inr st1" and inv1: "qm_inv st1" and w1: "in_work st1 ?i q"
      and i: "qm_fs st ?own = Some i" "qm_fs st ?act = None" and fs1: "qm_fs st1 = (qm_fs st)(?act := Some i)"
    using hand_over [OF fl q m os(2)] by blast
  note dl = dispatch_law [OF inv rg(2) d]
  let ?l2 = "(q_at st1 q)\<lparr>conf := conf (q_at st1 q) + 1\<rparr>" and ?st2 = "set_que q ((q_at st1 q)\<lparr>conf := conf (q_at st1 q) + 1\<rparr>) st1"
  note c1 = confirm_law [OF inv1 w1, of env]
  have rg1: "in_range st1 q" using in_work_range(3) [OF inv1 w1] .
  have inv2: "qm_inv ?st2" using check_response_inv [OF inv1 c1] .
  have q2: "q_at ?st2 j = (if j = q then ?l2 else q_at st1 j)" if "0 \<le> j" for j using q_at_set [OF rg1 that] .
  have q2q: "q_at ?st2 q = ?l2" using q2 [of q] q by simp
  have q2a: "q_at ?st2 ACT = q_at st1 ACT" using q2 [of ACT] rg(2) by (simp add: ACT_def)
  have w2: "in_work ?st2 ?i q" using w1 q2a by (simp add: in_work_def)
  have fs2: "qm_fs ?st2 = (qm_fs st)(?act := Some i)" using fs1 by simp
  have own2: "mk_path (dir (q_at ?st2 q)) (fmt_ld ?i) = ?own" using q2q dl(3) by simp
  have oa: "?own \<noteq> ?act" using ne by (simp add: mk_path_eq)
  have ne2: "strip_slash (dir (q_at ?st2 q)) \<noteq> strip_slash act_dir" using q2q dl(3) ne by simp
  obtain st' where r: "respond env ?i 0 q ?st2 = Inr (1, st')"
      "retire q ?i (?st2\<lparr>qm_fs := (qm_fs ?st2)(?act := None, mk_path (dir (q_at ?st2 q)) (fmt_ld ?i) := None)\<rparr>) = Inr st'"
    using respond_delivered [OF inv2 in_work_range(3,4) [OF inv2 w2] os(1) _ _ ne2, of ?i] fs2 own2 i(1) oa by auto
  have c2: "check_response env ?i 0 ?st2 = Inr (1, st')" using check_response_in_work [OF inv2 w2] r(1) by simp
  have "qm_inv (?st2\<lparr>qm_fs := g\<rparr>)" for g using inv2 by simp
  note rl = retire_law [OF this rg(2) r(2)]
  have "delivered ?i q st st'" unfolding delivered_def
  proof (intro conjI allI impI)
    show "qm_inv st'" using check_response_inv [OF inv2 c2] .
    show "live (q_at st' ACT) = []" using rl(1) q2a dl(1) e by (simp add: elem_new_def)
    show "dir (q_at st' ACT) = dir (q_at st ACT)" using rl(2) q2a dl(2) by simp
    show "live (q_at st' q) = remove_first (\<lambda>m. m_inode m = ?i) (live (q_at st q))" using rl(3) q2q dl(3) by simp
    show "conf (q_at st' q) = conf (q_at st q)" using rl(5) q2q dl(3) by simp
    show "dir (q_at st' q) = dir (q_at st q)" using rl(6) q2q dl(3) by simp
    show "q_at st' j = q_at st j" if "1 \<le> j" "j \<noteq> q" for j using rl(7) [of j] q2 [of j] dl(4) [of j] that by (simp add: ACT_def)
    show "qm_fs st' = (qm_fs st)(?own := None)"
      using rl(8) fs2 own2 i(2) by (auto simp: fun_eq_iff)
    show "qm_pipe st' = qm_pipe st @ [?i]" using rl(10) dl(5) by simp
    show "qm_countq st' = qm_countq st" using rl(13) dispatch_count [OF d] by simp
  qed
  moreover have "read_responses env [(?i, 1), (?i, 0)] n st1 = Inr (n + 1, st')" using c1 c2 by simp
  ultimately show ?thesis using that d by blast
qed

lemma delivered_flushable:
  assumes fl: "flushable st" and q: "1 \<le> q" "q \<le> qm_countq st" and l: "live (q_at st q) = m # ms"
    and d: "delivered (m_inode m) q st st'"
  shows "flushable st' \<and> live (q_at st' q) = ms"
proof -
  note d' = d [unfolded delivered_def]
  have ms: "live (q_at st' q) = ms" using d' l by simp
  have dirs: "dir (q_at st' j) = dir (q_at st j)" if "0 \<le> j" for j
    using d' that by (cases "j = ACT"; cases "j = q") (auto simp: ACT_def)
  have own: "qm_fs st' p = qm_fs st p" if "p \<noteq> mk_path (dir (q_at st q)) (fmt_ld (m_inode m))" for p using d' that by simp
  have da: "strip_slash (dir (q_at st q)) \<noteq> strip_slash act_dir"
    using flushable_dirs [OF fl q, of ACT] q fl by (auto simp: ACT_def flushable_def)
  have act: "qm_fs st' (mk_path act_dir n) = qm_fs st (mk_path act_dir n)" for n
    using own da by (metis mk_path_eq)
  have queues: "conf (q_at st' j) = 0 \<and> distinct (map m_inode (live (q_at st' j)))
      \<and> (\<forall>x \<in> set (live (q_at st' j)). qm_fs st' (mk_path (dir (q_at st' j)) (fmt_ld (m_inode x))) \<noteq> None
           \<and> qm_fs st' (mk_path act_dir (fmt_ld (m_inode x))) = None)" if j: "1 \<le> j" "j \<le> qm_countq st" for j
  proof (cases "j = q")
    case True
    have dist: "distinct (map m_inode (m # ms))" using flushable_queue(2) [OF fl q] l by simp
    have "qm_fs st' (mk_path (dir (q_at st q)) (fmt_ld (m_inode x))) \<noteq> None" if "x \<in> set ms" for x
    proof -
      have "m_inode x \<noteq> m_inode m" using dist that by (metis distinct.simps(2) image_eqI list.set_map list.simps(9))
      then have "mk_path (dir (q_at st q)) (fmt_ld (m_inode x)) \<noteq> mk_path (dir (q_at st q)) (fmt_ld (m_inode m))"
        by (simp add: mk_path_eq fmt_ld_inj)
      then show ?thesis using own flushable_queue(3) [OF fl q, of x] l that by simp
    qed
    then show ?thesis using True d' ms dist act flushable_queue(1,3) [OF fl q] l dirs [of q] q by auto
  next
    case False
    have "mk_path (dir (q_at st j)) n \<noteq> mk_path (dir (q_at st q)) (fmt_ld (m_inode m))" for n
      using flushable_dirs [OF fl q, of j] j False by (auto simp: mk_path_eq)
    then show ?thesis using False d' j flushable_queue [OF fl j] own act by auto
  qed
  have inj: "inj_on (\<lambda>q. strip_slash (dir (q_at st' q))) {0..qm_countq st}"
    using fl dirs by (auto simp: flushable_def inj_on_def)
  have base: "qm_inv st'" "live (q_at st' ACT) = []" "strip_slash (dir (q_at st' ACT)) = strip_slash act_dir"
      "qm_countq st' = qm_countq st"
    using d' fl by (auto simp: flushable_def)
  show ?thesis unfolding flushable_def base(4) using base(1-3) inj queues ms by (intro conjI ballI) auto
qed

text \<open>A queue is worked off message by message.\<close>

lemma flush_level:
  assumes os: "disk_ok (q_os env)" "q_pipe_ok env"
  shows "flushable st \<Longrightarrow> 1 \<le> i \<Longrightarrow> int i \<le> qm_countq st \<Longrightarrow> live (q_at st (int i)) = ms \<Longrightarrow>
    \<exists>st'. flush_loop env i (answered (map m_inode ms) @ bs) n st = flush_loop env (i - 1) bs (n + int (length ms)) st'
      \<and> flushable st' \<and> live (q_at st' (int i)) = [] \<and> (\<forall>j \<ge> 1. j \<noteq> int i \<longrightarrow> q_at st' j = q_at st j)
      \<and> qm_pipe st' = qm_pipe st @ map m_inode ms \<and> qm_countq st' = qm_countq st"
proof (induction ms arbitrary: st n)
  case Nil
  have rg: "in_range st (int i)" and wf: "wf_msglist (q_at st (int i))"
    using Nil.prems(1-3) qinv_wf(1,4) by (auto simp: flushable_def)
  have "\<not> total (q_at st (int i)) > 0" using total_le_length [OF wf] Nil.prems(4) by simp
  then have "flush_loop env i bs n st = flush_loop env (i - 1) bs n st"
    using rg Nil.prems(2) by (subst flush_loop.simps) (simp add: que_eq)
  then show ?case using Nil by (intro exI [of _ st]) (simp add: answered_def)
next
  case (Cons m ms)
  let ?q = "int i" and ?b = "[(m_inode m, 1), (m_inode m, 0)]"
  have inv: "qm_inv st" using Cons.prems(1) by (simp add: flushable_def)
  have rg: "in_range st ?q" and wf: "wf_msglist (q_at st ?q)" using Cons.prems(2,3) qinv_wf(1,4) [OF inv] by auto
  have q: "1 \<le> ?q" "?q \<le> qm_countq st" using Cons.prems(2,3) by simp_all
  have t: "total (q_at st ?q) = int (length (m # ms))" using total_of_live [OF wf] Cons.prems(4) by simp
  have s0: "send (q_at st ?q) = 0" "conf (q_at st ?q) = 0"
    using Cons.prems(1) q by (auto simp: flushable_def qm_inv_def active_def)
  obtain st1 st2 where d: "dispatch env ?q (m_inode m) st = Inr st1" "read_responses env ?b n st1 = Inr (n + 1, st2)"
      "delivered (m_inode m) ?q st st2"
    using deliver_one [OF Cons.prems(1) q Cons.prems(4) os] by blast
  have g: "GETFILENAME ?q st = Inr (m_inode m)"
    using msg_at_live [OF wf, of 0] t s0 rg Cons.prems(4) by (simp add: GETFILENAME_def que_eq)
  have "flush_loop env i (?b # answered (map m_inode ms) @ bs) n st = flush_loop env i (answered (map m_inode ms) @ bs) (n + 1) st2"
    using rg t s0 g d Cons.prems(2) by (subst flush_loop.simps) (simp add: que_eq may_send_def WINSIZE_def)
  moreover have f2: "flushable st2" "live (q_at st2 ?q) = ms" using delivered_flushable [OF Cons.prems(1) q Cons.prems(4) d(3)] by auto
  have cq: "qm_countq st2 = qm_countq st" using d(3) by (simp add: delivered_def)
  from Cons.IH [OF f2(1) Cons.prems(2) _ f2(2), of "n + 1"] Cons.prems(3) cq obtain st' where
    "flush_loop env i (answered (map m_inode ms) @ bs) (n + 1) st2 = flush_loop env (i - 1) bs (n + 1 + int (length ms)) st'"
    "flushable st'" "live (q_at st' ?q) = []" "\<forall>j \<ge> 1. j \<noteq> ?q \<longrightarrow> q_at st' j = q_at st2 j"
    "qm_pipe st' = qm_pipe st2 @ map m_inode ms" "qm_countq st' = qm_countq st2" by auto
  ultimately show ?case using d(3) cq by (intro exI [of _ st']) (simp add: answered_def delivered_def add.assoc)
qed

text \<open>The inodes in the order flushing takes them.\<close>

fun backlog :: "nat \<Rightarrow> qm \<Rightarrow> ino_t list" where
  "backlog 0 st = []"
| "backlog (Suc i) st = map m_inode (live (q_at st (int (Suc i)))) @ backlog i st"

lemma backlog_cong: "(\<And>j. 1 \<le> j \<Longrightarrow> j \<le> int i \<Longrightarrow> q_at st' j = q_at st j) \<Longrightarrow> backlog i st' = backlog i st"
  by (induction i) auto

lemma flush_all:
  assumes os: "disk_ok (q_os env)" "q_pipe_ok env"
  shows "flushable st \<Longrightarrow> int i \<le> qm_countq st \<Longrightarrow>
    \<exists>st'. flush_loop env i (answered (backlog i st)) n st = Some (Inr (n + int (length (backlog i st)), [], st'))
      \<and> (\<forall>j. 1 \<le> j \<and> j \<le> int i \<longrightarrow> live (q_at st' j) = []) \<and> (\<forall>j > int i. q_at st' j = q_at st j)
      \<and> flushable st' \<and> qm_pipe st' = qm_pipe st @ backlog i st \<and> qm_countq st' = qm_countq st"
proof (induction i arbitrary: st n)
  case 0
  then show ?case by (subst flush_loop.simps) (auto simp: answered_def)
next
  case (Suc i)
  let ?ms = "live (q_at st (int (Suc i)))" and ?bs = "answered (backlog i st)"
  obtain st1 where st1: "flush_loop env (Suc i) (answered (map m_inode ?ms) @ ?bs) n st = flush_loop env i ?bs (n + int (length ?ms)) st1"
      "flushable st1" "live (q_at st1 (int (Suc i))) = []" "\<forall>j \<ge> 1. j \<noteq> int (Suc i) \<longrightarrow> q_at st1 j = q_at st j"
      "qm_pipe st1 = qm_pipe st @ map m_inode ?ms" "qm_countq st1 = qm_countq st"
    using flush_level [OF os Suc.prems(1) _ Suc.prems(2) refl, of ?bs n] by auto
  have b: "backlog i st1 = backlog i st" using st1(4) by (intro backlog_cong) simp
  from Suc.IH [OF st1(2), of "n + int (length ?ms)"] Suc.prems(2) st1(6) b obtain st' where st':
    "flush_loop env i ?bs (n + int (length ?ms)) st1 = Some (Inr (n + int (length ?ms) + int (length (backlog i st)), [], st'))"
    "\<forall>j. 1 \<le> j \<and> j \<le> int i \<longrightarrow> live (q_at st' j) = []" "\<forall>j > int i. q_at st' j = q_at st1 j"
    "flushable st'" "qm_pipe st' = qm_pipe st1 @ backlog i st" "qm_countq st' = qm_countq st1" by auto
  have "live (q_at st' j) = []" if "1 \<le> j" "j \<le> int (Suc i)" for j
  proof (cases "j = int (Suc i)")
    case True
    then show ?thesis using st'(3) st1(3) by simp
  qed (use st'(2) that in simp)
  then show ?case using st' st1 by (intro exI [of _ st']) (simp add: answered_def)
qed

text \<open>
  C9. Flushing returns: when nothing is with the child and the child confirms and delivers each message
  it is given, \<open>flush_queue\<close> ends after one round per message with every queue empty and the count of
  the delivered messages as its result; the messages were handed over from the last queue to the
  first, each queue in its own order.
\<close>

theorem flush_queue_drains:
  assumes "flushable st" and "disk_ok (q_os env)" and "q_pipe_ok env" and "inos = backlog (nat (qm_countq st)) st"
  shows "\<exists>st'. Quemngr.flush_queue env (answered inos) st = Some (Inr (int (length inos), [], st'))
    \<and> (\<forall>q. 1 \<le> q \<and> q \<le> qm_countq st \<longrightarrow> live (q_at st' q) = []) \<and> qm_pipe st' = qm_pipe st @ inos"
proof -
  have "0 \<le> qm_countq st" using assms(1) qinv_wf(5) by (force simp: flushable_def)
  then show ?thesis using flush_all [OF assms(2,3,1), of "nat (qm_countq st)" 0] assms(4)
    by (auto simp: flush_queue_def)
qed

text \<open>Two files dropped before the start.\<close>

definition demo_two :: "qm res" where
  "demo_two = quemngr_start demo_env demo_se (sort_key timeout)
     (Some [\<lparr>df_name = ''00h01m00s'', df_stat = Some True\<rparr>]) (\<lambda>d. Some []) (Some [demo_entry 7, demo_entry 9])
     ((demo_fs 7)(mk_path drop_dir ''9'' := Some 9))"

definition flush_view where
  "flush_view st = (qm_countq st, map (map m_inode \<circ> live) (qm_list st), map conf (qm_list st), map dir (qm_list st),
     map (\<lambda>n. qm_fs st (mk_path in_dir n)) [''7'', ''9''], map (\<lambda>n. qm_fs st (mk_path act_dir n)) [''7'', ''9''])"

lemma demo_two_view:
  "(case demo_two of Inl e \<Rightarrow> None | Inr st \<Rightarrow> Some (flush_view st))
   = Some (2, [[], [7, 9], []], [0, 0, 0], [act_dir, in_dir, df_dir @ ''00h01m00s''], [Some 7, Some 9], [None, None])"
  by code_simp

lemma fmt_9: "fmt_ld 9 = ''9''"
  by code_simp

lemma demo_two_flushable:
  obtains st where "demo_two = Inr st" "flushable st" "backlog (nat (qm_countq st)) st = [7, 9]" "qm_countq st = 2"
proof -
  obtain st where st: "demo_two = Inr st" using demo_two_view by (auto split: sum.splits)
  note v = demo_two_view [unfolded st sum.case flush_view_def, simplified]
  obtain a b c where q: "qm_list st = [a, b, c]" using v by (auto simp: map_eq_Cons_conv)
  have l: "live a = []" "map m_inode (live b) = [7, 9]" "live c = []" "conf b = 0" "conf c = 0"
      "dir a = act_dir" "dir b = in_dir" "dir c = df_dir @ ''00h01m00s''"
    using v by (simp_all add: q)
  have at: "q_at st 0 = a" "q_at st 1 = b" "q_at st 2 = c" by (simp_all add: q_at_def q)
  have cq: "qm_countq st = 2" using v by simp
  have "qm_reach st" using qm_reach.start [OF demo_env_ok is_qsort_timeout] st unfolding demo_two_def by blast
  then have inv: "qm_inv st" using qm_reach_inv by blast
  have s3: "{0..2 :: int} = {0, 1, 2}" "{1..2 :: int} = {1, 2}" by auto
  have m: "m_inode ` set (live b) = {7, 9}" using l(2) by (metis list.set_map set_simps(1,2))
  have files: "qm_fs st (mk_path in_dir (fmt_ld (m_inode x))) \<noteq> None \<and> qm_fs st (mk_path act_dir (fmt_ld (m_inode x))) = None"
    if "x \<in> set (live b)" for x
  proof -
    have "m_inode x \<in> {7, 9}" using m that by blast
    then show ?thesis using v by (auto simp: fmt_7 fmt_9)
  qed
  have "flushable st"
    using inv l at cq files in_dirs by (simp add: flushable_def ACT_def s3 fmt_7 fmt_9)
  moreover have "backlog (nat (qm_countq st)) st = [7, 9]" using cq at l by (simp add: numeral_2_eq_2)
  ultimately show ?thesis using that st cq by blast
qed

theorem flush_queue_drains_witness:
  "\<exists>st st'. qm_reach st \<and> Quemngr.flush_queue demo_env [[(7, 1), (7, 0)], [(9, 1), (9, 0)]] st = Some (Inr (2, [], st'))
    \<and> live (q_at st' IN) = [] \<and> qm_pipe st' = qm_pipe st @ [7, 9]"
proof -
  obtain st where st: "demo_two = Inr st" "flushable st" "backlog (nat (qm_countq st)) st = [7, 9]" "qm_countq st = 2"
    by (rule demo_two_flushable)
  have r: "qm_reach st" using qm_reach.start [OF demo_env_ok is_qsort_timeout] st(1) unfolding demo_two_def by blast
  have p: "q_pipe_ok demo_env" by (simp add: demo_env_def)
  from flush_queue_drains [OF st(2) demo_disk p st(3) [symmetric]] obtain st' where
    "Quemngr.flush_queue demo_env (answered [7, 9]) st = Some (Inr (2, [], st'))"
    "\<forall>q. 1 \<le> q \<and> q \<le> 2 \<longrightarrow> live (q_at st' q) = []" "qm_pipe st' = qm_pipe st @ [7, 9]" using st(4) by auto
  then show ?thesis using r by (intro exI [of _ st] exI [of _ st']) (simp add: answered_def IN_def)
qed

end
