(* ===== verification/QuemngrInput.thy ===== *)
theory QuemngrInput
  imports QuemngrFlush
begin

text \<open>
  How the queue manager of \<open>src/quemngr/quemngr.c\<close> reads what the child process writes: the loop
  around \<open>fscanf\<close> with the format \<open>%ld %d %[^\n]\<close>, on the text that is in the pipe.  The end of the text is the end
  of file and the answer \<open>EAGAIN\<close> of the pipe, which does not block.
\<close>

section \<open>Scanning\<close>

definition DESCMAX :: nat where "DESCMAX = 255"

definition skip_blank :: "string \<Rightarrow> string" where
  "skip_blank str = dropWhile (\<lambda>c. c \<in> set [CHR '' '', CHR 0x09, CHR 0x0A, CHR 0x0B, CHR 0x0C, CHR 0x0D]) str"

text \<open>
  A conversion to an integer: the input is at its end, the next character does not fit and is put
  back, or there is a number.  A sign that no digit follows is gone.
\<close>

datatype scan = ScanEnd | ScanFail string | ScanInt int string

definition scan_int :: "string \<Rightarrow> scan" where
  "scan_int str =
     (case skip_blank str of
        [] \<Rightarrow> ScanEnd
      | c # cs \<Rightarrow>
          let body = (if c = CHR ''-'' \<or> c = CHR ''+'' then cs else c # cs);
              ds = takeWhile is_digit body
          in if ds = [] then ScanFail body
             else ScanInt (if c = CHR ''-'' then - digits 0 ds else digits 0 ds) (drop (length ds) body))"

text \<open>The number as a \<open>long\<close>, which \<open>strtol\<close> cuts at its bounds, and as an \<open>int\<close>, which is cut from that \<open>long\<close>.\<close>

definition to_long :: "int \<Rightarrow> int" where
  "to_long v = max (- (2 ^ 63)) (min (2 ^ 63 - 1) v)"

definition to_int :: "int \<Rightarrow> int" where
  "to_int v = signed_take_bit 31 (to_long v)"

text \<open>
  One call of \<open>fscanf\<close> on the variables \<open>retinode\<close> and \<open>code\<close>: \<open>None\<close> is the result \<open>EOF\<close>, otherwise the
  variables and the rest of the text.  The description has no bound but the array it is stored in.
\<close>

definition scan_response :: "ino_t \<times> int \<Rightarrow> string \<Rightarrow> ((ino_t \<times> int) \<times> string) option res" where
  "scan_response v str =
     (case scan_int str of
        ScanEnd \<Rightarrow> Inr None
      | ScanFail rest \<Rightarrow> Inr (Some (v, rest))
      | ScanInt i rest \<Rightarrow>
          let v = (word_of_int (to_long i), snd v) in
          (case scan_int rest of
             ScanEnd \<Rightarrow> Inr (Some (v, []))
           | ScanFail rest \<Rightarrow> Inr (Some (v, rest))
           | ScanInt c rest \<Rightarrow>
               let v = (fst v, to_int c);
                   rest = skip_blank rest;
                   description = takeWhile (\<lambda>c. c \<noteq> CHR 0x0A) rest
               in if length description < DESCMAX
                  then Inr (Some (v, drop (length description) rest)) else Inl OutOfBounds))"

text \<open>The loop; \<open>fuel\<close> bounds the number of calls of \<open>fscanf\<close>, and \<open>None\<close> means that it is still running.\<close>

fun response_loop :: "nat \<Rightarrow> qenv \<Rightarrow> ino_t \<times> int \<Rightarrow> string \<Rightarrow> int \<Rightarrow> qm \<Rightarrow> (int \<times> qm) res option" where
  "response_loop 0 env v str n st = None"
| "response_loop (Suc fuel) env v str n st =
     (case scan_response v str of
        Inl e \<Rightarrow> Some (Inl e)
      | Inr None \<Rightarrow> Some (Inr (n, st))
      | Inr (Some (v, rest)) \<Rightarrow>
          (case check_response env (fst v) (snd v) st of
             Inl e \<Rightarrow> Some (Inl e)
           | Inr (r, st) \<Rightarrow> response_loop fuel env v rest (if r > 0 then n + 1 else n) st))"

section \<open>Lines of the child\<close>

text \<open>The conversion \<open>%d\<close>, and a response as the child writes it.\<close>

definition fmt_d :: "int \<Rightarrow> string" where
  "fmt_d v = (if v < 0 then CHR ''-'' # dec_int (- v) else dec_int v)"

record response =
  r_inode :: ino_t
  r_code :: int
  r_desc :: string

definition response_line :: "response \<Rightarrow> string" where
  "response_line r = fmt_ld (r_inode r) @ '' '' @ fmt_d (r_code r) @ '' '' @ r_desc r @ [CHR 0x0A]"

definition is_blank :: "char \<Rightarrow> bool" where
  "is_blank c \<longleftrightarrow> c \<in> set [CHR '' '', CHR 0x09, CHR 0x0A, CHR 0x0B, CHR 0x0C, CHR 0x0D]"

definition response_ok :: "response \<Rightarrow> bool" where
  "response_ok r \<longleftrightarrow> - (2 ^ 31) \<le> r_code r \<and> r_code r < 2 ^ 31 \<and> r_desc r \<noteq> [] \<and> \<not> is_blank (hd (r_desc r))
     \<and> CHR 0x0A \<notin> set (r_desc r) \<and> length (r_desc r) < DESCMAX"

lemma skip_blank_pre: "\<forall>c \<in> set pre. is_blank c \<Longrightarrow> skip_blank (pre @ str) = skip_blank str"
  by (induction pre) (auto simp: skip_blank_def is_blank_def)

lemma skip_blank_stop: "str \<noteq> [] \<Longrightarrow> \<not> is_blank (hd str) \<Longrightarrow> skip_blank (str @ rest) = str @ rest"
  by (cases str) (auto simp: skip_blank_def is_blank_def)

text \<open>A printed number is read back.\<close>

definition signed_dec :: "int \<Rightarrow> string" where
  "signed_dec v = (if v < 0 then CHR ''-'' # dec (nat (- v)) else dec (nat v))"

lemma fmt_signed: "fmt_ld ino = signed_dec (sint ino)" "fmt_d v = signed_dec v"
  using dec_int [of "nat v"] dec_int [of "nat (- v)"] by (auto simp: fmt_ld_def fmt_d_def signed_dec_def)

lemma scan_signed_dec:
  assumes pre: "\<forall>c \<in> set pre. is_blank c" and rest: "rest \<noteq> []" "\<not> is_digit (hd rest)"
  shows "scan_int (pre @ signed_dec v @ rest) = ScanInt v rest"
proof -
  let ?ds = "dec (nat \<bar>v\<bar>)"
  obtain d ds where d: "?ds = d # ds" using dec_not_nil by (cases ?ds) auto
  have dig: "\<forall>c \<in> set ?ds. is_digit c" by (rule dec_digits)
  then have nb: "d \<notin> set [CHR '' '', CHR 0x09, CHR 0x0A, CHR 0x0B, CHR 0x0C, CHR 0x0D, CHR ''-'', CHR ''+'']"
    using digit_not_blank [of d] d by simp
  have take: "takeWhile is_digit (?ds @ rest) = ?ds" using dig rest by (cases rest) (simp_all add: takeWhile_append2)
  have val: "digits 0 ?ds = \<bar>v\<bar>" by (simp add: digits_dec)
  have skip: "skip_blank (pre @ signed_dec v @ rest) = signed_dec v @ rest"
    unfolding skip_blank_pre [OF pre] using nb d
    by (intro skip_blank_stop) (auto simp: signed_dec_def is_blank_def)
  show ?thesis
  proof (cases "v < 0")
    case True
    then have "signed_dec v = CHR ''-'' # ?ds" by (simp add: signed_dec_def)
    then show ?thesis unfolding scan_int_def skip using True take val d by (simp add: Let_def)
  next
    case False
    then have "signed_dec v = ?ds" by (simp add: signed_dec_def)
    then show ?thesis unfolding scan_int_def skip using False take val d nb by (simp add: Let_def)
  qed
qed

lemma to_long_sint: "to_long (sint (w :: ino_t)) = sint w"
  using sint_lt [of w] sint_ge [of w] by (simp add: to_long_def)

lemma to_int_id: "- (2 ^ 31) \<le> c \<Longrightarrow> c < 2 ^ 31 \<Longrightarrow> to_int c = c"
  by (simp add: to_int_def to_long_def signed_take_bit_int_eq_self)

lemma scan_response_head:
  assumes pre: "\<forall>c \<in> set pre. is_blank c" and code: "- (2 ^ 31) \<le> code" "code < 2 ^ 31"
    and tail: "tail \<noteq> []" "\<not> is_digit (hd tail)" "skip_blank tail = desc @ CHR 0x0A # after"
    and desc: "CHR 0x0A \<notin> set desc" "length desc < DESCMAX"
  shows "scan_response v (pre @ fmt_ld ino @ '' '' @ fmt_d code @ tail) = Inr (Some ((ino, code), CHR 0x0A # after))"
proof -
  have nd: "\<not> is_digit (CHR '' '')" by (simp add: is_digit_def)
  have 1: "scan_int (pre @ fmt_ld ino @ '' '' @ fmt_d code @ tail) = ScanInt (sint ino) ('' '' @ fmt_d code @ tail)"
    using scan_signed_dec [OF pre, of "'' '' @ fmt_d code @ tail"] nd by (simp add: fmt_signed)
  have 2: "scan_int ('' '' @ fmt_d code @ tail) = ScanInt code tail"
    using scan_signed_dec [of "'' ''" tail code] tail by (simp add: fmt_signed is_blank_def)
  have 3: "takeWhile (\<lambda>c. c \<noteq> CHR 0x0A) (desc @ CHR 0x0A # after) = desc"
    using desc(1) by (subst takeWhile_append2) auto
  show ?thesis unfolding scan_response_def 1 scan.case Let_def 2 tail(3) 3 to_long_sint to_int_id [OF code] using desc(2) by simp
qed


lemma scan_response_end: "\<forall>c \<in> set pre. is_blank c \<Longrightarrow> scan_response v pre = Inr None"
  using skip_blank_pre [of pre "[]"] skip_blank_def [of "[]"] by (simp add: scan_response_def scan_int_def)


section \<open>Properties\<close>





text \<open>
  A response without a description: the blank in the format skips the end of its line, and the
  whole next line is taken for the description.
\<close>

lemma empty_description_swallows_next:
  assumes r: "- (2 ^ 31) \<le> r_code r" "r_code r < 2 ^ 31" "r_desc r = []"
    and r': "response_ok r'" "length (response_line r') \<le> DESCMAX"
  shows "response_loop 2 env v (response_line r @ response_line r') n st = Some (read_responses env [(r_inode r, r_code r)] n st)"
proof -
  let ?tail = "[CHR '' '', CHR 0x0A] @ response_line r'"
  define desc where "desc = fmt_ld (r_inode r') @ '' '' @ fmt_d (r_code r') @ '' '' @ r_desc r'"
  have line: "response_line r' = desc @ [CHR 0x0A]" by (simp add: response_line_def desc_def)
  have len: "length desc < DESCMAX" using r'(2) line by simp
  have dig: "c \<noteq> CHR 0x0A \<and> \<not> is_blank c" if "c \<in> set (signed_dec i)" for c i
    using that dec_digits [of "nat i"] dec_digits [of "nat (- i)"] digit_not_blank [of c]
    by (auto simp: signed_dec_def is_blank_def split: if_splits)
  have hd: "signed_dec i \<noteq> []" for i using dec_not_nil by (simp add: signed_dec_def)
  have nl: "CHR 0x0A \<notin> set desc" using r'(1) dig by (auto simp: desc_def fmt_signed response_ok_def)
  have "\<not> is_blank (hd desc)" "desc \<noteq> []" using dig [of "hd desc" "sint (r_inode r')"] hd by (auto simp: desc_def fmt_signed)
  then have "skip_blank ?tail = desc @ CHR 0x0A # []"
    using skip_blank_pre [of "[CHR '' '', CHR 0x0A]"] skip_blank_stop [of desc "[CHR 0x0A]"] by (simp add: line is_blank_def)
  then have "scan_response v (response_line r @ response_line r') = Inr (Some ((r_inode r, r_code r), [CHR 0x0A]))"
    using scan_response_head [of "[]" "r_code r" ?tail desc "[]" v "r_inode r"] r nl len
    by (simp add: response_line_def [of r] is_digit_def)
  moreover have "scan_response w [CHR 0x0A] = Inr None" for w by (rule scan_response_end) (simp add: is_blank_def)
  ultimately show ?thesis by (simp add: numeral_2_eq_2 split: sum.splits)
qed

text \<open>The options \<open>-w\<close> and \<open>-t\<close> are needed; with them the program starts as \<open>quemngr_start\<close> describes.\<close>

lemma quemngr_main_start:
  "quemngr_main env se sortq w rd d fs opts = Inr st \<Longrightarrow> quemngr_start env se sortq w rd d fs = Inr st"
  by (auto simp: quemngr_main_def quemngr_start_def Let_def elim!: res_bindE split: if_splits)

end
