(* ===== verification/Logging.thy ===== *)
theory Logging
  imports Utils
begin

text \<open>
  The log messages of \<open>logging.c\<close>, the same file in \<open>src/quemngr\<close>, \<open>src/iecproxy\<close> and
  \<open>src/sockwrite\<close>: a line is put together in a buffer of fixed size by three calls of the
  \<open>snprintf\<close> family, each at the end of what the buffer holds.
\<close>

section \<open>The message\<close>

definition MSGMAX :: nat where "MSGMAX = 4096"
definition LOG_ERR :: int where "LOG_ERR = 3"
definition HOST_NAME_MAX :: nat where "HOST_NAME_MAX = 64"

record tm =
  tm_mon :: nat
  tm_mday :: nat
  tm_hour :: nat
  tm_min :: nat
  tm_sec :: nat

text \<open>
  The global variables and what the library calls answer: \<open>le_host\<close> is the array that \<open>gethostname\<close> leaves,
  of \<open>HOST_NAME_MAX\<close> characters, \<open>le_tm\<close> what \<open>localtime\<close> points to, \<open>le_log\<close> what has been
  written to \<open>logstream\<close> unless that is a null pointer.  The other strings are C strings, without a
  null character.
\<close>

record logenv =
  le_daemon_proc :: bool
  le_progname :: string
  le_log :: "string option"
  le_tm :: "tm option"
  le_host :: string
  le_pid :: nat
  le_strerror :: string

definition monthnames :: "string list" where
  "monthnames = [''Jan'', ''Feb'', ''Mar'', ''Apr'', ''May'', ''Jun'', ''Jul'', ''Aug'', ''Sep'', ''Oct'', ''Nov'', ''Dec'']"

text \<open>\<open>%02d\<close> and \<open>%2.2d\<close>: at least two digits.\<close>

definition fmt_2d :: "nat \<Rightarrow> string" where
  "fmt_2d n = (if n < 10 then CHR ''0'' # dec n else dec n)"

text \<open>\<open>snprintf\<close> of the text \<open>s\<close> into \<open>m\<close> characters leaves this string there.\<close>

definition snprintf :: "nat \<Rightarrow> string \<Rightarrow> string" where
  "snprintf m s = take (m - 1) s"

text \<open>A C string read from an array of characters.\<close>

definition array_str :: "string \<Rightarrow> string res" where
  "array_str arr = (if CHR 0x00 \<in> set arr then Inr (cstr arr) else Inl OutOfBounds)"

definition log_time :: "tm option \<Rightarrow> string res" where
  "log_time t =
     (case t of
        None \<Rightarrow> Inl NullDeref
      | Some t \<Rightarrow>
          if tm_mon t < length monthnames
          then Inr (snprintf 32 (monthnames ! tm_mon t @ '' '' @ fmt_2d (tm_mday t) @ '' '' @ fmt_2d (tm_hour t)
            @ '':'' @ fmt_2d (tm_min t) @ '':'' @ fmt_2d (tm_sec t)))
          else Inl OutOfBounds)"

definition log_head :: "logenv \<Rightarrow> string \<Rightarrow> string \<Rightarrow> nat \<Rightarrow> string res" where
  "log_head env file func line =
     (if le_daemon_proc env then
        res_bind (log_time (le_tm env)) (\<lambda>time. res_bind (array_str (le_host env)) (\<lambda>hostname.
          Inr (snprintf MSGMAX (time @ '' '' @ hostname @ '' '' @ le_progname env @ ''['' @ dec (le_pid env) @ '']: ''))))
      else Inr (snprintf MSGMAX (''[ file: '' @ file @ '', func: '' @ func @ '', line: '' @ dec line @ '' ] '')))"

text \<open>The text \<open>body\<close> is the one that \<open>vsnprintf\<close> makes of the format and its arguments.\<close>

definition logmsg :: "string \<Rightarrow> string \<Rightarrow> nat \<Rightarrow> bool \<Rightarrow> int \<Rightarrow> string \<Rightarrow> logenv \<Rightarrow> logenv res" where
  "logmsg file func line errnoflag level body env =
     res_bind (log_head env file func line) (\<lambda>buf.
       let n = length buf;
           buf = buf @ snprintf (MSGMAX - n) body;
           buf = (if errnoflag
                  then (let n = length buf in buf @ snprintf (MSGMAX - n) ('' ('' @ le_strerror env @ '')''))
                  else buf)
       in case le_log env of
            None \<Rightarrow> Inl NullDeref
          | Some out \<Rightarrow> Inr (env\<lparr>le_log := Some (out @ buf @ [CHR 0x0A])\<rparr>))"

text \<open>The macros of \<open>logging.h\<close> log and leave the process.\<close>

definition ERR_QUIT :: "string \<Rightarrow> string \<Rightarrow> nat \<Rightarrow> string \<Rightarrow> logenv \<Rightarrow> 'a res" where
  "ERR_QUIT file func line body env = res_bind (logmsg file func line False LOG_ERR body env) (\<lambda>env. Inl (Exit 2))"

definition ERR_SYS :: "string \<Rightarrow> string \<Rightarrow> nat \<Rightarrow> string \<Rightarrow> logenv \<Rightarrow> 'a res" where
  "ERR_SYS file func line body env = res_bind (logmsg file func line True LOG_ERR body env) (\<lambda>env. Inl (Exit 2))"

section \<open>Appending with truncation\<close>

lemma snprintf_append: "length buf < m \<Longrightarrow> buf @ snprintf (m - length buf) s = snprintf m (buf @ s)"
  by (simp add: snprintf_def)

lemma snprintf_snprintf: "snprintf m (snprintf m a @ b) = snprintf m (a @ b)"
  by (cases "length a \<le> m - 1") (simp_all add: snprintf_def)

lemma length_snprintf: "0 < m \<Longrightarrow> length (snprintf m s) < m"
  by (simp add: snprintf_def)

text \<open>What the head of a line says when it is not cut off.\<close>

definition head_text :: "logenv \<Rightarrow> string \<Rightarrow> string \<Rightarrow> nat \<Rightarrow> string" where
  "head_text env file func line =
     (if le_daemon_proc env then
        (let t = the (le_tm env)
         in monthnames ! tm_mon t @ '' '' @ fmt_2d (tm_mday t) @ '' '' @ fmt_2d (tm_hour t) @ '':'' @ fmt_2d (tm_min t)
              @ '':'' @ fmt_2d (tm_sec t) @ '' '' @ cstr (le_host env) @ '' '' @ le_progname env @ ''['' @ dec (le_pid env) @ '']: '')
      else ''[ file: '' @ file @ '', func: '' @ func @ '', line: '' @ dec line @ '' ] '')"

text \<open>The time is a calendar time and the host name is terminated in its array.\<close>

definition log_ready :: "logenv \<Rightarrow> bool" where
  "log_ready env \<longleftrightarrow> CHR 0x00 \<in> set (le_host env) \<and>
     (case le_tm env of
        None \<Rightarrow> False
      | Some t \<Rightarrow> tm_mon t < 12 \<and> tm_mday t < 100 \<and> tm_hour t < 100 \<and> tm_min t < 100 \<and> tm_sec t < 100)"

lemma length_fmt_2d: "n < 100 \<Longrightarrow> length (fmt_2d n) = 2"
  using div_less_iff_less_mult [of 10 n 10]
  by (cases "n < 10") (simp_all add: fmt_2d_def dec.simps [of n] dec.simps [of "n div 10"])

lemma length_month: "m < 12 \<Longrightarrow> length (monthnames ! m) = 3"
proof -
  assume "m < 12"
  then have "monthnames ! m \<in> set monthnames" by (intro nth_mem) (simp add: monthnames_def)
  moreover have "\<forall>s \<in> set monthnames. length s = 3" by (simp add: monthnames_def)
  ultimately show ?thesis by blast
qed

lemma log_head_text:
  assumes "log_ready env"
  shows "log_head env file func line = Inr (snprintf MSGMAX (head_text env file func line))"
proof (cases "le_daemon_proc env")
  case True
  obtain t where t: "le_tm env = Some t" "tm_mon t < 12" "tm_mday t < 100" "tm_hour t < 100" "tm_min t < 100" "tm_sec t < 100"
    using assms by (auto simp: log_ready_def split: option.splits)
  let ?time = "monthnames ! tm_mon t @ '' '' @ fmt_2d (tm_mday t) @ '' '' @ fmt_2d (tm_hour t)
            @ '':'' @ fmt_2d (tm_min t) @ '':'' @ fmt_2d (tm_sec t)"
  have "length ?time \<le> 31" using t by (simp add: length_month length_fmt_2d)
  then have "snprintf 32 ?time = ?time" by (simp only: snprintf_def) simp
  then have "log_time (le_tm env) = Inr ?time" using t by (simp add: log_time_def monthnames_def)
  then show ?thesis using True t assms
    by (simp add: log_head_def head_text_def array_str_def log_ready_def)
qed (simp add: log_head_def head_text_def)

section \<open>Properties\<close>

text \<open>
  C39. A log line is the whole text, head, message and error text, cut off once after 4095
  characters, and a newline: the three bounded writes at the end of the buffer are one bounded write
  of the concatenation, and none of them leaves the buffer.
\<close>

theorem logmsg_truncates_once:
  assumes "log_ready env" and "le_log env = Some out"
  shows "logmsg file func line errnoflag level body env =
      Inr (env\<lparr>le_log := Some (out @ take 4095 (head_text env file func line @ body
        @ (if errnoflag then '' ('' @ le_strerror env @ '')'' else [])) @ [CHR 0x0A])\<rparr>)"
proof -
  have len: "length (snprintf MSGMAX s) < MSGMAX" for s by (rule length_snprintf) (simp add: MSGMAX_def)
  have app: "snprintf MSGMAX a @ snprintf (MSGMAX - length (snprintf MSGMAX a)) b = snprintf MSGMAX (a @ b)" for a b
    by (simp only: snprintf_append [OF len] snprintf_snprintf)
  have "snprintf MSGMAX s = take 4095 s" for s by (simp add: snprintf_def MSGMAX_def)
  then show ?thesis
    unfolding logmsg_def log_head_text [OF assms(1)] res_bind_simps Let_def app assms(2) by simp
qed

definition demo_log :: logenv where
  "demo_log = \<lparr>le_daemon_proc = True, le_progname = ''q'', le_log = Some [],
     le_tm = Some \<lparr>tm_mon = 1, tm_mday = 7, tm_hour = 12, tm_min = 0, tm_sec = 9\<rparr>, le_host = ''h'' @ [CHR 0x00],
     le_pid = 3, le_strerror = ''E''\<rparr>"

theorem logmsg_truncates_once_witness:
  "logmsg ''f'' ''g'' 1 True 3 ''m'' demo_log = Inr (demo_log\<lparr>le_log := Some (''Feb 07 12:00:09 h q[3]: m (E)'' @ [CHR 0x0A])\<rparr>)"
  using logmsg_truncates_once [of demo_log "[]" "''f''" "''g''" 1 True 3 "''m''"]
  by (simp add: demo_log_def log_ready_def head_text_def monthnames_def fmt_2d_def cstr_def dec.simps char_of_def bit_0)

end
