(* ===== verification/Iec104Types.thy ===== *)
theory Iec104Types
  imports Prelude
begin

text \<open>
  The data declarations of \<open>src/ieclink/iec104_types.h\<close>: information objects, the time stamp and the
  header of an ASDU, as records, and their representation in memory.  A structure is the
  sequence of its fields, bit fields packed from the lowest bit, numbers with the lowest octet first.
  The bits \<open>st1\<close> to \<open>st16\<close> and \<open>cd1\<close> to \<open>cd16\<close> are kept as the numbers that the empty arrays \<open>st\<close> and \<open>cd\<close> in
  front of them name; a \<open>float\<close> is kept as its 32 bits.

  The attribute \<open>packed\<close> of \<open>cp56time2a\<close> stands behind the name the \<open>typedef\<close> declares.  There the compiler
  ignores it, and the structure is rounded up to the alignment of its first field: its last
  octet, \<open>cp_pad\<close>, is padding.
\<close>

section \<open>Packed structures\<close>

definition fbits :: "'a::len word \<Rightarrow> bool list" where
  "fbits w = map (bit w) [0..<LENGTH('a)]"

definition get :: "bool list \<Rightarrow> 'a::len word \<times> bool list" where
  "get bs = (horner_sum of_bool 2 (take LENGTH('a) bs), drop LENGTH('a) bs)"


text \<open>The octets of a structure of whole octets, and the bits of a sequence of octets.\<close>

fun to_octets :: "bool list \<Rightarrow> u8 list" where
  "to_octets bs = (if length bs < 8 then [] else fst (get bs) # to_octets (drop 8 bs))"

declare to_octets.simps [simp del]

definition of_octets :: "u8 list \<Rightarrow> bool list" where
  "of_octets xs = concat (map fbits xs)"

lemma length_fbits: "length (fbits (w :: 'a::len word)) = LENGTH('a)"
  by (simp add: fbits_def)

lemma get_fbits: "get (fbits (w :: 'a::len word) @ r) = (w, r)"
  by (simp add: get_def length_fbits) (simp add: fbits_def horner_sum_bit_eq_take_bit)

lemma fbits_get:
  assumes "LENGTH('a::len) \<le> length bs"
  shows "fbits (fst (get bs) :: 'a word) = take LENGTH('a) bs"
  using assms by (intro nth_equalityI) (simp_all add: fbits_def get_def bit_horner_sum_bit_word_iff)

lemma of_to_octets: "8 dvd length bs \<Longrightarrow> of_octets (to_octets bs @ r) = bs @ of_octets r"
proof (induction bs rule: to_octets.induct)
  case (1 bs)
  show ?case
  proof (cases "length bs < 8")
    case True
    then have "bs = []" using "1.prems" by (auto dest: dvd_imp_le)
    then show ?thesis by (simp add: to_octets.simps of_octets_def)
  next
    case False
    then have "8 dvd length (drop 8 bs)" using "1.prems" by (simp add: dvd_diff_nat)
    then have "of_octets (to_octets (drop 8 bs) @ r) = drop 8 bs @ of_octets r" using "1.IH" False by blast
    moreover have "fbits (fst (get bs) :: u8) = take 8 bs" using fbits_get [of bs, where 'a = 8] False by simp
    ultimately show ?thesis using False by (subst to_octets.simps) (simp add: of_octets_def)
  qed
qed

lemma length_to_octets: "length (to_octets bs) = length bs div 8"
  by (induction bs rule: to_octets.induct) (subst to_octets.simps, simp add: le_div_geq)

text \<open>
  What a structure with \<open>n\<close> bits promises: writing and reading back gives the same value, and
  every sequence of \<open>n\<close> bits is the representation of one.
\<close>

primrec dec_many :: "(bool list \<Rightarrow> 'a \<times> bool list) \<Rightarrow> nat \<Rightarrow> bool list \<Rightarrow> 'a list \<times> bool list" where
  "dec_many dec 0 bs = ([], bs)"
| "dec_many dec (Suc k) bs = (let (x, bs) = dec bs; (xs, bs) = dec_many dec k bs in (x # xs, bs))"

locale packed_struct =
  fixes enc :: "'a \<Rightarrow> bool list" and dec :: "bool list \<Rightarrow> 'a \<times> bool list" and n :: nat
  assumes dec_enc: "dec (enc x @ r) = (x, r)"
    and length_enc: "length (enc x) = n"
    and enc_dec: "n \<le> length bs \<Longrightarrow> enc (fst (dec bs)) = take n bs"
    and dec_rest: "n \<le> length bs \<Longrightarrow> snd (dec bs) = drop n bs"
begin

lemma enc_inject: "enc x = enc y \<Longrightarrow> x = y"
  by (metis dec_enc prod.inject)

lemma read_sequence: "dec_many dec (length xs) (concat (map enc xs) @ r) = (xs, r)"
  by (induction xs) (simp_all add: dec_enc)

lemma read_octets: "8 dvd n \<Longrightarrow> dec (of_octets (to_octets (enc x) @ r)) = (x, of_octets r)"
  using of_to_octets [of "enc x" r] by (simp add: length_enc dec_enc)

lemma union_member:
  assumes "n \<le> 104"
  shows "fst (dec (fbits (fst (get (enc x @ drop (length (enc x)) (fbits (w :: 104 word)))) :: 104 word))) = x"
proof -
  let ?bs = "enc x @ drop (length (enc x)) (fbits w)"
  have "length ?bs = 104" using assms by (simp add: length_enc length_fbits)
  then have "fbits (fst (get ?bs) :: 104 word) = ?bs" using fbits_get [of ?bs, where 'a = 104] by simp
  then show ?thesis by (simp add: dec_enc)
qed

lemma sizeof_octets: "length (to_octets (enc x)) = n div 8"
  by (simp add: length_to_octets length_enc)

lemma length_sequence: "length (concat (map enc xs)) = n * length xs"
  by (induction xs) (simp_all add: length_enc)

end

interpretation field: packed_struct "fbits :: 'a::len word \<Rightarrow> bool list" "get :: bool list \<Rightarrow> 'a word \<times> bool list" "LENGTH('a)"
  by unfold_locales (simp_all add: get_fbits length_fbits fbits_get, simp add: get_def)



section \<open>The structures\<close>













































section \<open>Layout\<close>
















section \<open>Properties\<close>






end
