(* ===== verification/IecProxy.thy ===== *)
theory IecProxy
  imports Prelude
begin

text \<open>
  The proxy of \<open>src/iecproxy/iecproxy.c\<close> between the link client, whose output it reads line by line,
  and the programs that hand it messages over a local socket (\<open>sockwrite\<close>).  The poll set has three
  places: the pipe from the link, the listening socket and the one connected client.  What a
  descriptor gives when it is read is an argument; what is written, closed and run is recorded in
  the state.  The buffer is used only between a read and the next one and is no part of the state.
\<close>

section \<open>Constants and state\<close>

definition BUF_SIZE :: nat where "BUF_SIZE = 512"
definition END_INIT :: string where "END_INIT = ''46010400000000000000''"
definition GI_ACT :: string where "GI_ACT = ''64010600FFFF00000014''"
definition GI_CON :: string where "GI_CON = ''64010700FFFF00000014''"
definition GI_END :: string where "GI_END = ''64010A00FFFF00000014''"
definition EOL :: string where "EOL = [CHR 0x0A]"

record px =
  px_fd1 :: int
  px_fd2 :: int
  px_ev2 :: bool
  px_new_connect :: bool
  px_new_sockfd :: int
  px_sock :: bool
  px_link :: string
  px_clients :: "(int \<times> char) list"
  px_closed :: "int list"
  px_hooks :: "string list"
  px_childpid :: int
  px_kills :: "string list"

text \<open>Answers of the operating system, the output of the interrogation script and \<open>PID_NOTIFY\<close>.\<close>

record pxenv =
  pe_socket :: int
  pe_unlink :: int
  pe_enoent :: bool
  pe_bind :: int
  pe_listen :: int
  pe_popen :: bool
  pe_script :: string
  pe_link_ok :: bool
  pe_notify :: "string option"

section \<open>Reading a line\<close>

datatype rd = Byte char | Eof | Eintr | RdErr

text \<open>The loop of \<open>readline\<close>; \<open>None\<close> when it still waits for a character.\<close>

fun readline_from :: "nat \<Rightarrow> nat \<Rightarrow> rd list \<Rightarrow> string \<Rightarrow> (int \<times> string) option" where
  "readline_from n maxlen input ptr =
     (if n < maxlen then
        (case input of
           [] \<Rightarrow> None
         | Byte c # rest \<Rightarrow>
             if c = CHR 0x0A then Some (int n, ptr @ [c]) else readline_from (n + 1) maxlen rest (ptr @ [c])
         | Eof # rest \<Rightarrow> if n = 1 then Some (0, ptr) else Some (int n, ptr)
         | Eintr # rest \<Rightarrow> readline_from n maxlen rest ptr
         | RdErr # rest \<Rightarrow> Some (-1, ptr))
      else Some (int n, ptr))"

definition readline :: "nat \<Rightarrow> rd list \<Rightarrow> (int \<times> string) option" where
  "readline maxlen input = readline_from 1 maxlen input []"

section \<open>Helpers\<close>

definition new_usocket :: "pxenv \<Rightarrow> px \<Rightarrow> (int \<times> px) res" where
  "new_usocket env st =
     (if pe_socket env = -1 then Inl (Exit 2)
      else if pe_unlink env = -1 \<and> \<not> pe_enoent env then Inl (Exit 2)
      else if pe_bind env = -1 then Inl (Exit 2)
      else if pe_listen env = -1 then Inl (Exit 2)
      else Inr (pe_socket env, st\<lparr>px_sock := True\<rparr>))"

text \<open>Output to the link client.\<close>

definition to_link :: "pxenv \<Rightarrow> string \<Rightarrow> px \<Rightarrow> px" where
  "to_link env str st = (if pe_link_ok env then st\<lparr>px_link := px_link st @ str\<rparr> else st)"

function gi_lines :: "pxenv \<Rightarrow> string \<Rightarrow> px \<Rightarrow> px" where
  "gi_lines env out st =
     (case fgets_n BUF_SIZE out of
        None \<Rightarrow> st
      | Some (asdu, rest) \<Rightarrow> gi_lines env rest (to_link env (cstr asdu) st))"
  by pat_completeness auto
termination
  by (relation "measure (\<lambda>(env, out, st). length out)") (auto simp: BUF_SIZE_def dest: fgets_n_shorter [rotated])

declare gi_lines.simps [simp del]

definition ginterrog :: "pxenv \<Rightarrow> px \<Rightarrow> px res" where
  "ginterrog env st = (if \<not> pe_popen env then Inl NullDeref else Inr (gi_lines env (pe_script env) st))"

definition run_hook :: "string \<Rightarrow> string option \<Rightarrow> px \<Rightarrow> px" where
  "run_hook name pid st =
     (case pid of
        None \<Rightarrow> st
      | Some p \<Rightarrow> st\<lparr>px_hooks := px_hooks st @ [take (BUF_SIZE - 1) (name @ '' '' @ p)]\<rparr>)"

definition hook_connect :: "string option \<Rightarrow> px \<Rightarrow> px" where
  "hook_connect pid st = run_hook ''hook_connect'' pid st"

definition hook_disconnect :: "string option \<Rightarrow> px \<Rightarrow> px" where
  "hook_disconnect pid st = run_hook ''hook_disconnect'' pid st"

definition px_sig_term :: "px \<Rightarrow> px res" where
  "px_sig_term st =
     (let st = (if px_childpid st > 0 then st\<lparr>px_kills := px_kills st @ [''TERM'']\<rparr> else st)
      in if px_childpid st = 0 then Inl (Exit 0) else Inr st)"

definition px_sig_chld :: "int \<Rightarrow> px \<Rightarrow> px res" where
  "px_sig_chld pid st = (if pid = px_childpid st then px_sig_term (st\<lparr>px_childpid := 0\<rparr>) else Inr st)"

section \<open>Lines from the link\<close>

definition client_close :: "px \<Rightarrow> px" where
  "client_close st = st\<lparr>px_closed := px_closed st @ [px_fd2 st], px_fd2 := -1\<rparr>"

definition client_write :: "char \<Rightarrow> px \<Rightarrow> px" where
  "client_write c st = st\<lparr>px_clients := px_clients st @ [(px_fd2 st, c)]\<rparr>"

definition on_gi_act :: "pxenv \<Rightarrow> px \<Rightarrow> px res" where
  "on_gi_act env st =
     (if px_new_connect st then
        let st = st\<lparr>px_fd1 := px_new_sockfd st\<rparr>;
            st = hook_connect (pe_notify env) st;
            st = to_link env (GI_CON @ EOL) st
        in Inr (st\<lparr>px_new_connect := False\<rparr>)
      else
        res_bind (ginterrog env (to_link env (GI_CON @ EOL) st)) (\<lambda>st.
          let st = to_link env (GI_END @ EOL) st
          in Inr (to_link env (''>'' @ EOL) st)))"

definition on_link_mark :: "pxenv \<Rightarrow> char \<Rightarrow> px \<Rightarrow> px res" where
  "on_link_mark env c st =
     (if c = CHR ''+'' then
        res_bind (new_usocket env st) (\<lambda>(fd, st). Inr (st\<lparr>px_new_sockfd := fd, px_new_connect := True\<rparr>))
      else if c = CHR ''-'' then
        let st = (if px_fd2 st > 0 then client_close (client_write c st) else st);
            st = st\<lparr>px_closed := px_closed st @ [px_fd1 st], px_fd1 := -1, px_sock := False\<rparr>
        in Inr (hook_disconnect (pe_notify env) st)
      else if c = CHR ''<'' then
        (if px_fd2 st < 0 then Inr st else Inr (client_close (client_write c st)))
      else Inr st)"

text \<open>A line of \<open>n\<close> counted characters that is not the end of initialisation.\<close>

definition link_line :: "pxenv \<Rightarrow> int \<Rightarrow> string \<Rightarrow> px \<Rightarrow> px res" where
  "link_line env n buf st =
     (if strneq GI_ACT buf (nat (n - 1)) then on_gi_act env st
      else on_link_mark env (hd (buf @ [CHR 0x00])) st)"

section \<open>Messages from a client\<close>

text \<open>What a read gives: characters, none at the end, or an error (\<open>True\<close> for a reset connection).\<close>

datatype rdc = Data string | CErr bool

text \<open>
  The loop that copies a message; it ends with the last read at the end of the data (\<open>None\<close>) or with
  an error, also when the descriptor has been closed meanwhile.
\<close>

fun client_loop :: "pxenv \<Rightarrow> rdc list \<Rightarrow> px \<Rightarrow> (bool option \<times> px) res option" where
  "client_loop env input st =
     (if px_fd2 st < 0 then Some (Inr (Some False, st))
      else case input of
        [] \<Rightarrow> None
      | CErr reset # rest \<Rightarrow> Some (Inr (Some reset, st))
      | Data buf # rest \<Rightarrow>
          if buf = [] then Some (Inr (None, st))
          else if hd buf = CHR ''^'' then
            let st = client_close (client_write (hd buf) st)
            in (case ginterrog env st of
                  Inl e \<Rightarrow> Some (Inl e)
                | Inr st \<Rightarrow> client_loop env rest (to_link env (GI_END @ EOL) st))
          else client_loop env rest (to_link env buf st))"

declare client_loop.simps [simp del]

definition on_client :: "pxenv \<Rightarrow> rdc list \<Rightarrow> px \<Rightarrow> px res option" where
  "on_client env input st =
     (case client_loop env input st of
        None \<Rightarrow> None
      | Some (Inl e) \<Rightarrow> Some (Inl e)
      | Some (Inr (err, st)) \<Rightarrow>
          let st = (if err = Some True then client_close st else st);
              st = to_link env (''>'' @ EOL) st
          in Some (Inr (st\<lparr>px_ev2 := False\<rparr>)))"

section \<open>One turn\<close>

text \<open>
  What \<open>poll\<close> returned and found readable: the pipe from the link, the listening socket with the
  descriptor that \<open>accept\<close> returns, the client.
\<close>

record px_poll =
  pp_nready :: int
  pp_in0 :: "rd list option"
  pp_in1 :: "int option"
  pp_in2 :: "rdc list option"

definition turn_client :: "pxenv \<Rightarrow> px_poll \<Rightarrow> px \<Rightarrow> px res option" where
  "turn_client env p st = (case pp_in2 p of None \<Rightarrow> Some (Inr st) | Some input \<Rightarrow> on_client env input st)"

definition turn_accept :: "pxenv \<Rightarrow> px_poll \<Rightarrow> int \<Rightarrow> px \<Rightarrow> px res option" where
  "turn_accept env p nready st =
     (case pp_in1 p of
        None \<Rightarrow> turn_client env p st
      | Some fd \<Rightarrow>
          let st = st\<lparr>px_fd2 := fd, px_ev2 := True\<rparr>
          in if nready - 1 \<le> 0 then Some (Inr st) else turn_client env p st)"

definition proxy_turn :: "pxenv \<Rightarrow> px_poll \<Rightarrow> px \<Rightarrow> px res option" where
  "proxy_turn env p st =
     (case pp_in0 p of
        None \<Rightarrow> turn_accept env p (pp_nready p) st
      | Some input \<Rightarrow>
          (case readline BUF_SIZE input of
             None \<Rightarrow> None
           | Some (n, buf) \<Rightarrow>
               if n > 0 \<and> strneq END_INIT buf 8 then Some (Inr st)
               else
                 (case (if n > 0 then link_line env n buf st else Inr st) of
                    Inl e \<Rightarrow> Some (Inl e)
                  | Inr st \<Rightarrow>
                      if pp_nready p - 1 \<le> 0 then Some (Inr st)
                      else turn_accept env p (pp_nready p - 1) st)))"

section \<open>Start of the program\<close>

record px_opts =
  po_unixsock :: "string option"
  po_iecserver :: "string option"
  po_iecport :: "string option"
  po_ieclink :: "string option"
  po_gi_script :: "string option"
  po_logdir :: "string option"

fun px_opt :: "px_opts \<Rightarrow> char \<times> string \<Rightarrow> px_opts" where
  "px_opt o1 (c, arg) =
     (if c = CHR ''u'' then o1\<lparr>po_unixsock := Some arg\<rparr>
      else if c = CHR ''s'' then o1\<lparr>po_iecserver := Some arg\<rparr>
      else if c = CHR ''p'' then o1\<lparr>po_iecport := Some arg\<rparr>
      else if c = CHR ''c'' then o1\<lparr>po_ieclink := Some arg\<rparr>
      else if c = CHR ''g'' then o1\<lparr>po_gi_script := Some arg\<rparr>
      else if c = CHR ''l'' then o1\<lparr>po_logdir := Some arg\<rparr>
      else o1)"

definition px_init :: "int \<Rightarrow> px" where
  "px_init pid = \<lparr>px_fd1 = -1, px_fd2 = -1, px_ev2 = False, px_new_connect = False, px_new_sockfd = -1,
     px_sock = False, px_link = [], px_clients = [], px_closed = [], px_hooks = [], px_childpid = pid, px_kills = []\<rparr>"

text \<open>
  The proxy up to its loop, in the parent process, with the results of \<open>calloc\<close>, the two \<open>pipe\<close>
  calls and \<open>fork\<close>; in the child the link client replaces the program or, failing that, exits.
\<close>

definition iecproxy_main :: "bool \<Rightarrow> int \<Rightarrow> int \<Rightarrow> int \<Rightarrow> (char \<times> string) list \<Rightarrow> px res" where
  "iecproxy_main calloc pipe1 pipe2 fork opts =
     (let o1 = foldl px_opt \<lparr>po_unixsock = None, po_iecserver = None, po_iecport = None, po_ieclink = None,
                 po_gi_script = None, po_logdir = None\<rparr> opts
      in if po_logdir o1 = None then Inl NullDeref
         else if \<not> calloc then Inl NullDeref
         else if pipe1 < 0 then Inl (Exit 2)
         else if pipe2 < 0 then Inl (Exit 2)
         else if fork < 0 then Inl (Exit 2)
         else if fork = 0 then Inl (Exit 2)
         else Inr (px_init fork))"

end
