(* ===== verification/IecProxyProps.thy ===== *)
theory IecProxyProps
  imports IecProxy
begin

text \<open>
  The proxy: lines are read whole, messages of a client reach the link unchanged and marked by \<open>>\<close>,
  the link's verdict reaches the client, and the general interrogation is answered.
\<close>

section \<open>Lines and copies\<close>

lemma readline_from_line:
  "CHR 0x0A \<notin> set line \<Longrightarrow> n + length line < maxlen \<Longrightarrow>
   readline_from n maxlen (map Byte (line @ EOL) @ rest) ptr = Some (int (n + length line), ptr @ line @ EOL)"
  by (induction line arbitrary: n ptr) (auto simp: EOL_def)

lemma readline_line:
  "CHR 0x0A \<notin> set line \<Longrightarrow> length line < 511 \<Longrightarrow>
   readline BUF_SIZE (map Byte (line @ EOL) @ rest) = Some (int (length line) + 1, line @ EOL)"
  using readline_from_line [of line 1 BUF_SIZE rest "[]"] by (simp add: readline_def BUF_SIZE_def)

lemma cstr_clean: "CHR 0x00 \<notin> set str \<Longrightarrow> cstr str = str"
  by (auto simp: cstr_def takeWhile_eq_all_conv)

lemma gi_lines_copy:
  "pe_link_ok env \<Longrightarrow> CHR 0x00 \<notin> set out \<Longrightarrow> gi_lines env out st = st\<lparr>px_link := px_link st @ out\<rparr>"
proof (induction env out st rule: gi_lines.induct)
  case (1 env out st)
  show ?case
  proof (cases "fgets_n BUF_SIZE out")
    case None
    then show ?thesis by (subst gi_lines.simps) (auto simp: fgets_n_def Let_def split: if_splits)
  next
    case (Some p)
    then obtain asdu rest where f: "fgets_n BUF_SIZE out = Some (asdu, rest)" by (cases p) auto
    have out: "asdu @ rest = out" using fgets_n_append [OF f] .
    then have "CHR 0x00 \<notin> set asdu" "CHR 0x00 \<notin> set rest" using "1.prems"(2) by auto
    then show ?thesis using "1.IH" [OF f refl] "1.prems"(1) f out
      by (subst gi_lines.simps) (simp add: to_link_def cstr_clean)
  qed
qed

lemma client_loop_copy:
  "pe_link_ok env \<Longrightarrow> 0 \<le> px_fd2 st \<Longrightarrow> \<forall>b \<in> set bufs. b \<noteq> [] \<and> hd b \<noteq> CHR ''^'' \<Longrightarrow>
   client_loop env (map Data bufs @ [Data []]) st = Some (Inr (None, st\<lparr>px_link := px_link st @ concat bufs\<rparr>))"
proof (induction bufs arbitrary: st)
  case Nil
  then show ?case by (subst client_loop.simps) simp
next
  case (Cons b bs)
  then show ?case using Cons.IH [of "st\<lparr>px_link := px_link st @ b\<rparr>"]
    by (subst client_loop.simps) (simp add: to_link_def)
qed

text \<open>Lines that are neither the end of initialisation nor an interrogation.\<close>

lemma mark_line:
  assumes "c \<in> {CHR ''+'', CHR ''-'', CHR ''<''}"
  shows "readline BUF_SIZE (map Byte ([c] @ EOL) @ rest) = Some (2, [c] @ EOL)"
    and "\<not> strneq END_INIT ([c] @ EOL) 8" and "\<not> strneq GI_ACT ([c] @ EOL) 1"
proof -
  have "CHR 0x0A \<notin> set [c]" using assms by auto
  then show "readline BUF_SIZE (map Byte ([c] @ EOL) @ rest) = Some (2, [c] @ EOL)"
    using readline_line [of "[c]" rest] by simp
  show "\<not> strneq END_INIT ([c] @ EOL) 8" "\<not> strneq GI_ACT ([c] @ EOL) 1"
    using assms by (auto simp: strneq_def cstr_def END_INIT_def GI_ACT_def EOL_def)
qed

text \<open>A turn in which only the pipe from the link is readable.\<close>

definition link_poll :: "string \<Rightarrow> px_poll" where
  "link_poll line = \<lparr>pp_nready = 1, pp_in0 = Some (map Byte (line @ EOL)), pp_in1 = None, pp_in2 = None\<rparr>"

lemma turn_mark:
  assumes "c \<in> {CHR ''+'', CHR ''-'', CHR ''<''}"
  shows "proxy_turn env (link_poll [c]) st = Some (on_link_mark env c st)"
  using mark_line(1) [OF assms, of "[]"] mark_line(2,3) [OF assms]
  by (simp add: proxy_turn_def link_poll_def link_line_def split: sum.split)

lemma turn_gi_act: "proxy_turn env (link_poll GI_ACT) st = Some (on_gi_act env st)"
proof -
  have "readline BUF_SIZE (map Byte (GI_ACT @ EOL)) = Some (21, GI_ACT @ EOL)"
    using readline_line [of GI_ACT "[]"] by (simp add: GI_ACT_def)
  moreover have "\<not> strneq END_INIT (GI_ACT @ EOL) 8" "strneq GI_ACT (GI_ACT @ EOL) 20" by code_simp+
  ultimately show ?thesis by (simp add: proxy_turn_def link_poll_def link_line_def split: sum.split)
qed

section \<open>Properties\<close>

lemma proxy_turn_relays:
  assumes "pe_link_ok env" and "0 \<le> px_fd2 st" and "[] \<notin> set bufs" and "CHR ''^'' \<notin> set (concat bufs)"
  shows "proxy_turn env \<lparr>pp_nready = 1, pp_in0 = None, pp_in1 = None, pp_in2 = Some (map Data bufs @ [Data []])\<rparr> st
    = Some (Inr (st\<lparr>px_link := px_link st @ concat bufs @ ''>'' @ EOL, px_ev2 := False\<rparr>))"
proof -
  have "b \<noteq> [] \<and> hd b \<noteq> CHR ''^''" if b: "b \<in> set bufs" for b
  proof -
    have ne: "b \<noteq> []" using assms(3) b by metis
    have "hd b \<in> set (concat bufs)" using b hd_in_set [OF ne] unfolding set_concat by (rule UN_I)
    then have "hd b \<noteq> CHR ''^''" using assms(4) by (cases "hd b = CHR ''^''") (simp_all only: not_False_eq_True)
    then show ?thesis using ne by (rule conjI [rotated])
  qed
  then have "client_loop env (map Data bufs @ [Data []]) st = Some (Inr (None, st\<lparr>px_link := px_link st @ concat bufs\<rparr>))"
    using client_loop_copy [OF assms(1,2)] by simp
  then show ?thesis using assms(1)
    by (simp add: proxy_turn_def turn_accept_def turn_client_def on_client_def to_link_def Let_def)
qed

definition demo_px :: pxenv where
  "demo_px = \<lparr>pe_socket = 5, pe_unlink = 0, pe_enoent = False, pe_bind = 0, pe_listen = 0, pe_popen = True,
     pe_script = ''0101'' @ EOL, pe_link_ok = True, pe_notify = Some ''42''\<rparr>"

text \<open>
  The verdict of the link: a line \<open><\<close> (message confirmed) or \<open>-\<close> (connection lost) is passed on
  to the connected client as one character, and its connection is closed; on \<open>-\<close> the proxy also
  stops listening, removes its socket and runs the disconnect hook.  Without a client a \<open><\<close> changes
  nothing.
\<close>

lemma proxy_answers_client:
  assumes "0 < px_fd2 st"
  shows "proxy_turn env (link_poll ''<'') st =
      Some (Inr (st\<lparr>px_clients := px_clients st @ [(px_fd2 st, CHR ''<'')], px_closed := px_closed st @ [px_fd2 st], px_fd2 := -1\<rparr>))
    \<and> proxy_turn env (link_poll ''-'') st =
      Some (Inr (hook_disconnect (pe_notify env) (st\<lparr>px_clients := px_clients st @ [(px_fd2 st, CHR ''-'')],
        px_fd2 := -1, px_closed := px_closed st @ [px_fd2 st, px_fd1 st], px_fd1 := -1, px_sock := False\<rparr>)))
    \<and> proxy_turn env (link_poll ''<'') (st\<lparr>px_fd2 := -1\<rparr>) = Some (Inr (st\<lparr>px_fd2 := -1\<rparr>))"
  using assms turn_mark [of "CHR ''<''"] turn_mark [of "CHR ''-''"]
  by (simp add: on_link_mark_def client_close_def client_write_def Let_def)

text \<open>
  C27. General interrogation.  After the connection came up (\<open>+\<close>) the first activation is confirmed, the
  socket for clients opens and the connect hook runs, and nothing else is sent: the data follow when
  a client reports with \<open>^\<close> that no messages are waiting, which ends the interrogation and the
  client's connection.  Every other activation is confirmed and answered at once with the script's
  output, the end of the interrogation and the mark \<open>>\<close>.
\<close>

theorem general_interrogation:
  assumes "pe_link_ok env" and "pe_popen env" and "CHR 0x00 \<notin> set (pe_script env)"
  shows "(px_new_connect st \<longrightarrow> proxy_turn env (link_poll GI_ACT) st =
        Some (Inr ((hook_connect (pe_notify env) (st\<lparr>px_fd1 := px_new_sockfd st\<rparr>))
          \<lparr>px_link := px_link st @ GI_CON @ EOL, px_new_connect := False\<rparr>)))
    \<and> (\<not> px_new_connect st \<longrightarrow> proxy_turn env (link_poll GI_ACT) st =
        Some (Inr (st\<lparr>px_link := px_link st @ GI_CON @ EOL @ pe_script env @ GI_END @ EOL @ ''>'' @ EOL\<rparr>)))
    \<and> (0 \<le> px_fd2 st \<longrightarrow> proxy_turn env
          \<lparr>pp_nready = 1, pp_in0 = None, pp_in1 = None, pp_in2 = Some [Data ''^'']\<rparr> st =
        Some (Inr (st\<lparr>px_clients := px_clients st @ [(px_fd2 st, CHR ''^'')], px_closed := px_closed st @ [px_fd2 st],
          px_fd2 := -1, px_link := px_link st @ pe_script env @ GI_END @ EOL @ ''>'' @ EOL, px_ev2 := False\<rparr>)))"
proof (intro conjI impI)
  assume "px_new_connect st"
  then show "proxy_turn env (link_poll GI_ACT) st =
      Some (Inr ((hook_connect (pe_notify env) (st\<lparr>px_fd1 := px_new_sockfd st\<rparr>))
        \<lparr>px_link := px_link st @ GI_CON @ EOL, px_new_connect := False\<rparr>))"
    using assms(1) by (simp add: turn_gi_act on_gi_act_def to_link_def hook_connect_def run_hook_def Let_def split: option.split)
next
  assume "\<not> px_new_connect st"
  then show "proxy_turn env (link_poll GI_ACT) st =
      Some (Inr (st\<lparr>px_link := px_link st @ GI_CON @ EOL @ pe_script env @ GI_END @ EOL @ ''>'' @ EOL\<rparr>))"
    using assms gi_lines_copy [OF assms(1,3)] by (simp add: turn_gi_act on_gi_act_def ginterrog_def to_link_def Let_def)
next
  assume "0 \<le> px_fd2 st"
  then show "proxy_turn env \<lparr>pp_nready = 1, pp_in0 = None, pp_in1 = None, pp_in2 = Some [Data ''^'']\<rparr> st =
      Some (Inr (st\<lparr>px_clients := px_clients st @ [(px_fd2 st, CHR ''^'')], px_closed := px_closed st @ [px_fd2 st],
        px_fd2 := -1, px_link := px_link st @ pe_script env @ GI_END @ EOL @ ''>'' @ EOL, px_ev2 := False\<rparr>))"
    using assms gi_lines_copy [OF assms(1,3)]
    by (simp add: proxy_turn_def turn_accept_def turn_client_def on_client_def client_loop.simps client_close_def
        client_write_def ginterrog_def to_link_def Let_def)
qed

theorem general_interrogation_witness:
  "map_option (map_sum id px_link) (proxy_turn demo_px (link_poll GI_ACT) (px_init 9))
     = Some (Inr (GI_CON @ EOL @ ''0101'' @ EOL @ GI_END @ EOL @ ''>'' @ EOL))"
  using general_interrogation [of demo_px "px_init 9"] by (simp add: demo_px_def px_init_def EOL_def)

text \<open>
  C37. A second client that connects before the first one has its answer takes its place: the first
  connection is neither answered nor closed, and the next verdict goes to the second client.
\<close>

theorem second_client_displaces_first:
  assumes "0 < px_fd2 st" and "0 < fd" and "fd \<noteq> px_fd2 st"
    and "p = \<lparr>pp_nready = 1, pp_in0 = None, pp_in1 = Some fd, pp_in2 = None\<rparr>"
  shows "\<exists>st1 st2. proxy_turn env p st = Some (Inr st1) \<and> px_clients st1 = px_clients st \<and> px_closed st1 = px_closed st
    \<and> proxy_turn env (link_poll ''<'') st1 = Some (Inr st2)
    \<and> px_clients st2 = px_clients st @ [(fd, CHR ''<'')] \<and> px_closed st2 = px_closed st @ [fd] \<and> px_fd2 st2 = -1"
  using assms turn_mark [of "CHR ''<''"]
  by (simp add: proxy_turn_def turn_accept_def on_link_mark_def client_close_def client_write_def Let_def)

theorem second_client_displaces_first_witness:
  "\<exists>st1 st2. proxy_turn demo_px \<lparr>pp_nready = 1, pp_in0 = None, pp_in1 = Some 7, pp_in2 = None\<rparr> ((px_init 9)\<lparr>px_fd2 := 6\<rparr>) = Some (Inr st1)
    \<and> proxy_turn demo_px (link_poll ''<'') st1 = Some (Inr st2) \<and> px_clients st2 = [(7, CHR ''<'')] \<and> px_closed st2 = [7]"
  using second_client_displaces_first [of "(px_init 9)\<lparr>px_fd2 := 6\<rparr>" 7 _ demo_px, OF _ _ _ refl]
  by (auto simp: px_init_def)

end
