(* ===== verification/IecProxyRun.thy ===== *)
theory IecProxyRun
  imports IecProxyProps "HOL-Library.Sublist"
begin

text \<open>
  The proxy of \<open>src/iecproxy/iecproxy.c\<close> over any number of turns: the clients it answers are among those it
  has accepted, in that order, each at most once, and an answered client is closed.
\<close>

section \<open>Runs\<close>

text \<open>The descriptors that \<open>accept\<close> returns in a turn: it is not reached when the turn ends earlier.\<close>

definition accepted_in :: "px_poll \<Rightarrow> int list" where
  "accepted_in p =
     (let new = (case pp_in1 p of None \<Rightarrow> [] | Some fd \<Rightarrow> [fd])
      in case pp_in0 p of
           None \<Rightarrow> new
         | Some input \<Rightarrow>
             (case readline BUF_SIZE input of
                None \<Rightarrow> []
              | Some (n, buf) \<Rightarrow>
                  if n > 0 \<and> strneq END_INIT buf 8 then [] else if pp_nready p - 1 \<le> 0 then [] else new))"

text \<open>The states after the start, with the descriptors accepted so far.\<close>

inductive px_run :: "int list \<Rightarrow> px \<Rightarrow> bool" where
  run_start: "px_run [] (px_init pid)"
| run_turn: "px_run acc st \<Longrightarrow> proxy_turn env p st = Some (Inr st') \<Longrightarrow> px_run (acc @ accepted_in p) st'"
| run_term: "px_run acc st \<Longrightarrow> px_sig_term st = Inr st' \<Longrightarrow> px_run acc st'"
| run_chld: "px_run acc st \<Longrightarrow> px_sig_chld pid st = Inr st' \<Longrightarrow> px_run acc st'"

section \<open>The invariant\<close>

definition answered :: "px \<Rightarrow> int list" where
  "answered st = map fst (px_clients st)"

definition px_inv :: "int list \<Rightarrow> px \<Rightarrow> bool" where
  "px_inv acc st \<longleftrightarrow> subseq (answered st) acc \<and> subseq (answered st) (px_closed st)
     \<and> (0 \<le> px_fd2 st \<longrightarrow> acc \<noteq> [] \<and> last acc = px_fd2 st \<and> subseq (answered st) (butlast acc))"

text \<open>It depends on the waiting client, the answers and the closed descriptors only.\<close>

lemma px_inv_cong:
  "px_fd2 st' = px_fd2 st \<Longrightarrow> px_clients st' = px_clients st \<Longrightarrow> px_closed st' = px_closed st \<Longrightarrow> px_inv acc st' = px_inv acc st"
  by (simp add: px_inv_def answered_def)

lemma to_link_fields [simp]:
  "px_fd2 (to_link env str st) = px_fd2 st" "px_clients (to_link env str st) = px_clients st" "px_closed (to_link env str st) = px_closed st"
  by (simp_all add: to_link_def)

lemma gi_lines_fields:
  "px_fd2 (gi_lines env out st) = px_fd2 st \<and> px_clients (gi_lines env out st) = px_clients st \<and> px_closed (gi_lines env out st) = px_closed st"
proof (induction env out st rule: gi_lines.induct)
  case (1 env out st)
  then show ?case by (subst (1 2 3) gi_lines.simps) (auto split: option.splits prod.splits)
qed

lemma ginterrog_inv: "ginterrog env st = Inr st' \<Longrightarrow> px_inv acc st' = px_inv acc st"
  using gi_lines_fields [of env "pe_script env" st] by (auto simp: ginterrog_def px_inv_cong [of "gi_lines env (pe_script env) st" st] split: if_splits)

lemma to_link_inv [simp]: "px_inv acc (to_link env str st) = px_inv acc st"
  by (rule px_inv_cong) simp_all

lemma hooks_px_inv [simp]: "px_inv acc (hook_connect pid st) = px_inv acc st" "px_inv acc (hook_disconnect pid st) = px_inv acc st"
  by (simp_all add: hook_connect_def hook_disconnect_def run_hook_def px_inv_def answered_def split: option.split)

lemma px_inv_frame [simp]:
  "px_inv acc (st\<lparr>px_fd1 := a\<rparr>) = px_inv acc st" "px_inv acc (st\<lparr>px_ev2 := b\<rparr>) = px_inv acc st"
  "px_inv acc (st\<lparr>px_new_connect := c\<rparr>) = px_inv acc st" "px_inv acc (st\<lparr>px_new_sockfd := d\<rparr>) = px_inv acc st"
  "px_inv acc (st\<lparr>px_sock := e\<rparr>) = px_inv acc st" "px_inv acc (st\<lparr>px_kills := f\<rparr>) = px_inv acc st"
  "px_inv acc (st\<lparr>px_childpid := g\<rparr>) = px_inv acc st"
  by (simp_all add: px_inv_def answered_def)

lemma px_inv_closed: "px_inv acc st \<Longrightarrow> px_inv acc (st\<lparr>px_closed := px_closed st @ fds\<rparr>)"
  by (auto simp: px_inv_def answered_def intro: list_emb_append2)

lemma px_inv_answer:
  assumes "px_inv acc st" and "0 \<le> px_fd2 st"
  shows "px_inv acc (client_close (client_write c st))"
proof -
  have "acc = butlast acc @ [px_fd2 st]" and sub: "subseq (answered st) (butlast acc)"
    using assms append_butlast_last_id [of acc] by (auto simp: px_inv_def)
  moreover have "subseq (answered st @ [px_fd2 st]) (butlast acc @ [px_fd2 st])" using sub by (simp add: list_emb_append_mono)
  moreover have "subseq (answered st @ [px_fd2 st]) (px_closed st @ [px_fd2 st])"
    using assms(1) by (simp add: px_inv_def list_emb_append_mono)
  ultimately show ?thesis by (simp add: px_inv_def client_close_def client_write_def answered_def)
qed

lemma px_inv_drop: "px_inv acc st \<Longrightarrow> px_inv acc (client_close st)"
  by (auto simp: px_inv_def answered_def client_close_def intro: list_emb_append2)

lemma px_inv_accept: "px_inv acc st \<Longrightarrow> px_inv (acc @ [fd]) (st\<lparr>px_fd2 := fd\<rparr>)"
  by (auto simp: px_inv_def answered_def intro: list_emb_append2)

section \<open>Turns keep it\<close>

lemma on_gi_act_inv: "on_gi_act env st = Inr st' \<Longrightarrow> px_inv acc st \<Longrightarrow> px_inv acc st'"
  by (auto simp: on_gi_act_def Let_def elim!: res_bindE split: if_splits dest: ginterrog_inv)

lemma on_link_mark_inv:
  assumes "on_link_mark env c st = Inr st'" and inv: "px_inv acc st"
  shows "px_inv acc st'"
proof -
  consider (plus) "c = CHR ''+''" | (minus) "c = CHR ''-''" | (confirm) "c = CHR ''<''" | (other) "st' = st"
    using assms(1) by (auto simp: on_link_mark_def split: if_splits)
  then show ?thesis
  proof cases
    case plus
    with assms show ?thesis by (auto simp: on_link_mark_def new_usocket_def elim!: res_bindE split: if_splits)
  next
    case minus
    let ?st = "if px_fd2 st > 0 then client_close (client_write c st) else st"
    have "px_inv acc ?st" using inv px_inv_answer by simp
    then have "px_inv acc (?st\<lparr>px_closed := px_closed ?st @ [px_fd1 ?st]\<rparr>)" by (rule px_inv_closed)
    moreover have "st' = hook_disconnect (pe_notify env)
        (((?st\<lparr>px_closed := px_closed ?st @ [px_fd1 ?st]\<rparr>)\<lparr>px_fd1 := -1\<rparr>)\<lparr>px_sock := False\<rparr>)"
      using assms(1) minus by (cases "px_fd2 st > 0") (simp_all add: on_link_mark_def Let_def)
    ultimately show ?thesis by (simp only: hooks_px_inv px_inv_frame)
  next
    case confirm
    with assms px_inv_answer [OF inv, of c] show ?thesis by (auto simp: on_link_mark_def split: if_splits)
  qed (use inv in simp)
qed

lemma link_line_inv: "link_line env n buf st = Inr st' \<Longrightarrow> px_inv acc st \<Longrightarrow> px_inv acc st'"
  by (auto simp: link_line_def split: if_splits dest: on_gi_act_inv on_link_mark_inv)

lemma client_loop_inv: "client_loop env input st = Some (Inr (err, st')) \<Longrightarrow> px_inv acc st \<Longrightarrow> px_inv acc st'"
proof (induction env input st rule: client_loop.induct)
  case (1 env input st)
  show ?case
  proof (cases "px_fd2 st < 0")
    case True
    with "1.prems" show ?thesis by (subst (asm) client_loop.simps) simp
  next
    case fd: False
    show ?thesis
    proof (cases input)
      case Nil
      with fd "1.prems" show ?thesis by (subst (asm) client_loop.simps) simp
    next
      case (Cons x rest)
      show ?thesis
      proof (cases x)
        case (CErr reset)
        with Cons fd "1.prems" show ?thesis by (subst (asm) client_loop.simps) simp
      next
        case (Data buf)
        let ?st = "client_close (client_write (hd buf) st)"
        have inv: "px_inv acc ?st" using px_inv_answer "1.prems"(2) fd by simp
        note unf = "1.prems"(1) [unfolded client_loop.simps [of env input st]]
        note eq = unf [unfolded Cons Data]
        consider (eof) "buf = []" | (gi) "buf \<noteq> []" "hd buf = CHR ''^''" | (copy) "buf \<noteq> []" "hd buf \<noteq> CHR ''^''" by blast
        then show ?thesis
        proof cases
          case eof
          then show ?thesis using eq fd "1.prems"(2) by simp
        next
          case gi
          then obtain st1 where st1: "ginterrog env ?st = Inr st1" "client_loop env rest (to_link env (GI_END @ EOL) st1) = Some (Inr (err, st'))"
            using eq fd by (auto simp: Let_def split: sum.splits)
          have "px_inv acc st1" using ginterrog_inv [OF st1(1)] inv by blast
          then show ?thesis using "1.IH"(1) [OF fd Cons Data gi refl st1(1) st1(2)] by simp
        next
          case copy
          then have "client_loop env rest (to_link env buf st) = Some (Inr (err, st'))" using eq fd by simp
          then show ?thesis using "1.IH"(2) [OF fd Cons Data copy] "1.prems"(2) by simp
        qed
      qed
    qed
  qed
qed

lemma on_client_inv:
  assumes "on_client env input st = Some (Inr st')" and "px_inv acc st"
  shows "px_inv acc st'"
proof -
  obtain err st1 where st1: "client_loop env input st = Some (Inr (err, st1))"
      "st' = (to_link env (''>'' @ EOL) (if err = Some True then client_close st1 else st1))\<lparr>px_ev2 := False\<rparr>"
    using assms(1) by (auto simp: on_client_def Let_def split: option.splits sum.splits)
  have "px_inv acc st1" using client_loop_inv [OF st1(1) assms(2)] .
  then show ?thesis unfolding st1(2) by (simp add: px_inv_drop)
qed

lemma turn_client_inv: "turn_client env p st = Some (Inr st') \<Longrightarrow> px_inv acc st \<Longrightarrow> px_inv acc st'"
  using on_client_inv by (auto simp: turn_client_def split: option.splits)

lemma turn_accept_inv:
  assumes "turn_accept env p k st = Some (Inr st')" and "px_inv acc st"
  shows "px_inv (acc @ (case pp_in1 p of None \<Rightarrow> [] | Some fd \<Rightarrow> [fd])) st'"
proof (cases "pp_in1 p")
  case None
  then show ?thesis using assms turn_client_inv by (simp add: turn_accept_def)
next
  case (Some fd)
  let ?st = "(st\<lparr>px_fd2 := fd\<rparr>)\<lparr>px_ev2 := True\<rparr>"
  have "px_inv (acc @ [fd]) ?st" using px_inv_accept [OF assms(2)] by (simp only: px_inv_frame)
  then show ?thesis using Some assms(1) turn_client_inv [of env p ?st st'] by (auto simp: turn_accept_def Let_def split: if_splits)
qed

lemma proxy_turn_inv:
  assumes turn: "proxy_turn env p st = Some (Inr st')" and inv: "px_inv acc st"
  shows "px_inv (acc @ accepted_in p) st'"
proof (cases "pp_in0 p")
  case None
  then show ?thesis using assms turn_accept_inv by (simp add: proxy_turn_def accepted_in_def)
next
  case (Some input)
  then obtain n buf where r: "readline BUF_SIZE input = Some (n, buf)" using turn by (auto simp: proxy_turn_def split: option.splits)
  show ?thesis
  proof (cases "n > 0 \<and> strneq END_INIT buf 8")
    case True
    then show ?thesis using turn inv Some r by (simp add: proxy_turn_def accepted_in_def)
  next
    case False
    let ?l = "if n > 0 then link_line env n buf st else Inr st"
    have "proxy_turn env p st = (case ?l of Inl e \<Rightarrow> Some (Inl e) | Inr st \<Rightarrow>
        if pp_nready p - 1 \<le> 0 then Some (Inr st) else turn_accept env p (pp_nready p - 1) st)"
      unfolding proxy_turn_def Some option.case r prod.case using False by (rule if_not_P)
    then obtain st1 where st1: "(if n > 0 then link_line env n buf st else Inr st) = Inr st1"
        "(if pp_nready p - 1 \<le> 0 then Some (Inr st1) else turn_accept env p (pp_nready p - 1) st1) = Some (Inr st')"
      using turn by (cases ?l) auto
    have "px_inv acc st1" using st1(1) link_line_inv inv by (auto split: if_splits)
    then show ?thesis using st1(2) turn_accept_inv [of env p "pp_nready p - 1" st1 st'] False Some r
      by (auto simp: accepted_in_def Let_def split: if_splits)
  qed
qed

lemma px_run_inv: "px_run acc st \<Longrightarrow> px_inv acc st"
proof (induction rule: px_run.induct)
  case (run_start pid)
  then show ?case by (simp add: px_inv_def answered_def px_init_def)
next
  case (run_turn acc st env p st')
  then show ?case using proxy_turn_inv by blast
qed (auto simp: px_sig_term_def px_sig_chld_def Let_def split: if_splits)

section \<open>Properties\<close>

text \<open>
  C16. Whatever the link, the clients and the signals do, the proxy answers clients in the order in which it
  has accepted them and none twice, it closes every client it answers, and the client it has not
  answered yet is the one it accepted last.
\<close>

theorem proxy_answers_in_order:
  assumes "px_run acc st"
  shows "subseq (map fst (px_clients st)) acc \<and> subseq (map fst (px_clients st)) (px_closed st)
    \<and> (0 \<le> px_fd2 st \<longrightarrow> acc \<noteq> [] \<and> last acc = px_fd2 st \<and> subseq (map fst (px_clients st)) (butlast acc))"
  using px_run_inv [OF assms] by (simp add: px_inv_def answered_def)

theorem proxy_answers_in_order_witness:
  "\<exists>st. px_run [6, 7] st \<and> px_clients st = [(6, CHR ''<'')] \<and> px_fd2 st = 7
    \<and> subseq (map fst (px_clients st)) [6, 7] \<and> subseq (map fst (px_clients st)) (px_closed st)"
proof -
  let ?new = "\<lambda>fd. \<lparr>pp_nready = 1, pp_in0 = None, pp_in1 = Some fd, pp_in2 = None\<rparr>"
  let ?st1 = "(px_init 9)\<lparr>px_fd2 := 6, px_ev2 := True\<rparr>"
  let ?st2 = "client_close (client_write (CHR ''<'') ?st1)"
  let ?st3 = "?st2\<lparr>px_fd2 := 7, px_ev2 := True\<rparr>"
  have no_accept: "accepted_in (link_poll ''<'') = []"
    by (auto simp: accepted_in_def link_poll_def Let_def split: option.split)
  have "px_run ([] @ accepted_in (?new 6)) ?st1"
    by (rule px_run.run_turn [OF px_run.run_start, of demo_px]) (simp add: proxy_turn_def turn_accept_def Let_def)
  then have "px_run ([] @ [6]) ?st1" by (simp add: accepted_in_def)
  then have "px_run (([] @ [6]) @ accepted_in (link_poll ''<'')) ?st2"
    by (rule px_run.run_turn [of _ _ demo_px]) (simp add: turn_mark on_link_mark_def)
  then have "px_run [6] ?st2" by (simp add: no_accept)
  then have "px_run ([6] @ accepted_in (?new 7)) ?st3"
    by (rule px_run.run_turn [of _ _ demo_px]) (simp add: proxy_turn_def turn_accept_def Let_def)
  then have "px_run [6, 7] ?st3" by (simp add: accepted_in_def)
  then show ?thesis using proxy_answers_in_order [of "[6, 7]" ?st3]
    by (intro exI [of _ ?st3]) (simp add: client_close_def client_write_def px_init_def)
qed

end
