(* ===== verification/SockWrite.thy ===== *)
theory SockWrite
  imports Prelude
begin

text \<open>
  The command \<open>src/sockwrite/sockwrite.c\<close>: it copies its standard input to the proxy's socket, ends its
  side of the connection, waits for one answer and turns it into its exit status.
\<close>

section \<open>The program\<close>

definition RESPONSE_SIZE :: nat where "RESPONSE_SIZE = 32"

text \<open>
  Answers of the operating system: for each call its result and the \<open>errno\<close> it leaves; write \<open>i\<close> of
  the copying loop is answered by \<open>sw_write i\<close>.
\<close>

record sw_env =
  sw_socket :: int
  sw_socket_errno :: int
  sw_connect :: int
  sw_connect_errno :: int
  sw_write :: "nat \<Rightarrow> int"
  sw_write_errno :: int
  sw_read :: int
  sw_response :: string
  sw_read_errno :: int

fun sw_options :: "(char \<times> string) list \<Rightarrow> string option \<Rightarrow> string option res" where
  "sw_options [] sockpath = Inr sockpath"
| "sw_options ((c, arg) # os) sockpath =
     (if c = CHR ''s'' then sw_options os (Some arg)
      else if c = CHR ''d'' then sw_options os sockpath
      else Inl (Exit 4))"

text \<open>
  The copying loop on the chunks the standard input gives, at most 512 characters each; an empty one
  is its end.  The result is what was written and whether every write succeeded.
\<close>

fun sw_copy :: "sw_env \<Rightarrow> nat \<Rightarrow> string list \<Rightarrow> string \<Rightarrow> bool \<times> string" where
  "sw_copy env i [] out = (True, out)"
| "sw_copy env i (buf # rest) out =
     (if buf = [] then (True, out)
      else
        let m = sw_write env i
        in if m < 0 then (False, out) else sw_copy env (i + 1) rest (out @ take (nat m) buf))"

definition sw_status :: "int \<Rightarrow> string \<Rightarrow> int" where
  "sw_status n response =
     (if n > 0 then
        (let c = hd (response @ [CHR 0x00])
         in if c = CHR ''<'' then 0 else if c = CHR ''-'' then 2 else if c = CHR ''^'' then 3 else 0)
      else 0)"

text \<open>The exit status and what has been sent.\<close>

definition sockwrite_main :: "sw_env \<Rightarrow> (char \<times> string) list \<Rightarrow> string list \<Rightarrow> (int \<times> string) res" where
  "sockwrite_main env opts input =
     res_bind (sw_options opts None) (\<lambda>sockpath.
       if sw_socket env = -1 then Inr (sw_socket_errno env, [])
       else case sockpath of
         None \<Rightarrow> Inl NullDeref
       | Some path \<Rightarrow>
           if sw_connect env = -1 then Inr (sw_connect_errno env, [])
           else
             let (ok, out) = sw_copy env 0 input []
             in if \<not> ok then Inr (sw_write_errno env, out)
                else if sw_read env < 0 then Inr (sw_read_errno env, out)
                else Inr (sw_status (sw_read env) (sw_response env), out))"

section \<open>Properties\<close>

text \<open>Every call succeeds and every write takes its whole buffer.\<close>

definition sw_ok :: "sw_env \<Rightarrow> string list \<Rightarrow> bool" where
  "sw_ok env input \<longleftrightarrow> sw_socket env \<noteq> -1 \<and> sw_connect env \<noteq> -1 \<and> [] \<notin> set input
     \<and> (\<forall>i < length input. sw_write env i = int (length (input ! i)))"

lemma sw_copy_all:
  "[] \<notin> set input \<Longrightarrow> (\<forall>j < length input. sw_write env (i + j) = int (length (input ! j))) \<Longrightarrow>
   sw_copy env i input out = (True, out @ concat input)"
proof (induction input arbitrary: i out)
  case (Cons b bs)
  have "sw_write env (i + 0) = int (length b)" using Cons.prems(2) by (metis length_Cons nth_Cons_0 zero_less_Suc)
  moreover have "\<forall>j < length bs. sw_write env (i + 1 + j) = int (length (bs ! j))"
    using Cons.prems(2) by (metis Suc_less_eq add.assoc length_Cons nth_Cons_Suc plus_1_eq_Suc)
  ultimately show ?case using Cons.IH [of "i + 1"] Cons.prems(1) by auto
qed simp

lemma sockwrite_main_ok:
  assumes "sw_ok env input" and "0 \<le> sw_read env"
  shows "sockwrite_main env [(CHR ''s'', path)] input = Inr (sw_status (sw_read env) (sw_response env), concat input)"
  using sw_copy_all [of input env 0 "[]"] assms by (simp add: sockwrite_main_def sw_ok_def)

text \<open>
  C38. When every call succeeds, the whole standard input reaches the socket in order, and the exit
  status is 2 exactly for the answer \<open>-\<close> and 3 exactly for \<open>^\<close>; every other outcome, the answer \<open><\<close>
  as well as a connection closed without any answer, is status 0.
\<close>

theorem sockwrite_copies_and_reports:
  assumes "sw_ok env input" and "sw_read env \<ge> 0"
  shows "sockwrite_main env [(CHR ''s'', path)] input =
      Inr (if sw_read env > 0 \<and> sw_response env \<noteq> [] \<and> hd (sw_response env) = CHR ''-'' then 2
           else if sw_read env > 0 \<and> sw_response env \<noteq> [] \<and> hd (sw_response env) = CHR ''^'' then 3
           else 0, concat input)"
  using sockwrite_main_ok [OF assms] by (cases "sw_response env") (auto simp: sw_status_def Let_def)

theorem sockwrite_copies_and_reports_witness:
  "sockwrite_main \<lparr>sw_socket = 3, sw_socket_errno = 0, sw_connect = 0, sw_connect_errno = 0, sw_write = (\<lambda>i. 3),
      sw_write_errno = 0, sw_read = 0, sw_response = [], sw_read_errno = 0\<rparr> [(CHR ''s'', ''u'')] [''0A1''] = Inr (0, ''0A1'')"
  using sockwrite_copies_and_reports [of "\<lparr>sw_socket = 3, sw_socket_errno = 0, sw_connect = 0, sw_connect_errno = 0,
      sw_write = (\<lambda>i. 3), sw_write_errno = 0, sw_read = 0, sw_response = [], sw_read_errno = 0\<rparr>" "[''0A1'']" "''u''"]
  by (simp add: sw_ok_def)

end
