(* ===== verification/Gateway.thy ===== *)
theory Gateway
  imports SockWrite IecProxyProps IecLinkProps
begin

text \<open>
  The programs put together: a message handed to \<open>sockwrite\<close> as lines of hexadecimal digits passes the
  proxy and leaves the link client as I frames; the link's verdict comes back as the exit status.
\<close>

section \<open>A message on the input of the link client\<close>






lemma octets_append [simp]: "octets (a @ b) = octets a @ octets b"
  by (simp add: octets_def)








section \<open>End to end\<close>


definition demo_sw :: sw_env where
  "demo_sw = \<lparr>sw_socket = 3, sw_socket_errno = 0, sw_connect = 0, sw_connect_errno = 0, sw_write = (\<lambda>i. 5),
     sw_write_errno = 0, sw_read = 1, sw_response = ''<'', sw_read_errno = 0\<rparr>"

definition demo_link :: "lk st" where
  "demo_link = \<lparr>st_s = fresh [], st_new = [], st_g = lk_init\<rparr>"


text \<open>
  C13. The verdict on the way back: when everything sent has been acknowledged and no ASDU of a finished
  message is left in the saved list, the link client prints \<open><\<close>; the proxy passes it to the client
  that waits and closes its connection; \<open>sockwrite\<close> exits with status 0.  When the link is lost the
  client prints \<open>-\<close> instead and the status is 2.
\<close>

theorem verdict_end_to_end:
  assumes lk: "g_asdulist (st_g st) = None" "g_endmsg (st_g st)"
    and px: "0 < px_fd2 p" and sw: "sw_ok env input" "sw_read env = 1"
  shows "(\<exists>st' p'. iec_kick_callback lenv st = Inr st' \<and> g_stdout (st_g st') = g_stdout (st_g st) @ ''<'' @ EOL
      \<and> proxy_turn penv (link_poll ''<'') p = Some (Inr p') \<and> px_clients p' = px_clients p @ [(px_fd2 p, CHR ''<'')]
      \<and> px_closed p' = px_closed p @ [px_fd2 p]
      \<and> sockwrite_main (env\<lparr>sw_response := ''<''\<rparr>) [(CHR ''s'', path)] input = Inr (0, concat input))
    \<and> (\<exists>st' p'. disconnect_hook reason st = Inr st' \<and> g_stdout (st_g st') = g_stdout (st_g st) @ ''-'' @ EOL
      \<and> proxy_turn penv (link_poll ''-'') p = Some (Inr p') \<and> px_clients p' = px_clients p @ [(px_fd2 p, CHR ''-'')]
      \<and> sockwrite_main (env\<lparr>sw_response := ''-''\<rparr>) [(CHR ''s'', path)] input = Inr (2, concat input))"
proof -
  have k: "\<exists>st'. iec_kick_callback lenv st = Inr st' \<and> g_stdout (st_g st') = g_stdout (st_g st) @ ''<'' @ EOL"
    using lk by (simp add: iec_kick_callback_def kick_loop.simps print_def on_s_def Let_def NL_def EOL_def)
  have d: "\<exists>st'. disconnect_hook reason st = Inr st' \<and> g_stdout (st_g st') = g_stdout (st_g st) @ ''-'' @ EOL"
    by (simp add: disconnect_hook_def print_def NL_def EOL_def)
  have ok: "sw_ok (env\<lparr>sw_response := r\<rparr>) input" "sw_read (env\<lparr>sw_response := r\<rparr>) = 1" for r
    using sw by (simp_all add: sw_ok_def)
  have s: "sockwrite_main (env\<lparr>sw_response := [c]\<rparr>) [(CHR ''s'', path)] input = Inr (sw_status 1 [c], concat input)" for c
    using sockwrite_main_ok [OF ok(1), of "[c]" path] ok(2) by simp
  have t: "sw_status 1 ''<'' = 0" "sw_status 1 ''-'' = 2" by (simp_all add: sw_status_def)
  have hook: "px_clients (hook_disconnect pid q) = px_clients q" for pid q
    by (simp add: hook_disconnect_def run_hook_def split: option.split)
  show ?thesis using k d s t proxy_answers_client [OF px, of penv] hook by auto
qed

theorem verdict_end_to_end_witness:
  "(\<exists>p'. proxy_turn demo_px (link_poll ''<'') ((px_init 9)\<lparr>px_fd2 := 6\<rparr>) = Some (Inr p') \<and> px_closed p' = [6])
   \<and> sockwrite_main (demo_sw\<lparr>sw_response := ''-''\<rparr>) [(CHR ''s'', ''u'')] [''01AB'' @ EOL] = Inr (2, ''01AB'' @ EOL)"
proof -
  have "sw_ok demo_sw [''01AB'' @ EOL]" "sw_read demo_sw = 1" by (simp_all add: sw_ok_def demo_sw_def EOL_def)
  moreover have "g_asdulist (st_g (demo_link\<lparr>st_g := lk_init\<lparr>g_endmsg := True\<rparr>\<rparr>)) = None"
      "g_endmsg (st_g (demo_link\<lparr>st_g := lk_init\<lparr>g_endmsg := True\<rparr>\<rparr>))" by (simp_all add: lk_init_def)
  ultimately show ?thesis
    using verdict_end_to_end [of "demo_link\<lparr>st_g := lk_init\<lparr>g_endmsg := True\<rparr>\<rparr>" "(px_init 9)\<lparr>px_fd2 := 6\<rparr>" demo_sw
      "[''01AB'' @ EOL]" "plain_env quiet_hooks" demo_px "''u''"]
    by (auto simp: px_init_def)
qed

end
