(* ===== verification/QuemngrKeeps.thy ===== *)
theory QuemngrKeeps
  imports QuemngrDelivery
begin

text \<open>
  What every step of the queue manager of \<open>src/quemngr/quemngr.c\<close> keeps, a whole turn of its main loop keeps: the
  locale \<open>turn_kept\<close> carries a relation between states from the single steps (a response, a message handed to the
  child, a file taken from the drop directory) over to turns.
\<close>

section \<open>Effects of the steps\<close>

definition inodes :: "qm \<Rightarrow> int \<Rightarrow> ino_t set" where
  "inodes st q = m_inode ` set (live (q_at st q))"

lemma inodes_cong: "live (q_at st' q) = live (q_at st q) \<Longrightarrow> inodes st' q = inodes st q"
  by (simp add: inodes_def)

lemma mvfile_eff:
  assumes "mvfile os src dst fs = (r, fs')" and "\<not> r < 0"
  obtains i where "fs src = Some i" "fs' = (if fs dst = Some i then fs else fs(src := None, dst := Some i))"
  using assms by (auto simp: mvfile_def sys_rename_def Let_def split: if_splits option.splits)

lemma unlink_eff:
  assumes "unlink_sync env d ino st = Inr st'"
  shows "qm_fs st (mk_path d (fmt_ld ino)) \<noteq> None" "st' = st\<lparr>qm_fs := (qm_fs st)(mk_path d (fmt_ld ino) := None)\<rparr>"
  using assms by (auto simp: unlink_sync_def sys_unlink_def split: if_splits)

lemma movefile_eff:
  assumes "MOVEFILE env a b ino st = Inr st'"
  obtains i where "in_range st a" "in_range st b" "qm_fs st (mk_path (dir (q_at st a)) (fmt_ld ino)) = Some i"
    "st' = st\<lparr>qm_fs := (if qm_fs st (mk_path (dir (q_at st b)) (fmt_ld ino)) = Some i then qm_fs st
      else (qm_fs st)(mk_path (dir (q_at st a)) (fmt_ld ino) := None, mk_path (dir (q_at st b)) (fmt_ld ino) := Some i))\<rparr>"
proof -
  let ?o = "mk_path (dir (q_at st a)) (fmt_ld ino)" and ?n = "mk_path (dir (q_at st b)) (fmt_ld ino)"
  obtain k fs' where m: "in_range st a" "in_range st b" "mvfile (q_os env) ?o ?n (qm_fs st) = (k, fs')" "\<not> k < 0" "st' = st\<lparr>qm_fs := fs'\<rparr>"
    using assms by (auto simp: MOVEFILE_def que_eq elim!: res_bindE split: prod.splits if_splits)
  obtain i where "qm_fs st ?o = Some i" "fs' = (if qm_fs st ?n = Some i then qm_fs st else (qm_fs st)(?o := None, ?n := Some i))"
    using mvfile_eff [OF m(3,4)] .
  then show ?thesis using that m(1,2,5) by blast
qed

text \<open>What a response to a message in work does on each branch.\<close>

lemma respond_eff [consumes 3, case_names delivered received failed put_off]:
  assumes inv: "qm_inv st" and w: "in_work st ino s" and r: "respond env ino code s st = Inr (r, st')"
  obtains fs where "code = 0" "qm_fs st (mk_path act_dir (fmt_ld ino)) \<noteq> None"
      "fs = (qm_fs st)(mk_path act_dir (fmt_ld ino) := None, mk_path (dir (q_at st s)) (fmt_ld ino) := None)"
      "retire s ino (st\<lparr>qm_fs := fs\<rparr>) = Inr st'"
  | "code = 1" "st' = set_que s ((q_at st s)\<lparr>conf := conf (q_at st s) + 1\<rparr>) st"
  | fs i fs' where "code \<noteq> 0" "code \<noteq> 1" "s = qm_countq st" "fs = (qm_fs st)(mk_path act_dir (fmt_ld ino) := None)"
      "fs (mk_path (dir (q_at st s)) (fmt_ld ino)) = Some i"
      "fs' = (if fs (mk_path fail_dir (fmt_ld ino)) = Some i then fs
        else fs(mk_path (dir (q_at st s)) (fmt_ld ino) := None, mk_path fail_dir (fmt_ld ino) := Some i))"
      "retire s ino (st\<lparr>qm_fs := fs'\<rparr>) = Inr st'"
  | fs i fs' l st3 h where "code \<noteq> 0" "code \<noteq> 1" "s < qm_countq st" "fs = (qm_fs st)(mk_path act_dir (fmt_ld ino) := None)"
      "fs (mk_path (dir (q_at st s)) (fmt_ld ino)) = Some i"
      "fs' = (if fs (mk_path (dir (q_at st (s + 1))) (fmt_ld ino)) = Some i then fs
        else fs(mk_path (dir (q_at st s)) (fmt_ld ino) := None, mk_path (dir (q_at st (s + 1))) (fmt_ld ino) := Some i))"
      "live l = live (q_at st (s + 1)) @ [elem_new ino (Timeval 0 0) (s + 1)]" "dir l = dir (q_at st (s + 1))"
      "qm_inv (set_que (s + 1) l (st\<lparr>qm_fs := fs'\<rparr>))" "retire s ino (set_que (s + 1) l (st\<lparr>qm_fs := fs'\<rparr>)) = Inr st3"
      "st' = st3\<lparr>qm_heap := h, qm_clock := qm_clock st3 + 1\<rparr>"
proof -
  note rg = in_work_range [OF inv w]
  have q: "que st s = Inr (q_at st s)" using rg(3) by (simp add: que_eq)
  consider (zero) "code = 0" | (one) "code = 1" | (last) "code \<noteq> 0" "code \<noteq> 1" "s = qm_countq st"
    | (off) "code \<noteq> 0" "code \<noteq> 1" "s < qm_countq st" using rg(2) by linarith
  then show ?thesis
  proof cases
    case zero
    obtain st1 st2 where u: "unlink_sync env act_dir ino st = Inr st1" "unlink_sync env (dir (q_at st s)) ino st1 = Inr st2"
        "retire s ino st2 = Inr st'"
      using r zero q by (auto simp: respond_def elim!: res_bindE)
    show ?thesis using that(1) [OF zero unlink_eff(1) [OF u(1)] refl] u(3) unlink_eff(2) [OF u(2)] unlink_eff(2) [OF u(1)] by simp
  next
    case one
    then show ?thesis using that(2) r q by (auto simp: respond_def elim!: res_bindE on_queE)
  next
    case last
    let ?o = "mk_path (dir (q_at st s)) (fmt_ld ino)" and ?f = "mk_path fail_dir (fmt_ld ino)"
    obtain st1 k fs' where u: "unlink_sync env act_dir ino st = Inr st1" "mvfile (q_os env) ?o ?f (qm_fs st1) = (k, fs')" "\<not> k < 0"
        "retire s ino (st1\<lparr>qm_fs := fs'\<rparr>) = Inr st'"
      using r last q by (auto simp: respond_def Let_def elim!: res_bindE split: prod.splits if_splits)
    have u1: "qm_fs st1 = (qm_fs st)(mk_path act_dir (fmt_ld ino) := None)" "st1\<lparr>qm_fs := f\<rparr> = st\<lparr>qm_fs := f\<rparr>" "q_at st1 j = q_at st j"
        "in_range st1 j = in_range st j" for f j
      using unlink_eff(2) [OF u(1)] by simp_all
    obtain i where i: "qm_fs st1 ?o = Some i" "fs' = (if qm_fs st1 ?f = Some i then qm_fs st1 else (qm_fs st1)(?o := None, ?f := Some i))"
      using mvfile_eff [OF u(2,3)] .
    show ?thesis using that(3) [OF last refl i(1) [unfolded u1(1)] i(2) [unfolded u1(1)] u(4) [unfolded u1(2)]] .
  next
    case off
    let ?o = "mk_path (dir (q_at st s)) (fmt_ld ino)" and ?n = "mk_path (dir (q_at st (s + 1))) (fmt_ld ino)"
    have rg1: "in_range st (s + 1)" "s + 1 \<noteq> ACT" using off(3) rg(1) qinv_wf(4) [OF inv] by (auto simp: ACT_def)
    obtain st1 st2 st3 st4 where u: "unlink_sync env act_dir ino st = Inr st1" "MOVEFILE env s (s + 1) ino st1 = Inr st2"
        "on_que (s + 1) (\<lambda>l. elem_add l (elem_new ino (Timeval 0 0) (s + 1))) st2 = Inr st3" "retire s ino st3 = Inr st4"
        "ADDTIMER env (s + 1) ino st4 = Inr st'"
      using r off q by (auto simp: respond_def elim!: res_bindE)
    have u1: "qm_fs st1 = (qm_fs st)(mk_path act_dir (fmt_ld ino) := None)" "st1\<lparr>qm_fs := f\<rparr> = st\<lparr>qm_fs := f\<rparr>" "q_at st1 j = q_at st j"
        "in_range st1 j = in_range st j" for f j
      using unlink_eff(2) [OF u(1)] by simp_all
    obtain i where i: "qm_fs st1 ?o = Some i"
        "st2 = st1\<lparr>qm_fs := (if qm_fs st1 ?n = Some i then qm_fs st1 else (qm_fs st1)(?o := None, ?n := Some i))\<rparr>"
      using movefile_eff [OF u(2)] unfolding u1(3) by blast
    note st2 = i(2) [unfolded u1(1,2)]
    obtain c l where l: "elem_add (q_at st (s + 1)) (elem_new ino (Timeval 0 0) (s + 1)) = Inr (c, l)" "st3 = set_que (s + 1) l st2"
      using u(3) st2 by (auto elim!: on_queE)
    note wf = elem_add_wf [OF qinv_wf(1) [OF inv rg1(1)] l(1)]
    have inv3: "qm_inv st3" unfolding l(2) using inv_set_que [of st2 "s + 1" l] inv rg1 wf st2 by simp
    obtain h where "st' = st4\<lparr>qm_heap := h, qm_clock := qm_clock st4 + 1\<rparr>" using u(5) by (auto simp: ADDTIMER_def Let_def elim!: res_bindE)
    then show ?thesis
      using that(4) [OF off refl i(1) [unfolded u1(1)] refl, of l st4 h] wf inv3 u(4) unfolding l(2) st2 by blast
  qed
qed

text \<open>
  The steps as functions on the contents: queue \<open>j\<close> goes from \<open>xs\<close> to \<open>f j xs\<close>, its directory stays.
\<close>

definition becomes :: "qm \<Rightarrow> qm \<Rightarrow> (int \<Rightarrow> msg list \<Rightarrow> msg list) \<Rightarrow> bool" where
  "becomes st st' f \<longleftrightarrow> qm_countq st' = qm_countq st
     \<and> (\<forall>j \<ge> 0. live (q_at st' j) = f j (live (q_at st j)) \<and> dir (q_at st' j) = dir (q_at st j))"

lemma becomesD:
  assumes "becomes st st' f"
  shows "qm_countq st' = qm_countq st" "0 \<le> j \<Longrightarrow> live (q_at st' j) = f j (live (q_at st j))"
    "0 \<le> j \<Longrightarrow> dir (q_at st' j) = dir (q_at st j)"
  using assms by (auto simp: becomes_def)

abbreviation without :: "ino_t \<Rightarrow> msg list \<Rightarrow> msg list" where
  "without ino \<equiv> remove_first (\<lambda>m. m_inode m = ino)"

lemma retire_becomes:
  assumes inv: "qm_inv st" and s: "s \<noteq> ACT" and d: "retire s ino st = Inr st'"
  shows "becomes st st' (\<lambda>j xs. if j = ACT \<or> j = s then without ino xs else xs)" "qm_fs st' = qm_fs st"
proof -
  note law = retire_law [OF inv s d]
  have "live (q_at st' j) = (if j = ACT \<or> j = s then without ino (live (q_at st j)) else live (q_at st j))
      \<and> dir (q_at st' j) = dir (q_at st j)" if "0 \<le> j" for j
    using law(1-3,6) law(7) [OF that] by (cases "j = ACT"; cases "j = s") simp_all
  then show "becomes st st' (\<lambda>j xs. if j = ACT \<or> j = s then without ino xs else xs)" using law(13) by (simp add: becomes_def)
  show "qm_fs st' = qm_fs st" by (rule law(8))
qed

lemma set_que_becomes:
  assumes "in_range st i" and "live l = g (live (q_at st i))" and "dir l = dir (q_at st i)"
  shows "becomes st (set_que i l (st\<lparr>qm_fs := fs\<rparr>)) (\<lambda>j xs. if j = i then g xs else xs)"
  using q_at_set [of "st\<lparr>qm_fs := fs\<rparr>" i _ l] assms by (auto simp: becomes_def)

lemma dispatch_becomes:
  assumes inv: "qm_inv st" and q: "q \<noteq> ACT" and d: "dispatch env q ino st = Inr st'"
  shows "becomes st st' (\<lambda>j xs. if j = ACT then xs @ [elem_new ino (Timeval 0 0) q] else xs)"
proof -
  note law = dispatch_law [OF inv q d]
  have "live (q_at st' j) = (if j = ACT then live (q_at st j) @ [elem_new ino (Timeval 0 0) q] else live (q_at st j))
      \<and> dir (q_at st' j) = dir (q_at st j)" if "0 \<le> j" for j
    using law(1-3) law(4) [OF that] by (cases "j = ACT"; cases "j = q") (simp_all add: q)
  moreover have "qm_countq st' = qm_countq st" using dispatch_eff [OF inv q d] by (rule) simp
  ultimately show ?thesis by (simp add: becomes_def)
qed

text \<open>A file renamed or, when the goal is a link to it already, left where it is.\<close>

definition renamed :: "path \<Rightarrow> path \<Rightarrow> fsys \<Rightarrow> fsys" where
  "renamed src dst fs = (if fs dst = fs src then fs else fs(src := None, dst := fs src))"

lemma respond_becomes [consumes 3, case_names delivered received failed put_off]:
  assumes inv: "qm_inv st" and w: "in_work st ino s" and r: "respond env ino code s st = Inr (r, st')"
  obtains "code = 0" "becomes st st' (\<lambda>j xs. if j = ACT \<or> j = s then without ino xs else xs)"
      "qm_fs st' = (qm_fs st)(mk_path act_dir (fmt_ld ino) := None, mk_path (dir (q_at st s)) (fmt_ld ino) := None)"
  | "code = 1" "becomes st st' (\<lambda>j xs. xs)" "qm_fs st' = qm_fs st"
  | fs where "code \<noteq> 0" "code \<noteq> 1" "s = qm_countq st" "fs = (qm_fs st)(mk_path act_dir (fmt_ld ino) := None)"
      "fs (mk_path (dir (q_at st s)) (fmt_ld ino)) \<noteq> None" "becomes st st' (\<lambda>j xs. if j = ACT \<or> j = s then without ino xs else xs)"
      "qm_fs st' = renamed (mk_path (dir (q_at st s)) (fmt_ld ino)) (mk_path fail_dir (fmt_ld ino)) fs"
  | fs where "code \<noteq> 0" "code \<noteq> 1" "s < qm_countq st" "fs = (qm_fs st)(mk_path act_dir (fmt_ld ino) := None)"
      "fs (mk_path (dir (q_at st s)) (fmt_ld ino)) \<noteq> None"
      "becomes st st' (\<lambda>j xs. if j = ACT \<or> j = s then without ino xs
         else if j = s + 1 then xs @ [elem_new ino (Timeval 0 0) (s + 1)] else xs)"
      "qm_fs st' = renamed (mk_path (dir (q_at st s)) (fmt_ld ino)) (mk_path (dir (q_at st (s + 1))) (fmt_ld ino)) fs"
  using inv w r
proof (cases rule: respond_eff)
  case (delivered fs)
  have "qm_inv (st\<lparr>qm_fs := fs\<rparr>)" using inv by simp
  note ret = retire_becomes [OF this in_work_range(4) [OF inv w] delivered(4)]
  show ?thesis using that(1) [OF delivered(1)] ret delivered(3) by (simp add: becomes_def)
next
  case received
  then show ?thesis using that(2) [OF received(1)] q_at_set [OF in_work_range(3) [OF inv w]] by (simp add: becomes_def)
next
  case (failed fs i fs')
  have "qm_inv (st\<lparr>qm_fs := fs'\<rparr>)" using inv by simp
  note ret = retire_becomes [OF this in_work_range(4) [OF inv w] failed(7)]
  show ?thesis using that(3) [OF failed(1-4)] ret failed(5,6) by (simp add: becomes_def renamed_def)
next
  case (put_off fs i fs' l st3 h)
  note rg = in_work_range [OF inv w]
  have rg1: "in_range st (s + 1)" "s + 1 \<noteq> ACT" using put_off(3) rg(1) qinv_wf(4) [OF inv] by (auto simp: ACT_def)
  have b: "becomes st (set_que (s + 1) l (st\<lparr>qm_fs := fs'\<rparr>)) (\<lambda>j xs. if j = s + 1 then xs @ [elem_new ino (Timeval 0 0) (s + 1)] else xs)"
    by (rule set_que_becomes) (use rg1(1) put_off(7,8) in simp_all)
  note ret = retire_becomes [OF put_off(9) rg(4) put_off(10)]
  have "becomes st st' (\<lambda>j xs. if j = ACT \<or> j = s then without ino xs
      else if j = s + 1 then xs @ [elem_new ino (Timeval 0 0) (s + 1)] else xs)"
    using b ret(1) rg1(2) put_off(11) by (simp add: becomes_def)
  moreover have "qm_fs st' = fs'" using ret(2) put_off(11) by simp
  ultimately show ?thesis using that(4) [OF put_off(1-4)] put_off(5,6) by (simp add: renamed_def)
qed

lemma getfilename_in:
  assumes inv: "qm_inv st" and q: "in_range st q" "may_send w (q_at st q)" and g: "GETFILENAME q st = Inr ino"
  shows "ino \<in> inodes st q"
proof -
  obtain m where m: "msg_at (q_at st q) (send (q_at st q)) = Inr m" "ino = m_inode m"
    using g q(1) by (auto simp: GETFILENAME_def que_eq elim!: res_bindE)
  show ?thesis
  proof (cases "0 \<le> send (q_at st q)")
    case True
    note wf = qinv_wf(1) [OF inv q(1)]
    have "send (q_at st q) < total (q_at st q)" using q(2) by (simp add: may_send_def)
    with True show ?thesis using msg_at_live [OF wf True] m total_le_length [OF wf] by (auto simp: inodes_def)
  next
    case False
    then show ?thesis using m(1) by (auto simp: msg_at_def split: option.splits if_splits)
  qed
qed

lemma queue_sort_mset:
  assumes "env_ok env" and "wf_msglist l" and "queue_sort (q_qsort env) l = Inr l'"
  shows "mset (live l') = mset (live l) \<and> dir l' = dir l"
proof -
  obtain l1 where "queue_sort (q_qsort env) l = Inr l1" "mset (live l1) = mset (live l)" "l1 = l\<lparr>ml_msg := ml_msg l1\<rparr>"
    using queue_sort_law [OF assms(2)] assms(1) unfolding env_ok_def by blast
  then show ?thesis using assms(3) by (metis Inr_inject msglist.ext_inject msglist.surjective msglist.update_convs)
qed

section \<open>From steps to turns\<close>

text \<open>The responses and the entries of the drop directory that are read in a turn.\<close>

definition batch_responses :: "(drop_entry list option \<times> (ino_t \<times> int) list list) list \<Rightarrow> (ino_t \<times> int) set" where
  "batch_responses usr = set (concat (concat (map snd usr)))"

definition entries :: "drop_entry list option \<Rightarrow> drop_entry set" where
  "entries d = (case d of None \<Rightarrow> {} | Some es \<Rightarrow> set es)"

fun responses_in :: "poll_result \<Rightarrow> (ino_t \<times> int) set" where
  "responses_in (PollReady r) = (case rdy_pipe r of None \<Rightarrow> {} | Some rs \<Rightarrow> set rs) \<union> batch_responses (rdy_usr r)"
| "responses_in _ = {}"

fun entries_in :: "poll_result \<Rightarrow> drop_entry set" where
  "entries_in (PollReady r) = (case rdy_trig r of None \<Rightarrow> {} | Some td \<Rightarrow> entries (snd td)) \<union> (\<Union>x \<in> set (rdy_usr r). entries (fst x))"
| "entries_in _ = {}"

text \<open>
  A relation \<open>K R st st'\<close> between states, where \<open>R\<close> holds the responses read on the way; \<open>D\<close> says which entries of the drop
  directory are expected.
\<close>

locale turn_kept =
  fixes K :: "(ino_t \<times> int) set \<Rightarrow> qm \<Rightarrow> qm \<Rightarrow> bool" and D :: "drop_entry \<Rightarrow> bool"
  assumes K_trans: "K R a b \<Longrightarrow> K R' b c \<Longrightarrow> K (R \<union> R') a c"
    and K_mono: "K R a b \<Longrightarrow> R \<subseteq> R' \<Longrightarrow> K R' a b"
    and K_frame: "qm_list b = qm_list a \<Longrightarrow> qm_countq b = qm_countq a \<Longrightarrow> qm_fs b = qm_fs a \<Longrightarrow> K {} a b"
    and K_respond: "qm_inv st \<Longrightarrow> in_work st ino s \<Longrightarrow> respond env ino code s st = Inr (r, st') \<Longrightarrow> K {(ino, code)} st st'"
    and K_dispatch: "qm_inv st \<Longrightarrow> 1 \<le> q \<Longrightarrow> q \<le> qm_countq st \<Longrightarrow> ino \<in> inodes st q \<Longrightarrow> dispatch env q ino st = Inr st' \<Longrightarrow> K {} st st'"
    and K_take: "qm_inv st \<Longrightarrow> D e \<Longrightarrow> strtoul (de_name e) = de_ino e \<Longrightarrow> de_stat e = Some (ino, sec, nsec) \<Longrightarrow>
      mvfile os (mk_path drop_dir (de_name e)) (mk_path (dir (q_at st IN)) (de_name e)) (qm_fs st) = (r, fs) \<Longrightarrow> \<not> r < 0 \<Longrightarrow>
      live l = live (q_at st IN) @ [elem_new ino (Timeval sec (nsec div 1000)) IN] \<Longrightarrow> dir l = dir (q_at st IN) \<Longrightarrow>
      K {} st (set_que IN l (st\<lparr>qm_fs := fs\<rparr>))"
    and K_sort: "qm_inv st \<Longrightarrow> mset (live l) = mset (live (q_at st IN)) \<Longrightarrow> dir l = dir (q_at st IN) \<Longrightarrow> K {} st (set_que IN l st)"
begin

lemma K_refl: "K R st st"
  using K_mono [OF K_frame] by blast

lemma K_join: "K R a b \<Longrightarrow> K R' b c \<Longrightarrow> R \<union> R' \<subseteq> S \<Longrightarrow> K S a c"
  using K_mono [OF K_trans] by blast

lemma check_response_kept:
  assumes "qm_inv st" and "check_response env ino code st = Inr (r, st')"
  shows "K {(ino, code)} st st'"
proof (cases "first_idx (\<lambda>m. m_inode m = ino) (live (q_at st ACT))")
  case None
  then show ?thesis using assms K_refl by (simp add: check_response_eq)
next
  case (Some k)
  then have w: "in_work st ino (m_state (live (q_at st ACT) ! k))" by (simp add: in_work_def)
  then show ?thesis using K_respond [OF assms(1) w] assms(2) check_response_in_work [OF assms(1) w] by auto
qed

lemma read_responses_kept: "qm_inv st \<Longrightarrow> read_responses env rs n st = Inr (n', st') \<Longrightarrow> K (set rs) st st'"
proof (induction env rs n st rule: read_responses.induct)
  case (1 env n st)
  then show ?case using K_refl by simp
next
  case (2 env ino code rs n st)
  obtain r st1 where c: "check_response env ino code st = Inr (r, st1)"
      "read_responses env rs (if r > 0 then n + 1 else n) st1 = Inr (n', st')"
    using "2.prems"(2) by (auto elim!: res_bindE)
  have "K (set rs) st1 st'" using "2.IH" [OF c(1) refl _ c(2)] check_response_inv [OF "2.prems"(1) c(1)] by blast
  with check_response_kept [OF "2.prems"(1) c(1)] show ?case by (rule K_join) auto
qed

lemma send_kept:
  assumes inv: "qm_inv st" and q: "1 \<le> q" "q \<le> qm_countq st"
    and s: "(if may_send w (q_at st q) then res_bind (GETFILENAME q st) (\<lambda>ino. dispatch env q ino st) else Inr st) = Inr st'"
  shows "K {} st st'"
proof (cases "may_send w (q_at st q)")
  case True
  then obtain ino where "GETFILENAME q st = Inr ino" "dispatch env q ino st = Inr st'" using s by (auto elim!: res_bindE)
  moreover have "in_range st q" using q qinv_wf(4) [OF inv] by simp
  ultimately show ?thesis using getfilename_in [OF inv _ True] K_dispatch [OF inv q] by blast
qed (use s K_refl in auto)

lemma flush_loop_kept:
  "flush_loop env i bs n st = Some (Inr (n', bs', st')) \<Longrightarrow> qm_inv st \<Longrightarrow> K (set (concat bs)) st st'"
proof (induction env i bs n st rule: flush_loop.induct)
  case (1 env i bs n st)
  from "1.prems" show ?case
  proof (cases rule: flush_loop_cases)
    case done0
    then show ?thesis using K_refl by simp
  next
    case (step l st1 b bs1 m st2)
    have q: "1 \<le> int i" "int i \<le> qm_countq st" and l: "l = q_at st (int i)"
      using step(1,2) qinv_wf(4) [OF "1.prems"(2)] by (auto simp: que_eq split: if_splits)
    have k1: "K {} st st1" using send_kept [OF "1.prems"(2) q] step(4) l by blast
    have k2: "K (set b) st1 st2" using read_responses_kept [OF step(8,6)] .
    have k3: "K (set (concat bs1)) st2 st'" using "1.IH"(1) [OF step(1,2,3,4,5,6) refl step(7,9)] .
    show ?thesis using K_join [OF K_join [OF k1 k2 order_refl] k3] step(5) by simp
  next
    case (down l)
    then show ?thesis using "1.IH"(2) "1.prems"(2) by blast
  qed
qed

lemma scan_entries_kept:
  "qm_inv st \<Longrightarrow> \<forall>e \<in> set es. D e \<Longrightarrow> scan_entries env es n st = Inr (n', st') \<Longrightarrow> K {} st st'"
proof (induction es arbitrary: n st)
  case Nil
  then show ?case using K_refl by simp
next
  case (Cons e es)
  show ?case
  proof (cases "de_name e = CURDIR \<or> de_name e = PARENTDIR \<or> strtoul (de_name e) \<noteq> de_ino e")
    case True
    with Cons show ?thesis by (auto split: if_splits)
  next
    case False
    have rg: "in_range st IN" using qinv_wf(3) [OF Cons.prems(1)] .
    obtain r fs ino sec nsec st1 where s: "mvfile (q_os env) (mk_path drop_dir (de_name e)) (mk_path (dir (q_at st IN)) (de_name e)) (qm_fs st) = (r, fs)"
        "\<not> r < 0" "de_stat e = Some (ino, sec, nsec)"
        "on_que IN (\<lambda>l. elem_add l (elem_new ino (Timeval sec (nsec div 1000)) IN)) (st\<lparr>qm_fs := fs\<rparr>) = Inr st1"
        "scan_entries env es (n + 1) st1 = Inr (n', st')"
      using Cons.prems(3) False rg by (auto simp: que_eq Let_def elim!: res_bindE split: prod.splits if_splits option.splits)
    obtain c l where l: "elem_add (q_at st IN) (elem_new ino (Timeval sec (nsec div 1000)) IN) = Inr (c, l)" "st1 = set_que IN l (st\<lparr>qm_fs := fs\<rparr>)"
      using s(4) by (auto elim!: on_queE)
    note wf = elem_add_wf [OF qinv_wf(1) [OF Cons.prems(1) rg] l(1)]
    have "qm_inv st1" unfolding l(2) using inv_set_que [of "st\<lparr>qm_fs := fs\<rparr>" IN l] Cons.prems(1) rg wf by (simp add: ACT_def IN_def)
    then have "K {} st1 st'" using Cons.IH [OF _ _ s(5)] Cons.prems(2) by simp
    moreover have "K {} st st1" unfolding l(2)
      using K_take [OF Cons.prems(1) _ _ s(3) s(1,2)] Cons.prems(2) False wf by auto
    ultimately show ?thesis using K_join by blast
  qed
qed

lemma scan_drop_kept:
  assumes env: "env_ok env" and inv: "qm_inv st" and d: "\<forall>e \<in> entries d. D e" and s: "scan_drop env d st = Inr (n, st')"
  shows "K {} st st'"
proof -
  obtain es m st1 where st1: "d = Some es" "scan_entries env es 0 st = Inr (m, st1)"
      "(if m \<noteq> 0 then res_bind (on_que IN (\<lambda>l. res_bind (queue_sort (q_qsort env) l) (\<lambda>l. Inr (0, l))) st1) (\<lambda>st. Inr (m, st))
        else Inr (m, st1)) = Inr (n, st')"
    using s by (auto simp: scan_drop_def elim!: res_bindE split: option.splits)
  have inv1: "qm_inv st1" using scan_entries_inv [OF inv st1(2)] .
  have "K {} st1 st'"
  proof (cases "m = 0")
    case True
    then show ?thesis using st1(3) K_refl by simp
  next
    case False
    obtain l where l: "queue_sort (q_qsort env) (q_at st1 IN) = Inr l" "st' = set_que IN l st1"
      using st1(3) False by (auto elim!: res_bindE on_queE)
    have "mset (live l) = mset (live (q_at st1 IN)) \<and> dir l = dir (q_at st1 IN)"
      using queue_sort_mset [OF env qinv_wf(1) [OF inv1 qinv_wf(3) [OF inv1]] l(1)] .
    then show ?thesis unfolding l(2) using K_sort [OF inv1] by blast
  qed
  then show ?thesis using K_join [OF scan_entries_kept [OF inv _ st1(2)]] d st1(1) by (simp add: entries_def)
qed

text \<open>Changes of the fields that \<open>K\<close> does not see, before and after a step.\<close>

lemma K_pre: "K R a' b \<Longrightarrow> qm_list a' = qm_list a \<Longrightarrow> qm_countq a' = qm_countq a \<Longrightarrow> qm_fs a' = qm_fs a \<Longrightarrow> K R a b"
  using K_trans [OF K_frame [of a' a]] by simp

lemma K_post: "K R a b \<Longrightarrow> qm_list b' = qm_list b \<Longrightarrow> qm_countq b' = qm_countq b \<Longrightarrow> qm_fs b' = qm_fs b \<Longrightarrow> K R a b'"
  using K_trans [OF _ K_frame [of b' b]] by fastforce

lemma set_wait_kept: "set_wait env st = Inr st' \<Longrightarrow> K {} st st'"
  by (rule K_frame) (auto simp: set_wait_def Let_def elim!: res_bindE split: if_splits option.splits)

lemma before_poll_kept:
  assumes inv: "qm_inv st" and b: "before_poll env st = Inr st'"
  shows "K {} st st'"
proof (cases "qm_isconnect st > 0")
  case False
  then show ?thesis using b K_refl by (simp add: before_poll_def)
next
  case True
  note rg = qinv_wf(3) [OF inv]
  obtain st1 where st1: "(if may_send WINSIZE (q_at st IN)
      then res_bind (GETFILENAME IN st) (\<lambda>inode. dispatch env IN inode (st\<lparr>qm_fd0 := False\<rparr>))
      else if total (q_at st IN) = send (q_at st IN) then Inr (st\<lparr>qm_fd0 := True\<rparr>) else Inr st) = Inr st1"
      and w: "set_wait env st1 = Inr st'"
    using b True rg by (auto simp: before_poll_def que_eq elim!: res_bindE)
  have "K {} st st1"
  proof (cases "may_send WINSIZE (q_at st IN)")
    case True
    let ?st = "st\<lparr>qm_fd0 := False\<rparr>"
    obtain ino where d: "GETFILENAME IN st = Inr ino" "dispatch env IN ino ?st = Inr st1" using st1 True by (auto elim!: res_bindE)
    have "ino \<in> inodes ?st IN" using getfilename_in [OF inv rg True d(1)] by (simp add: inodes_def q_at_def)
    moreover have "qm_inv ?st" "1 \<le> IN" "IN \<le> qm_countq ?st" using inv rg qinv_wf(4) [OF inv] by (simp_all add: IN_def)
    ultimately have "K {} ?st st1" using K_dispatch d(2) by blast
    then show ?thesis using K_pre by simp
  next
    case False
    then show ?thesis using st1 by (intro K_frame) (auto split: if_splits)
  qed
  then show ?thesis using K_join [OF _ set_wait_kept [OF w]] by blast
qed

lemma on_timeout_kept:
  assumes inv: "qm_inv st" and m: "qm_minnode st = heap_min (qm_heap st)" and t: "on_timeout env st = Inr st'"
  shows "K {} st st'"
proof -
  obtain x where x: "qm_minnode st = Some x" using t by (auto simp: on_timeout_def split: option.splits)
  let ?st = "st\<lparr>qm_wait := -1\<rparr>" and ?q = "hn_indque x" and ?ino = "scast (hn_inode x) :: ino_t"
  have q: "2 \<le> ?q" "?q \<le> qm_countq st" using timers.peek_in [OF inv_heap_wf [OF inv]] m x inv by (auto simp: qm_inv_def)
  then have rg: "in_range st ?q" using qinv_wf(4) [OF inv] by simp
  note t' = t [unfolded on_timeout_def x option.case Let_def]
  obtain i where i: "elem_find (q_at st ?q) ?ino = Inr i"
    using t' rg by (auto simp: que_eq q_at_def in_range_def elim!: res_bindE)
  have lst: "que ?st ?q = Inr (q_at st ?q)" using rg by (simp add: que_eq in_range_def q_at_def)
  show ?thesis
  proof (cases "i < 0 \<or> \<not> may_send WINDEFSIZE (q_at st ?q)")
    case True
    then show ?thesis using t' i lst by (intro K_frame) (auto elim!: res_bindE split: if_splits)
  next
    case False
    obtain st1 where d: "dispatch env ?q ?ino ?st = Inr st1" and r: "qm_list st' = qm_list st1" "qm_countq st' = qm_countq st1" "qm_fs st' = qm_fs st1"
      using t' i lst False by (auto elim!: res_bindE)
    have "?ino \<in> inodes ?st ?q"
      using queue.find_found_iff [OF qinv_wf(1) [OF inv rg], of ?ino] i False by (auto simp: inodes_def q_at_def)
    moreover have "qm_inv ?st" "1 \<le> ?q" "?q \<le> qm_countq ?st" using inv q by simp_all
    ultimately have "K {} ?st st1" using K_dispatch d by blast
    then show ?thesis using K_post [OF K_pre] r by simp
  qed
qed

lemma on_signals_kept:
  "env_ok env \<Longrightarrow> qm_inv st \<Longrightarrow> \<forall>x \<in> set usr. \<forall>e \<in> entries (fst x). D e \<Longrightarrow>
   on_signals env cs usr st = Some (Inr st') \<Longrightarrow> K (batch_responses usr) st st'"
proof (induction cs arbitrary: usr st)
  case Nil
  then show ?case using K_refl by simp
next
  case (Cons c cs)
  let ?st = "st\<lparr>qm_sigpipe := tl (qm_sigpipe st)\<rparr>"
  note sig = Cons.prems(4) [simplified on_signals.simps Let_def]
  have rd: "q_sig_read env" using sig by (simp split: if_splits)
  consider (H) "c = CHR ''H''" | (U) "c = CHR ''U''" | (other) "c \<noteq> CHR ''H''" "c \<noteq> CHR ''U''" by blast
  then show ?case
  proof cases
    case H
    let ?st1 = "?st\<lparr>qm_wait := -1, qm_isconnect := 0, qm_fd0 := False, qm_fd1 := False\<rparr>"
    have "on_signals env cs usr ?st1 = Some (Inr st')" using sig H rd by simp
    then have "K (batch_responses usr) ?st1 st'" using Cons.IH [of ?st1 usr] Cons.prems(1-3) by simp
    then show ?thesis using K_pre by simp
  next
    case other
    then have "on_signals env cs usr ?st = Some (Inr st')" using sig rd by simp
    then have "K (batch_responses usr) ?st st'" using Cons.IH [of ?st usr] Cons.prems(1-3) by simp
    then show ?thesis using K_pre by simp
  next
    case U
    let ?st1 = "?st\<lparr>qm_isconnect := 1, qm_fd0 := True, qm_fd1 := True\<rparr>"
    obtain d bs usr' where usr: "usr = (d, bs) # usr'" using U sig rd by (cases usr) auto
    obtain n st2 where st2: "scan_drop env d ?st1 = Inr (n, st2)"
      using U sig usr rd by (cases "scan_drop env d ?st1") auto
    obtain n' bs' st3 where st3: "flush_loop env (nat (qm_countq st2)) bs 0 st2 = Some (Inr (n', bs', st3))"
        and rest: "on_signals env cs usr' (st3\<lparr>qm_kills := qm_kills st3 @ [''USR2'']\<rparr>) = Some (Inr st')"
      using U sig usr st2 rd by (auto simp: flush_queue_def split: option.splits sum.splits)
    have inv1: "qm_inv ?st1" using Cons.prems(2) by simp
    have inv2: "qm_inv st2" using scan_drop_inv [OF Cons.prems(1) inv1 st2] .
    have inv3: "qm_inv st3" using flush_loop_inv [OF st3 inv2] .
    have k1: "K {} ?st1 st2" using scan_drop_kept [OF Cons.prems(1) inv1 _ st2] Cons.prems(3) usr by simp
    have k2: "K (set (concat bs)) st2 st3" using flush_loop_kept [OF st3 inv2] .
    have "K (batch_responses usr') (st3\<lparr>qm_kills := qm_kills st3 @ [''USR2'']\<rparr>) st'"
      using Cons.IH [OF Cons.prems(1) _ _ rest] inv3 Cons.prems(3) usr by simp
    then have k3: "K (batch_responses usr') st3 st'" using K_pre by simp
    have "K (batch_responses usr) ?st1 st'"
      using K_join [OF K_join [OF k1 k2 order_refl] k3] usr by (simp add: batch_responses_def)
    then show ?thesis using K_pre by simp
  qed
qed

lemma on_ready_kept:
  assumes env: "env_ok env" and inv: "qm_inv st" and d: "\<forall>e \<in> entries_in (PollReady r). D e"
    and r: "on_ready env r st = Some (Inr st')"
  shows "K (responses_in (PollReady r)) st st'"
proof -
  let ?t = "case rdy_trig r of None \<Rightarrow> Inr st | Some (te, dropdir) \<Rightarrow> on_trigger env te dropdir st"
  obtain st1 where st1: "?t = Inr st1" using r by (cases ?t) (auto simp: on_ready_def)
  let ?p = "case rdy_pipe r of None \<Rightarrow> Inr (0, st1) | Some rs \<Rightarrow> read_responses env rs 0 st1"
  obtain n st2 where st2: "?p = Inr (n, st2)" using r st1 by (cases ?p) (auto simp: on_ready_def)
  have s: "if rdy_sig r then on_signals env (qm_sigpipe st2) (rdy_usr r) st2 = Some (Inr st') else st' = st2"
    using r st1 st2 by (auto simp: on_ready_def split: if_splits)
  have 1: "qm_inv st1 \<and> K {} st st1"
  proof (cases "rdy_trig r")
    case None
    then show ?thesis using st1 inv K_refl by simp
  next
    case (Some td)
    then obtain k where k: "scan_drop env (snd td) st = Inr (k, st1)"
      using st1 by (auto simp: on_trigger_def elim!: res_bindE split: if_splits prod.splits)
    show ?thesis using scan_drop_inv [OF env inv k] scan_drop_kept [OF env inv _ k] d Some by simp
  qed
  have 2: "qm_inv st2 \<and> K (case rdy_pipe r of None \<Rightarrow> {} | Some rs \<Rightarrow> set rs) st1 st2"
  proof (cases "rdy_pipe r")
    case None
    then show ?thesis using st2 1 K_refl by simp
  next
    case (Some rs)
    then have "read_responses env rs 0 st1 = Inr (n, st2)" using st2 by simp
    then show ?thesis using 1 Some read_responses_inv read_responses_kept by simp blast
  qed
  have "\<forall>x \<in> set (rdy_usr r). \<forall>e \<in> entries (fst x). D e" using d unfolding entries_in.simps by blast
  then have "K (batch_responses (rdy_usr r)) st2 st'" if "rdy_sig r"
    using s 2 that on_signals_kept [OF env] by auto
  then have "K (batch_responses (rdy_usr r)) st2 st'" using s K_refl by (cases "rdy_sig r") simp_all
  then show ?thesis by (rule K_join [OF K_join [OF 1 [THEN conjunct2] 2 [THEN conjunct2] order_refl]]) simp
qed

lemma main_turn_kept:
  assumes "qm_inv st" "wait_inv st" "env_ok env" "may_return env p st" and d: "\<forall>e \<in> entries_in p. D e"
    and t: "main_turn env p st = Some (Inr st')"
  shows "K (responses_in p) st st'"
proof -
  obtain st1 where b: "before_poll env st = Inr st1" and a: "after_poll env p st1 = Some (Inr st')"
    using t by (auto simp: main_turn_def split: sum.splits)
  note st1 = before_poll_inv [OF assms(1,2) b] and k1 = before_poll_kept [OF assms(1) b]
  have "K (responses_in p) st1 st'"
  proof (cases p)
    case PollTimeout
    then have "qm_minnode st1 = heap_min (qm_heap st1)" using st1 assms(4) b by (auto simp: may_return_def)
    then show ?thesis using on_timeout_kept [of st1 env st'] st1 a PollTimeout by (simp add: after_poll_def)
  next
    case (PollReady r)
    then have "on_ready env r st1 = Some (Inr st')" using a by (simp add: after_poll_def)
    then show ?thesis unfolding PollReady by (rule on_ready_kept [OF assms(3) _ d [unfolded PollReady], rotated]) (use st1 in simp)
  qed (use a in \<open>simp add: after_poll_def\<close>)
  then show ?thesis using K_join [OF k1] by simp
qed

end

end
