(* ===== verification/QuemngrLedger.thy ===== *)
theory QuemngrLedger
  imports QuemngrKeeps
begin

text \<open>
  No message is lost: what is queued stays queued until the child reports it delivered, or reports a failure of a message
  that has been through every queue, which is then in the failure directory.  The law is proved for the single steps and
  carried to whole runs of the manager by the locale \<open>turn_kept\<close>.
\<close>

section \<open>The ledger\<close>

text \<open>The directories the manager moves files out of are not the failure directory.\<close>

definition layout :: "qm \<Rightarrow> bool" where
  "layout st \<longleftrightarrow> (\<forall>q. 0 \<le> q \<and> q \<le> qm_countq st \<longrightarrow> strip_slash (dir (q_at st q)) \<noteq> strip_slash fail_dir)"

definition queued :: "qm \<Rightarrow> ino_t set" where
  "queued st = (\<Union>q \<in> {1..qm_countq st}. inodes st q)"

definition given_up :: "qm \<Rightarrow> ino_t \<Rightarrow> bool" where
  "given_up st ino \<longleftrightarrow> qm_fs st (mk_path fail_dir (fmt_ld ino)) \<noteq> None"

text \<open>\<open>R\<close> holds the responses read between the two states.\<close>

definition accounted :: "(ino_t \<times> int) set \<Rightarrow> qm \<Rightarrow> qm \<Rightarrow> bool" where
  "accounted R st st' \<longleftrightarrow>
     (\<forall>ino \<in> queued st. ino \<in> queued st' \<or> (ino, 0) \<in> R \<or> ((\<exists>code. code \<noteq> 0 \<and> code \<noteq> 1 \<and> (ino, code) \<in> R) \<and> given_up st' ino))
     \<and> (\<forall>ino. given_up st ino \<longrightarrow> given_up st' ino)"

definition ledger :: "(ino_t \<times> int) set \<Rightarrow> qm \<Rightarrow> qm \<Rightarrow> bool" where
  "ledger R st st' \<longleftrightarrow> (layout st \<longrightarrow> layout st' \<and> accounted R st st')"

lemma fixed_dirs: "strip_slash act_dir \<noteq> strip_slash fail_dir" "strip_slash drop_dir \<noteq> strip_slash fail_dir"
  "strip_slash in_dir \<noteq> strip_slash fail_dir"
  by code_simp+

lemma becomes_layout: "becomes st st' f \<Longrightarrow> layout st' = layout st"
  by (simp add: layout_def becomes_def)

lemma becomes_queued:
  assumes b: "becomes st st' f" and i: "ino \<in> queued st"
    and f: "\<And>q m xs. 1 \<le> q \<Longrightarrow> q \<le> qm_countq st \<Longrightarrow> m \<in> set xs \<Longrightarrow> m_inode m = ino \<Longrightarrow> m \<in> set (f q xs)"
  shows "ino \<in> queued st'"
proof -
  obtain q m where q: "1 \<le> q" "q \<le> qm_countq st" "m \<in> set (live (q_at st q))" "m_inode m = ino"
    using i by (auto simp: queued_def inodes_def)
  have "m \<in> set (live (q_at st' q))" using f [OF q] becomesD(2) [OF b, of q] q(1) by simp
  then show ?thesis using q becomesD(1) [OF b] by (auto simp: queued_def inodes_def)
qed

lemma in_without: "m \<in> set xs \<Longrightarrow> m_inode m \<noteq> ino \<Longrightarrow> m \<in> set (without ino xs)"
  by (induction xs) auto

lemma renamed_other: "p \<noteq> src \<Longrightarrow> p \<noteq> dst \<Longrightarrow> renamed src dst fs p = fs p"
  by (simp add: renamed_def)

lemma renamed_dst: "renamed src dst fs dst = fs src"
  by (simp add: renamed_def)

lemma accounted_keep:
  assumes "\<And>ino. ino \<in> queued st \<Longrightarrow> ino \<in> queued st'" and "\<And>ino. given_up st ino \<Longrightarrow> given_up st' ino"
  shows "accounted R st st'"
  using assms by (auto simp: accounted_def)

lemma kept_others:
  assumes "becomes st st' f" and "x \<in> queued st" and "x \<noteq> ino"
    and "\<And>q m xs. m_inode m \<noteq> ino \<Longrightarrow> m \<in> set xs \<Longrightarrow> m \<in> set (f q xs)"
  shows "x \<in> queued st'"
  by (rule becomes_queued [OF assms(1,2)]) (use assms(3,4) in blast)

lemma failed_given_up:
  assumes fs: "fs = (qm_fs st)(mk_path act_dir (fmt_ld ino) := None)" "fs (mk_path d (fmt_ld ino)) \<noteq> None"
    and fs': "qm_fs st' = renamed (mk_path d (fmt_ld ino)) (mk_path fail_dir (fmt_ld ino)) fs"
  shows "given_up st' ino" "given_up st x \<Longrightarrow> given_up st' x"
proof -
  show g: "given_up st' ino" using fs(2) fs' by (simp add: given_up_def renamed_dst)
  show "given_up st x \<Longrightarrow> given_up st' x"
  proof (cases "x = ino")
    case False
    then have "qm_fs st' (mk_path fail_dir (fmt_ld x)) = qm_fs st (mk_path fail_dir (fmt_ld x))"
      using fs(1) fs' fixed_dirs(1) by (simp add: renamed_other mk_path_eq fmt_ld_inj)
    then show "given_up st x \<Longrightarrow> given_up st' x" by (simp add: given_up_def)
  qed (use g in simp)
qed

lemma ledger_respond:
  assumes inv: "qm_inv st" and w: "in_work st ino s" and r: "respond env ino code s st = Inr (r, st')"
  shows "ledger {(ino, code)} st st'"
  unfolding ledger_def
proof
  assume lay: "layout st"
  note rg = in_work_range [OF inv w]
  have ne: "strip_slash (dir (q_at st j)) \<noteq> strip_slash fail_dir" if "1 \<le> j" "j \<le> qm_countq st" for j
    using lay that by (simp add: layout_def)
  from inv w r show "layout st' \<and> accounted {(ino, code)} st st'"
  proof (cases rule: respond_becomes)
    case delivered
    have "x \<in> queued st \<Longrightarrow> x \<noteq> ino \<Longrightarrow> x \<in> queued st'" for x
      by (rule kept_others [OF delivered(2)]) (auto intro: in_without)
    moreover have "given_up st x \<Longrightarrow> given_up st' x" for x
      using delivered(3) fixed_dirs(1) ne [OF rg(1,2)] by (auto simp: given_up_def mk_path_eq)
    ultimately show ?thesis using lay becomes_layout [OF delivered(2)] delivered(1) by (auto simp: accounted_def)
  next
    case received
    have "x \<in> queued st \<Longrightarrow> x \<in> queued st'" for x by (rule becomes_queued [OF received(2)])
    then show ?thesis using lay becomes_layout [OF received(2)] received(3) by (auto simp: given_up_def intro!: accounted_keep)
  next
    case (failed fs)
    have "x \<in> queued st \<Longrightarrow> x \<noteq> ino \<Longrightarrow> x \<in> queued st'" for x
      by (rule kept_others [OF failed(6)]) (auto intro: in_without)
    then show ?thesis using lay becomes_layout [OF failed(6)] failed(1,2) failed_given_up [OF failed(4,5,7)] by (auto simp: accounted_def)
  next
    case (put_off fs)
    have "elem_new ino (Timeval 0 0) (s + 1) \<in> set (live (q_at st' (s + 1)))"
      using becomesD(2) [OF put_off(6), of "s + 1"] rg(1) by (simp add: ACT_def)
    then have "ino \<in> inodes st' (s + 1)" by (auto simp: inodes_def elem_new_def intro!: image_eqI)
    then have "ino \<in> queued st'" using put_off(3) rg(1) becomesD(1) [OF put_off(6)] by (auto simp: queued_def intro!: bexI [of _ "s + 1"])
    moreover have "x \<in> queued st \<Longrightarrow> x \<noteq> ino \<Longrightarrow> x \<in> queued st'" for x
      by (rule kept_others [OF put_off(6)]) (auto intro: in_without)
    ultimately have "x \<in> queued st \<Longrightarrow> x \<in> queued st'" for x by metis
    moreover have "given_up st x \<Longrightarrow> given_up st' x" for x
      using put_off(3,4,7) fixed_dirs(1) ne [OF rg(1,2)] ne [of "s + 1"] rg(1) by (simp add: given_up_def renamed_other mk_path_eq)
    ultimately show ?thesis using lay becomes_layout [OF put_off(6)] by (auto intro!: accounted_keep)
  qed
qed

lemma ledger_step:
  assumes b: "becomes st st' f" and f: "\<And>q m xs. 1 \<le> q \<Longrightarrow> q \<le> qm_countq st \<Longrightarrow> m \<in> set xs \<Longrightarrow> m \<in> set (f q xs)"
    and g: "\<And>ino. layout st \<Longrightarrow> given_up st ino \<Longrightarrow> given_up st' ino"
  shows "ledger {} st st'"
proof -
  have "x \<in> queued st \<Longrightarrow> x \<in> queued st'" for x by (rule becomes_queued [OF b]) (use f in blast)+
  then show ?thesis using g becomes_layout [OF b] by (auto simp: ledger_def intro!: accounted_keep)
qed

lemma ledger_dispatch:
  assumes inv: "qm_inv st" and q: "1 \<le> q" and d: "dispatch env q ino st = Inr st'"
  shows "ledger {} st st'"
proof -
  have qa: "q \<noteq> ACT" using q by (simp add: ACT_def)
  have "0 \<le> qm_countq st" using qinv_wf(3) [OF inv] qinv_wf(4) [OF inv] by (auto simp: IN_def)
  then show ?thesis using dispatch_law(7) [OF inv qa d]
    by (intro ledger_step [OF dispatch_becomes [OF inv qa d]]) (auto simp: given_up_def mk_path_eq layout_def ACT_def)
qed

lemma ledger_take:
  assumes inv: "qm_inv st" and m: "mvfile os (mk_path drop_dir n) (mk_path (dir (q_at st IN)) n) (qm_fs st) = (r, fs)" "\<not> r < 0"
    and l: "live l = live (q_at st IN) @ [e]" "dir l = dir (q_at st IN)"
  shows "ledger {} st (set_que IN l (st\<lparr>qm_fs := fs\<rparr>))"
proof (rule ledger_step)
  show "becomes st (set_que IN l (st\<lparr>qm_fs := fs\<rparr>)) (\<lambda>j xs. if j = IN then xs @ [e] else xs)"
    by (rule set_que_becomes) (use qinv_wf(3) [OF inv] l in simp_all)
next
  fix ino assume lay: "layout st" and g: "given_up st ino"
  have "IN \<le> qm_countq st" using qinv_wf(3) [OF inv] qinv_wf(4) [OF inv] by simp
  then have "strip_slash (dir (q_at st IN)) \<noteq> strip_slash fail_dir" using lay by (simp add: layout_def IN_def)
  moreover obtain i where "fs = (if qm_fs st (mk_path (dir (q_at st IN)) n) = Some i then qm_fs st
      else (qm_fs st)(mk_path drop_dir n := None, mk_path (dir (q_at st IN)) n := Some i))"
    using mvfile_eff [OF m] .
  ultimately show "given_up (set_que IN l (st\<lparr>qm_fs := fs\<rparr>)) ino"
    using g fixed_dirs(2) by (simp add: given_up_def mk_path_eq)
qed simp_all

lemma ledger_sort:
  assumes inv: "qm_inv st" and l: "mset (live l) = mset (live (q_at st IN))" "dir l = dir (q_at st IN)"
  shows "ledger {} st (set_que IN l st)"
proof -
  have "q_at (set_que IN l st) q = (if q = IN then l else q_at st q)" if "0 \<le> q" for q using q_at_set [OF qinv_wf(3) [OF inv] that] .
  then have "inodes (set_que IN l st) q = inodes st q" "dir (q_at (set_que IN l st) q) = dir (q_at st q)" if "0 \<le> q" for q
    using that l mset_eq_setD [OF l(1)] by (simp_all add: inodes_def)
  then have "queued (set_que IN l st) = queued st" "layout (set_que IN l st) = layout st"
    by (simp_all add: queued_def layout_def)
  then show ?thesis by (simp add: ledger_def accounted_def given_up_def)
qed

lemma ledger_frame:
  assumes "qm_list b = qm_list a" and "qm_countq b = qm_countq a" and "qm_fs b = qm_fs a"
  shows "ledger {} a b"
proof -
  have "q_at b q = q_at a q" for q using assms(1) by (simp add: q_at_def)
  then show ?thesis using assms by (simp add: ledger_def accounted_def given_up_def queued_def inodes_def layout_def)
qed

lemma ledger_trans: "ledger R a b \<Longrightarrow> ledger R' b c \<Longrightarrow> ledger (R \<union> R') a c"
  unfolding ledger_def accounted_def by blast

interpretation ledger: turn_kept ledger "\<lambda>e. True"
proof (unfold_locales, goal_cases)
  case (1 R a b R' c)
  then show ?case by (rule ledger_trans)
next
  case (2 R a b R')
  then show ?case unfolding ledger_def accounted_def by blast
next
  case (3 b a)
  then show ?case by (rule ledger_frame)
next
  case (4 st ino s env code r st')
  then show ?case by (rule ledger_respond)
next
  case (5 st q ino env st')
  then show ?case using ledger_dispatch by blast
next
  case (6 st e ino sec nsec os r fs l)
  then show ?case using ledger_take by blast
next
  case (7 st l)
  then show ?case by (rule ledger_sort)
qed

section \<open>The directories of the queues\<close>

text \<open>They are chosen at the start and stay.\<close>

lemma on_que_dirs:
  assumes "on_que i f st = Inr st'" and "\<And>r l. f (q_at st i) = Inr (r, l) \<Longrightarrow> dir l = dir (q_at st i)"
  shows "map dir (qm_list st') = map dir (qm_list st)"
proof -
  obtain r l where l: "in_range st i" "f (q_at st i) = Inr (r, l)" "st' = set_que i l st" using assms(1) by (rule on_queE)
  then have "dir l = map dir (qm_list st) ! nat i" using assms(2) [OF l(2)] l(1) by (simp add: q_at_def in_range_def nat_less_iff)
  then show ?thesis using l(1,3) by (simp add: set_que_def map_update)
qed

lemma elem_add_dir:
  assumes "elem_add l e = Inr (n, l')"
  shows "dir l' = dir l"
  using assms by (auto simp: elem_add_def elem_store_def Let_def elim!: res_bindE split: option.splits if_splits)

lemma queue_restore_dir:
  assumes "queue_restore l i w = Inr (r, l')"
  shows "dir l' = dir l"
proof -
  have "queue_restore_entries l i es = Inr l' \<Longrightarrow> dir l' = dir l" for es l
    by (induction es arbitrary: l) (auto elim!: res_bindE dest!: elem_add_dir split: if_splits option.splits)
  then show ?thesis using assms by (auto simp: queue_restore_def elim!: res_bindE split: option.splits)
qed

lemma queue_sort_dir: "queue_sort f l = Inr l' \<Longrightarrow> dir l' = dir l"
  by (auto simp: queue_sort_def Let_def elim!: res_bindE split: option.splits if_splits)

lemma restore_queues_dirs: "restore_queues env rd n i st = Inr st' \<Longrightarrow> map dir (qm_list st') = map dir (qm_list st)"
proof (induction n arbitrary: i st)
  case (Suc n)
  obtain st1 st2 where st: "on_que i (\<lambda>l. queue_restore l i (rd (dir l))) st = Inr st1"
      "on_que i (\<lambda>l. res_bind (queue_sort (q_qsort env) l) (\<lambda>l. Inr (0, l))) st1 = Inr st2" "restore_queues env rd n (i + 1) st2 = Inr st'"
    using Suc.prems by (auto elim!: res_bindE)
  have "map dir (qm_list st1) = map dir (qm_list st)" using on_que_dirs [OF st(1)] queue_restore_dir by blast
  moreover have "map dir (qm_list st2) = map dir (qm_list st1)"
    by (rule on_que_dirs [OF st(2)]) (auto elim!: res_bindE dest: queue_sort_dir)
  ultimately show ?case using Suc.IH [OF st(3)] by simp
qed simp

lemma add_deferred_dirs:
  "add_deferred es c ql = Inr (c', ql') \<Longrightarrow> int (length ql) = c + 1 \<Longrightarrow> dir ` set ql' \<subseteq> dir ` set ql \<union> range (\<lambda>n. df_dir @ n)"
proof (induction es arbitrary: c ql)
  case (Cons e es)
  show ?case
  proof (cases "df_name e = CURDIR \<or> df_name e = PARENTDIR \<or> df_stat e = Some False \<or> \<not> calctimeout (df_name e) > 0")
    case True
    then show ?thesis using Cons by (auto split: if_splits option.splits)
  next
    case False
    let ?q = "msglist_zero\<lparr>dir := df_dir @ df_name e, timeout := calctimeout (df_name e)\<rparr>"
    have "add_deferred es (int (length ql)) (ql @ [?q]) = Inr (c', ql')"
      using Cons.prems(1) False by (auto simp: queue_add_def split: if_splits option.splits)
    from Cons.IH [OF this] show ?thesis by auto
  qed
qed auto

lemma strip_slash_df: "\<exists>r. strip_slash (df_dir @ n) = ''./df'' @ r"
proof (cases "\<forall>c \<in> set n. c = CHR ''/''")
  case True
  then have "strip_slash (df_dir @ n) = strip_slash df_dir" unfolding strip_slash_def rev_append by (subst dropWhile_append2) auto
  then show ?thesis by (simp add: strip_slash_def df_dir_def)
next
  case False
  then have "strip_slash (df_dir @ n) = df_dir @ strip_slash n" by (auto simp: strip_slash_def dropWhile_append1)
  then show ?thesis by (simp add: df_dir_def)
qed

lemma df_not_fail: "strip_slash (df_dir @ n) \<noteq> strip_slash fail_dir"
proof -
  obtain r where "strip_slash (df_dir @ n) = ''./df'' @ r" using strip_slash_df by blast
  moreover have "strip_slash fail_dir = ''./fail''" by code_simp
  ultimately show ?thesis by simp
qed

lemma initqueue_layout:
  assumes env: "env_ok env" and s: "is_qsort queue_comp sortq" and q: "initqueue env sortq w rd d st = Inr st'"
  shows "layout st'"
proof -
  let ?ql = "[msglist_zero\<lparr>dir := act_dir, timeout := 0, total := -1\<rparr>, msglist_zero\<lparr>dir := in_dir, timeout := 0\<rparr>]"
  obtain es c ql k st2 where a: "add_deferred es 1 ?ql = Inr (c, ql)"
    and r: "restore_queues env rd (nat c) 1 (st\<lparr>qm_list := sortq ql, qm_countq := c,
      qm_heap := heap_create (q_junk env) TIMERHEAPSIZE\<rparr>) = Inr st2"
    and d: "scan_drop env d st2 = Inr (k, st')"
    using q by (auto simp: initqueue_def queue_add_def Let_def elim!: res_bindE split: option.splits)
  have inv2: "qm_inv st2" using initqueue_restored_inv [OF env s a r] .
  have "map dir (qm_list st2) = map dir (sortq ql)" using restore_queues_dirs [OF r] by simp
  then have "dir ` set (qm_list st2) = dir ` set (sortq ql)" by (metis list.set_map)
  then have dirs: "dir ` set (qm_list st2) \<subseteq> {act_dir, in_dir} \<union> range (\<lambda>n. df_dir @ n)"
    using add_deferred_dirs [OF a] is_qsort_set [OF s] by auto
  have "strip_slash (dir (q_at st2 q)) \<noteq> strip_slash fail_dir" if "0 \<le> q" "q \<le> qm_countq st2" for q
  proof -
    have "q_at st2 q \<in> set (qm_list st2)" using that inv2 by (auto simp: q_at_def qm_inv_def intro!: nth_mem)
    then have "dir (q_at st2 q) \<in> {act_dir, in_dir} \<union> range (\<lambda>n. df_dir @ n)" using dirs by blast
    then show ?thesis using fixed_dirs df_not_fail by auto
  qed
  then have "layout st2" by (simp add: layout_def)
  then show ?thesis using ledger.scan_drop_kept [OF env inv2 _ d] by (simp add: ledger_def)
qed

section \<open>Runs\<close>

text \<open>
  A handler of SIGTERM that returns found an active queue that has never held a message, and removed no file.
\<close>

lemma sig_term_frame:
  assumes inv: "qm_inv st" and t: "sig_term st = Inr st'"
  shows "qm_list st' = qm_list st \<and> qm_countq st' = qm_countq st \<and> qm_fs st' = qm_fs st"
proof -
  let ?l = "q_at st ACT"
  note act = qinv_wf(2) [OF inv]
  have "\<not> 0 \<le> total ?l"
  proof
    assume n: "0 \<le> total ?l"
    have "wf_msglist ?l" using qinv_wf(1) [OF inv act] .
    then have "\<exists>e. msg_at ?l (total ?l) = Inl e"
    proof (cases rule: wf_msglist_cases)
      case (cells ms rest)
      then show ?thesis by (cases rest) (auto simp: msg_at_def nth_append)
    qed (simp add: msg_at_def)
    then show False using t n act by (auto simp: sig_term_def que_eq term_unlink.simps [of "nat (total ?l)"] elim!: res_bindE)
  qed
  then show ?thesis using t act by (auto simp: sig_term_def que_eq elim!: res_bindE split: if_splits)
qed

lemma sig_chld_frame:
  assumes inv: "qm_inv st" and t: "sig_chld pid st = Inr st'"
  shows "qm_list st' = qm_list st \<and> qm_countq st' = qm_countq st \<and> qm_fs st' = qm_fs st"
proof (cases "pid = qm_childpid st")
  case True
  then have "sig_term (st\<lparr>qm_childpid := 0\<rparr>) = Inr st'" using t by (simp add: sig_chld_def)
  then show ?thesis using sig_term_frame [of "st\<lparr>qm_childpid := 0\<rparr>" st'] inv by simp
qed (use t in \<open>simp add: sig_chld_def\<close>)

lemma flag_frame:
  "sig_hup env st = Inr st' \<Longrightarrow> qm_list st' = qm_list st \<and> qm_countq st' = qm_countq st \<and> qm_fs st' = qm_fs st"
  "sig_usr1 env st = Inr st' \<Longrightarrow> qm_list st' = qm_list st \<and> qm_countq st' = qm_countq st \<and> qm_fs st' = qm_fs st"
  by (auto simp: sig_hup_def sig_usr1_def flag_signal_def split: if_splits)

lemma layout_frame: "qm_list b = qm_list a \<and> qm_countq b = qm_countq a \<and> qm_fs b = qm_fs a \<Longrightarrow> layout b = layout a"
  by (simp add: layout_def q_at_def)

lemma reach_layout: "qm_reach st \<Longrightarrow> layout st"
proof (induction rule: qm_reach.induct)
  case (start env sortq se w rd d fs st)
  obtain st1 where i: "initqueue env sortq w rd d (qm_zero fs) = Inr st1" and "qm_list st = qm_list st1" "qm_countq st = qm_countq st1"
    using start(3) by (auto simp: quemngr_start_def start_child_def start_trigger_def elim!: res_bindE split: if_splits)
  then show ?case using initqueue_layout [OF start(1,2) i] by (simp add: layout_def q_at_def)
next
  case (turn st env p st')
  then have "ledger (responses_in p) st st'" using ledger.main_turn_kept qm_reach_inv [OF turn(1)] by blast
  then show ?case using turn.IH by (simp add: ledger_def)
next
  case (hup st env st')
  then show ?case using layout_frame flag_frame(1) by blast
next
  case (usr1 st env st')
  then show ?case using layout_frame flag_frame(2) by blast
next
  case (sigterm st st')
  then show ?case using layout_frame sig_term_frame qm_reach_inv by blast
next
  case (chld st pid st')
  then show ?case using layout_frame sig_chld_frame qm_reach_inv by blast
next
  case (files st fs)
  then show ?case by (simp add: layout_def)
qed

text \<open>
  A run from one state to another, with the responses read on the way: turns of the main loop, signals, and other
  processes that change the drop directory.
\<close>

inductive qm_run :: "(ino_t \<times> int) set \<Rightarrow> qm \<Rightarrow> qm \<Rightarrow> bool" where
  empty: "qm_run {} st st"
| turn: "qm_run R st st1 \<Longrightarrow> env_ok env \<Longrightarrow> may_return env p st1 \<Longrightarrow> main_turn env p st1 = Some (Inr st2) \<Longrightarrow>
    qm_run (R \<union> responses_in p) st st2"
| hup: "qm_run R st st1 \<Longrightarrow> sig_hup env st1 = Inr st2 \<Longrightarrow> qm_run R st st2"
| usr1: "qm_run R st st1 \<Longrightarrow> sig_usr1 env st1 = Inr st2 \<Longrightarrow> qm_run R st st2"
| sigterm: "qm_run R st st1 \<Longrightarrow> sig_term st1 = Inr st2 \<Longrightarrow> qm_run R st st2"
| chld: "qm_run R st st1 \<Longrightarrow> sig_chld pid st1 = Inr st2 \<Longrightarrow> qm_run R st st2"
| spool: "qm_run R st st1 \<Longrightarrow> \<forall>p. path_dir p \<noteq> strip_slash drop_dir \<longrightarrow> fs p = qm_fs st1 p \<Longrightarrow> qm_run R st (st1\<lparr>qm_fs := fs\<rparr>)"

lemma ledger_then: "ledger R a b \<Longrightarrow> qm_list c = qm_list b \<and> qm_countq c = qm_countq b \<and> qm_fs c = qm_fs b \<Longrightarrow> ledger R a c"
  using ledger_trans [OF _ ledger_frame] by fastforce

lemma run_ledger: "qm_run R st st' \<Longrightarrow> qm_reach st \<Longrightarrow> qm_reach st' \<and> ledger R st st'"
proof (induction rule: qm_run.induct)
  case (empty st)
  then show ?case using ledger.K_refl by blast
next
  case (turn R st st1 env p st2)
  have r: "qm_reach st1" using turn by blast
  then have "ledger (responses_in p) st1 st2" using ledger.main_turn_kept [OF _ _ turn(2,3) _ turn(4)] qm_reach_inv by blast
  then show ?case using turn ledger_trans qm_reach.turn [OF r turn(2-4)] by blast
next
  case (hup R st st1 env st2)
  then show ?case using ledger_then flag_frame(1) qm_reach.hup by blast
next
  case (usr1 R st st1 env st2)
  then show ?case using ledger_then flag_frame(2) qm_reach.usr1 by blast
next
  case (sigterm R st st1 st2)
  then show ?case using ledger_then sig_term_frame qm_reach_inv qm_reach.sigterm by blast
next
  case (chld R st st1 pid st2)
  then show ?case using ledger_then sig_chld_frame qm_reach_inv qm_reach.chld by blast
next
  case (spool R st st1 fs)
  have "fs (mk_path fail_dir n) = qm_fs st1 (mk_path fail_dir n)" for n
    using spool(2) fixed_dirs(2) by (simp add: mk_path_def path_dir_def)
  then have "ledger {} st1 (st1\<lparr>qm_fs := fs\<rparr>)"
    by (simp add: ledger_def accounted_def given_up_def queued_def inodes_def layout_def)
  then show ?case using spool ledger_trans [of R st st1 "{}"] qm_reach.files by auto
qed

text \<open>
  C2. No message is lost.  A message that is in one of the queues, whatever happens then (any number of turns, signals in
  any order, whatever the child answers and whatever files are dropped): it is still in a queue, or the child has reported
  it delivered (code 0), or the child has reported a failure of it and its file is in the failure directory.
\<close>

theorem no_message_lost:
  assumes "qm_reach st" and "qm_run R st st'" and "1 \<le> q" and "q \<le> qm_countq st" and "ino \<in> inodes st q"
  shows "(\<exists>q'. 1 \<le> q' \<and> q' \<le> qm_countq st' \<and> ino \<in> inodes st' q') \<or> (ino, 0) \<in> R
    \<or> ((\<exists>code. code \<noteq> 0 \<and> code \<noteq> 1 \<and> (ino, code) \<in> R) \<and> qm_fs st' (mk_path fail_dir (fmt_ld ino)) \<noteq> None)"
proof -
  have "ino \<in> queued st" using assms(3-5) by (auto simp: queued_def)
  moreover have "accounted R st st'" using run_ledger [OF assms(2,1)] reach_layout [OF assms(1)] by (simp add: ledger_def)
  ultimately have "ino \<in> queued st' \<or> (ino, 0) \<in> R \<or> ((\<exists>code. code \<noteq> 0 \<and> code \<noteq> 1 \<and> (ino, code) \<in> R) \<and> given_up st' ino)"
    by (simp add: accounted_def)
  then show ?thesis by (auto simp: queued_def given_up_def)
qed

lemma demo_failed_view:
  "map_option (\<lambda>st. (map m_inode (live (q_at st 1)), map_option (\<lambda>st'. qm_fs st' (mk_path fail_dir (fmt_ld 7))) (demo_turns [demo_failed 7] st)))
     (demo_run 7) = Some ([7], Some None)"
  by code_simp

theorem no_message_lost_witness:
  "\<exists>st st'. qm_reach st \<and> qm_run {(7, 1), (7, 5)} st st' \<and> 7 \<in> inodes st 1
    \<and> (\<exists>q'. 1 \<le> q' \<and> q' \<le> qm_countq st' \<and> 7 \<in> inodes st' q')"
proof -
  obtain st where st: "demo_run 7 = Some st" "qm_reach st" "qm_countq st = 2" by (rule demo_state)
  note v = demo_failed_view [unfolded st(1), simplified]
  obtain st' where t: "main_turn demo_env (demo_failed 7) st = Some (Inr st')" "qm_fs st' (mk_path fail_dir (fmt_ld 7)) = None"
    using v by (auto split: option.splits sum.splits)
  have "may_return demo_env (demo_failed 7) st" by (simp add: may_return_def demo_failed_def split: sum.split)
  then have "qm_run ({} \<union> responses_in (demo_failed 7)) st st'" using qm_run.turn [OF qm_run.empty demo_env_ok _ t(1)] by blast
  then have run: "qm_run {(7, 1), (7, 5)} st st'" by (simp add: demo_failed_def batch_responses_def)
  have i: "7 \<in> inodes st 1" using v by (auto simp: inodes_def)
  have "\<exists>q'. 1 \<le> q' \<and> q' \<le> qm_countq st' \<and> 7 \<in> inodes st' q'"
    using no_message_lost [OF st(2) run _ _ i] st(3) t(2) by simp
  with st(2) run i show ?thesis by blast
qed

end
