(* ===== verification/QuemngrFiles.thy ===== *)
theory QuemngrFiles
  imports QuemngrLedger
begin

text \<open>
  The queues and the directories: in every state the manager reaches, as long as the other processes keep to the rules of
  the spool (a file is dropped under its own inode number), the messages of a queue are the files of its directory.  So the
  directories are all a new start needs.
\<close>

section \<open>Places of a message's file\<close>

text \<open>The queues by their index, the failure directory as \<open>-2\<close> and the drop directory as \<open>-1\<close>.\<close>

definition DROP :: int where "DROP = -1"
definition FAIL :: int where "FAIL = -2"

definition place :: "qm \<Rightarrow> int \<Rightarrow> string" where
  "place st q = (if q = DROP then drop_dir else if q = FAIL then fail_dir else dir (q_at st q))"

definition file_of :: "qm \<Rightarrow> int \<Rightarrow> ino_t \<Rightarrow> ino_t option" where
  "file_of st q ino = qm_fs st (mk_path (place st q) (fmt_ld ino))"

abbreviation held :: "qm \<Rightarrow> int \<Rightarrow> bool" where
  "held st q \<equiv> -2 \<le> q \<and> q \<le> qm_countq st"

definition dirs_ok :: "qm \<Rightarrow> bool" where
  "dirs_ok st \<longleftrightarrow> dir (q_at st ACT) = act_dir \<and> dir (q_at st IN) = in_dir
     \<and> (\<forall>q. 2 \<le> q \<and> q \<le> qm_countq st \<longrightarrow> (\<exists>n. dir (q_at st q) = df_dir @ n \<and> 0 < calctimeout n))
     \<and> inj_on (\<lambda>q. strip_slash (place st q)) {-2..qm_countq st}"

text \<open>
  Where the file of one inode is: always under its own number, in at most one place besides the active directory, in a
  queue's directory exactly when the message is in the queue; a message in work is in the queue it was sent from.
\<close>

definition filed :: "qm \<Rightarrow> ino_t \<Rightarrow> bool" where
  "filed st ino \<longleftrightarrow>
     (\<forall>q. held st q \<longrightarrow> file_of st q ino = None \<or> file_of st q ino = Some ino)
     \<and> (\<forall>q q'. held st q \<and> held st q' \<and> q \<noteq> ACT \<and> q' \<noteq> ACT \<and> file_of st q ino \<noteq> None \<and> file_of st q' ino \<noteq> None \<longrightarrow> q = q')
     \<and> (\<forall>q. 0 \<le> q \<and> q \<le> qm_countq st \<longrightarrow> (file_of st q ino \<noteq> None \<longleftrightarrow> ino \<in> inodes st q))
     \<and> (\<forall>m \<in> set (live (q_at st ACT)). m_inode m = ino \<longrightarrow> ino \<in> inodes st (m_state m))"

definition stored :: "qm \<Rightarrow> bool" where
  "stored st \<longleftrightarrow> dirs_ok st \<and> (\<forall>q. 0 \<le> q \<and> q \<le> qm_countq st \<longrightarrow> distinct (map m_inode (live (q_at st q)))) \<and> (\<forall>ino. filed st ino)"

lemma filedD:
  assumes "filed st ino"
  shows "held st q \<Longrightarrow> file_of st q ino = None \<or> file_of st q ino = Some ino"
    and "held st q \<Longrightarrow> held st q' \<Longrightarrow> q \<noteq> ACT \<Longrightarrow> q' \<noteq> ACT \<Longrightarrow> file_of st q ino \<noteq> None \<Longrightarrow> file_of st q' ino \<noteq> None \<Longrightarrow> q = q'"
    and "0 \<le> q \<Longrightarrow> q \<le> qm_countq st \<Longrightarrow> file_of st q ino \<noteq> None \<longleftrightarrow> ino \<in> inodes st q"
    and "m \<in> set (live (q_at st ACT)) \<Longrightarrow> m_inode m = ino \<Longrightarrow> ino \<in> inodes st (m_state m)"
  using assms unfolding filed_def by blast+

lemma filedI:
  assumes "\<And>q. held st q \<Longrightarrow> file_of st q ino = None \<or> file_of st q ino = Some ino"
    and "\<And>q q'. held st q \<Longrightarrow> held st q' \<Longrightarrow> q \<noteq> ACT \<Longrightarrow> q' \<noteq> ACT \<Longrightarrow> file_of st q ino \<noteq> None \<Longrightarrow> file_of st q' ino \<noteq> None \<Longrightarrow> q = q'"
    and "\<And>q. 0 \<le> q \<Longrightarrow> q \<le> qm_countq st \<Longrightarrow> file_of st q ino \<noteq> None \<longleftrightarrow> ino \<in> inodes st q"
    and "\<And>m. m \<in> set (live (q_at st ACT)) \<Longrightarrow> m_inode m = ino \<Longrightarrow> ino \<in> inodes st (m_state m)"
  shows "filed st ino"
  using assms unfolding filed_def by blast

section \<open>Steps keep the places\<close>

lemma becomes_place: "becomes st st' f \<Longrightarrow> -2 \<le> q \<Longrightarrow> place st' q = place st q"
  by (auto simp: place_def becomes_def DROP_def FAIL_def)

lemma becomes_dirs_ok:
  assumes b: "becomes st st' f" and d: "dirs_ok st"
  shows "dirs_ok st'"
proof -
  have "place st' q = place st q" if "-2 \<le> q" for q using becomes_place [OF b that] .
  then have "inj_on (\<lambda>q. strip_slash (place st' q)) {-2..qm_countq st}" using d by (simp add: dirs_ok_def inj_on_def)
  then show ?thesis using d b by (auto simp: dirs_ok_def becomes_def ACT_def IN_def)
qed

lemma path_eq:
  assumes "dirs_ok st" and "held st q" and "held st q'"
  shows "mk_path (place st q) (fmt_ld i) = mk_path (place st q') (fmt_ld i') \<longleftrightarrow> q = q' \<and> i = i'"
  using assms by (auto simp: mk_path_eq fmt_ld_inj dirs_ok_def inj_on_def)

lemma held_special [simp]:
  assumes "qm_inv st"
  shows "held st ACT" "held st IN" "held st DROP" "held st FAIL"
  using qinv_wf(3,4) [OF assms] by (auto simp: ACT_def IN_def DROP_def FAIL_def)

lemma place_que: "0 \<le> q \<Longrightarrow> place st q = dir (q_at st q)"
  by (simp add: place_def DROP_def FAIL_def)

text \<open>Messages of other inodes are where they were.\<close>

lemma filed_frame:
  assumes b: "becomes st st' f" and f: "filed st x" and inv: "qm_inv st"
    and eq: "\<And>q xs m. m_inode m = x \<Longrightarrow> m \<in> set (f q xs) \<longleftrightarrow> m \<in> set xs"
    and fl: "\<And>q. held st q \<Longrightarrow> file_of st' q x = file_of st q x"
  shows "filed st' x"
proof -
  have c: "qm_countq st' = qm_countq st" using becomesD(1) [OF b] .
  have m: "m \<in> set (live (q_at st' q)) \<longleftrightarrow> m \<in> set (live (q_at st q))" if "0 \<le> q" "m_inode m = x" for q m
    using becomesD(2) [OF b that(1)] eq [OF that(2)] by simp
  have i: "x \<in> inodes st' q \<longleftrightarrow> x \<in> inodes st q" if "0 \<le> q" for q
    using m [OF that] by (auto simp: inodes_def)
  have "0 \<le> m_state m" if "m \<in> set (live (q_at st ACT))" for m using that inv by (auto simp: qm_inv_def)
  then show ?thesis using f i m fl unfolding filed_def c by (auto simp: ACT_def)
qed

text \<open>A message that is filed at place \<open>a\<close> is filed nowhere else, and in the queue of that place only.\<close>

lemma filed_only:
  assumes f: "filed st ino" and a: "held st a" "a \<noteq> ACT" "file_of st a ino \<noteq> None"
  shows "file_of st a ino = Some ino" "held st q \<Longrightarrow> q \<noteq> ACT \<Longrightarrow> q \<noteq> a \<Longrightarrow> file_of st q ino = None"
    "1 \<le> q \<Longrightarrow> q \<le> qm_countq st \<Longrightarrow> ino \<in> inodes st q \<longleftrightarrow> q = a"
proof -
  show 1: "file_of st a ino = Some ino" using f a(1,3) by (auto simp: filed_def)
  show 2: "file_of st q ino = None" if "held st q" "q \<noteq> ACT" "q \<noteq> a" for q
    using f a that unfolding filed_def by metis
  show "ino \<in> inodes st q \<longleftrightarrow> q = a" if "1 \<le> q" "q \<le> qm_countq st"
  proof -
    have "file_of st q ino \<noteq> None \<longleftrightarrow> ino \<in> inodes st q" using f that by (simp add: filed_def)
    then show ?thesis using 1 2 [of q] that by (cases "q = a") (auto simp: ACT_def)
  qed
qed

text \<open>A message goes from place \<open>a\<close> to place \<open>b\<close> or, when \<open>b\<close> is none, away; no message with its inode is in work then.\<close>

lemma filed_moved:
  assumes f: "filed st ino" and inv: "qm_inv st" and b: "becomes st st' g" and a: "held st a" "a \<noteq> ACT" "file_of st a ino \<noteq> None"
    and fl: "\<And>q. held st q \<Longrightarrow> file_of st' q ino
      = (if Some q = b then Some ino else if q = a \<or> q = ACT then None else file_of st q ino)"
    and b': "b \<noteq> Some ACT" and i: "\<And>q. 0 \<le> q \<Longrightarrow> q \<le> qm_countq st \<Longrightarrow> ino \<in> inodes st' q \<longleftrightarrow> Some q = b"
  shows "filed st' ino"
proof -
  have c: "qm_countq st' = qm_countq st" using becomesD(1) [OF b] .
  have n: "file_of st' q ino = (if Some q = b then Some ino else None)" if "held st q" for q
    using fl [OF that] filed_only(2) [OF f a that] by auto
  have "ino \<notin> inodes st' ACT" using i [of ACT] b' held_special(1) [OF inv] by (auto simp: ACT_def)
  then have "m_inode m \<noteq> ino" if "m \<in> set (live (q_at st' ACT))" for m using that by (auto simp: inodes_def)
  then show ?thesis using n i unfolding filed_def c by (auto split: if_splits)
qed

text \<open>The message in work and its file.\<close>

lemma in_work_filed:
  assumes inv: "qm_inv st" and w: "in_work st ino s" and f: "filed st ino"
  shows "file_of st s ino \<noteq> None" "ino \<in> inodes st s"
proof -
  obtain k where k: "first_idx (\<lambda>m. m_inode m = ino) (live (q_at st ACT)) = Some k" "s = m_state (live (q_at st ACT) ! k)"
    using w by (auto simp: in_work_def)
  then have "live (q_at st ACT) ! k \<in> set (live (q_at st ACT))" "m_inode (live (q_at st ACT) ! k) = ino"
    using first_idx_Some [OF k(1)] by simp_all
  then show i: "ino \<in> inodes st s" using f k(2) by (auto simp: filed_def)
  show "file_of st s ino \<noteq> None" using i f in_work_range(1,2) [OF inv w] by (auto simp: filed_def)
qed

lemma without_iff: "distinct (map m_inode xs) \<Longrightarrow> m \<in> set (without ino xs) \<longleftrightarrow> m \<in> set xs \<and> m_inode m \<noteq> ino"
  using set_remove_first_distinct by fastforce

lemma without_other: "m_inode m \<noteq> ino \<Longrightarrow> m \<in> set (without ino xs) \<longleftrightarrow> m \<in> set xs"
  by (induction xs) auto

lemma inodes_without:
  assumes "live (q_at st' q) = without ino (live (q_at st q))" and "distinct (map m_inode (live (q_at st q)))"
  shows "ino \<notin> inodes st' q"
  using assms without_iff by (auto simp: inodes_def)

lemma renamed_moves: "fs src \<noteq> None \<Longrightarrow> fs dst = None \<Longrightarrow> renamed src dst fs = fs(src := None, dst := fs src)"
  by (auto simp: renamed_def)

lemma stored_moved:
  assumes st: "stored st" and inv: "qm_inv st" and b: "becomes st st' g" and a: "held st a" "a \<noteq> ACT" "file_of st a ino \<noteq> None"
    and fl: "\<And>q x. held st q \<Longrightarrow> file_of st' q x
      = (if x \<noteq> ino then file_of st q x else if Some q = c then Some ino else if q = a \<or> q = ACT then None else file_of st q x)"
    and g: "\<And>m q xs. m_inode m \<noteq> ino \<Longrightarrow> m \<in> set (g q xs) \<longleftrightarrow> m \<in> set xs"
    and c: "c \<noteq> Some ACT" and i: "\<And>q. 0 \<le> q \<Longrightarrow> q \<le> qm_countq st \<Longrightarrow> ino \<in> inodes st' q \<longleftrightarrow> Some q = c"
    and dist: "\<And>q. 0 \<le> q \<Longrightarrow> q \<le> qm_countq st \<Longrightarrow> distinct (map m_inode (live (q_at st' q)))"
  shows "stored st'"
proof -
  have d: "dirs_ok st" and f: "filed st x" for x using st by (simp_all add: stored_def)
  have "filed st' x" if "x \<noteq> ino" for x
    by (rule filed_frame [OF b f inv]) (use fl that g in auto)
  moreover have "filed st' ino"
    by (rule filed_moved [OF f inv b a _ c i]) (use fl in auto)
  ultimately have "filed st' x" for x by metis
  then show ?thesis using becomes_dirs_ok [OF b d] becomesD(1) [OF b] dist by (simp add: stored_def)
qed

text \<open>A message in work leaves its queue and the active one; it goes to place \<open>c\<close> or away.\<close>

lemma stored_leave:
  assumes st: "stored st" and inv: "qm_inv st" and w: "in_work st ino s"
    and b: "becomes st st' (\<lambda>j xs. if j = ACT \<or> j = s then without ino xs else if Some j = c then xs @ [e] else xs)"
    and c: "c \<noteq> Some s" "c \<noteq> Some ACT" "m_inode e = ino"
    and fl: "\<And>q x. held st q \<Longrightarrow> file_of st' q x
      = (if x \<noteq> ino then file_of st q x else if Some q = c then Some ino else if q = s \<or> q = ACT then None else file_of st q x)"
  shows "stored st'"
proof -
  note rg = in_work_range [OF inv w]
  have f: "filed st x" for x using st by (simp add: stored_def)
  have h: "held st s" "s \<noteq> ACT" using rg by simp_all
  note src = in_work_filed [OF inv w f]
  have dist: "distinct (map m_inode (live (q_at st q)))" if "0 \<le> q" "q \<le> qm_countq st" for q using st that by (simp add: stored_def)
  have out: "ino \<notin> inodes st q" if "0 \<le> q" "q \<le> qm_countq st" "q \<noteq> ACT" "q \<noteq> s" for q
    using filed_only(3) [OF f h src(1), of q] that by (simp add: ACT_def)
  show ?thesis
  proof (rule stored_moved [OF st inv b h src(1) fl _ c(2)])
    show "m \<in> set (if q = ACT \<or> q = s then without ino xs else if Some q = c then xs @ [e] else xs) \<longleftrightarrow> m \<in> set xs"
      if "m_inode m \<noteq> ino" for m q xs using without_other [OF that] that c(3) by auto
    show "ino \<in> inodes st' q \<longleftrightarrow> Some q = c" if "0 \<le> q" "q \<le> qm_countq st" for q
      using becomesD(2) [OF b that(1)] out [OF that] c inodes_without [OF _ dist [OF that]]
      by (cases "q = ACT \<or> q = s") (auto simp: inodes_def)
    show "distinct (map m_inode (live (q_at st' q)))" if "0 \<le> q" "q \<le> qm_countq st" for q
      using becomesD(2) [OF b that(1)] dist [OF that] distinct_remove_first out [OF that] c(3) by (auto simp: inodes_def)
  qed
qed

lemma becomes_cong: "becomes st st' f \<Longrightarrow> (\<And>j xs. 0 \<le> j \<Longrightarrow> f j xs = g j xs) \<Longrightarrow> becomes st st' g"
  by (simp add: becomes_def)

text \<open>Files renamed from place \<open>a\<close>, where the file is, to place \<open>b\<close>, where none is.\<close>

lemma renamed_file:
  assumes d: "dirs_ok st" and h: "held st a" "held st b" "held st q" "a \<noteq> b"
    and f: "fs (mk_path (place st a) (fmt_ld ino)) = Some ino" "fs (mk_path (place st b) (fmt_ld ino)) = None"
  shows "renamed (mk_path (place st a) (fmt_ld ino)) (mk_path (place st b) (fmt_ld ino)) fs (mk_path (place st q) (fmt_ld x))
    = (if x \<noteq> ino then fs (mk_path (place st q) (fmt_ld x)) else if q = b then Some ino else if q = a then None
       else fs (mk_path (place st q) (fmt_ld x)))"
  using path_eq [OF d h(3,1)] path_eq [OF d h(3,2)] path_eq [OF d h(1,2)] h(4) f by (simp add: renamed_moves)

lemma stored_respond:
  assumes inv: "qm_inv st" and w: "in_work st ino s" and r: "respond env ino code s st = Inr (r, st')" and st: "stored st"
  shows "stored st'"
proof -
  note rg = in_work_range [OF inv w]
  have d: "dirs_ok st" and f: "filed st x" for x using st by (simp_all add: stored_def)
  have h: "held st s" "s \<noteq> ACT" "held st ACT" "held st FAIL" using rg held_special [OF inv] by simp_all
  have src: "file_of st s ino \<noteq> None" using in_work_filed [OF inv w f] by blast
  note only = filed_only [OF f h(1,2) src]
  have pl: "mk_path act_dir (fmt_ld ino) = mk_path (place st ACT) (fmt_ld ino)"
      "mk_path (dir (q_at st s)) (fmt_ld ino) = mk_path (place st s) (fmt_ld ino)"
      "mk_path (dir (q_at st (s + 1))) (fmt_ld ino) = mk_path (place st (s + 1)) (fmt_ld ino)"
      "mk_path fail_dir (fmt_ld ino) = mk_path (place st FAIL) (fmt_ld ino)"
    using d rg(1) by (simp_all add: dirs_ok_def place_def DROP_def FAIL_def ACT_def)
  let ?fs = "(qm_fs st)(mk_path (place st ACT) (fmt_ld ino) := None)"
  have fs: "?fs (mk_path (place st q) (fmt_ld x)) = (if x = ino \<and> q = ACT then None else file_of st q x)" if "held st q" for q x
    using path_eq [OF d that h(3)] by (simp add: file_of_def)
  have fa: "?fs (mk_path (place st s) (fmt_ld ino)) = Some ino" using fs [OF h(1)] h(2) only(1) by simp
  from inv w r show ?thesis
  proof (cases rule: respond_becomes)
    case delivered
    have "file_of st' q x = (if x = ino \<and> (q = s \<or> q = ACT) then None else file_of st q x)" if "held st q" for q x
      using delivered(3) becomes_place [OF delivered(2)] path_eq [OF d that h(1)] path_eq [OF d that h(3)] pl that
      by (simp add: file_of_def)
    then show ?thesis
      by (intro stored_leave [OF st inv w, of st' None "elem_new ino (Timeval 0 0) 0"] becomes_cong [OF delivered(2)]) (auto simp: elem_new_def)
  next
    case received
    have "filed st' x" for x
      by (rule filed_frame [OF received(2) f inv]) (use becomes_place [OF received(2)] received(3) in \<open>auto simp: file_of_def\<close>)
    then show ?thesis using st becomes_dirs_ok [OF received(2) d] received(2) by (simp add: stored_def becomes_def)
  next
    case (failed fs0)
    have "?fs (mk_path (place st FAIL) (fmt_ld ino)) = None" using fs [OF h(4)] only(2) [OF h(4)] rg(1) by (auto simp: FAIL_def ACT_def)
    moreover have "s \<noteq> FAIL" using rg(1) by (simp add: FAIL_def)
    ultimately have "file_of st' q x = (if x \<noteq> ino then file_of st q x else if Some q = Some FAIL then Some ino
        else if q = s \<or> q = ACT then None else file_of st q x)" if "held st q" for q x
      using renamed_file [where fs = ?fs and ino = ino and x = x, OF d h(1,4) that _ fa] failed(4,7) pl becomes_place [OF failed(6), of q] that fs [OF that]
      by (simp add: file_of_def)
    then show ?thesis
      by (intro stored_leave [OF st inv w, of st' "Some FAIL" "elem_new ino (Timeval 0 0) 0"] becomes_cong [OF failed(6)])
        (use rg in \<open>auto simp: elem_new_def FAIL_def ACT_def\<close>)
  next
    case (put_off fs0)
    have h1: "held st (s + 1)" "s + 1 \<noteq> ACT" using put_off(3) rg(1) by (simp_all add: ACT_def)
    have "?fs (mk_path (place st (s + 1)) (fmt_ld ino)) = None" using fs [OF h1(1)] only(2) [OF h1] by auto
    then have "file_of st' q x = (if x \<noteq> ino then file_of st q x else if Some q = Some (s + 1) then Some ino
        else if q = s \<or> q = ACT then None else file_of st q x)" if "held st q" for q x
      using renamed_file [where fs = ?fs and ino = ino and x = x, OF d h(1) h1(1) that _ fa] put_off(4,7) pl becomes_place [OF put_off(6), of q] that fs [OF that]
      by (simp add: file_of_def)
    then show ?thesis
      by (intro stored_leave [OF st inv w, of st' "Some (s + 1)" "elem_new ino (Timeval 0 0) (s + 1)"] becomes_cong [OF put_off(6)])
        (use h1 in \<open>auto simp: elem_new_def\<close>)
  qed
qed

text \<open>A message is linked into the active directory only when no message with its inode is in work.\<close>

lemma stored_dispatch:
  assumes inv: "qm_inv st" and q: "1 \<le> q" "q \<le> qm_countq st" and i: "ino \<in> inodes st q"
    and dsp: "dispatch env q ino st = Inr st'" and st: "stored st"
  shows "stored st'"
proof -
  have d: "dirs_ok st" and f: "filed st x" for x using st by (simp_all add: stored_def)
  have qa: "q \<noteq> ACT" "held st q" using q by (simp_all add: ACT_def)
  have ha: "held st ACT" using held_special(1) [OF inv] .
  note b = dispatch_becomes [OF inv qa(1) dsp] and law = dispatch_law [OF inv qa(1) dsp]
  have pl: "dir (q_at st ACT) = place st ACT" "dir (q_at st q) = place st q" using q(1) by (simp_all add: place_def DROP_def FAIL_def ACT_def)
  have fq: "file_of st q ino = Some ino" using filedD(1) [OF f qa(2), of ino] filedD(3) [OF f _ q(2), of ino] i q(1) by auto
  have fl: "file_of st' j x = (if x = ino \<and> j = ACT then Some ino else file_of st j x)" if "held st j" for j x
    using law(7) becomes_place [OF b, of j] path_eq [OF d that ha, of x ino] that fq by (simp add: file_of_def pl)
  obtain r fs where "cpfile (mk_path (place st q) (fmt_ld ino)) (mk_path (place st ACT) (fmt_ld ino)) (qm_fs st) = (r, fs)" "0 \<le> r"
    using dispatch_eff [OF inv qa(1) dsp] unfolding pl by blast
  then have "file_of st ACT ino = None"
    by (auto simp: cpfile_def sys_link_def file_of_def split: option.splits if_splits)
  then have na: "ino \<notin> inodes st ACT" using f [of ino] ha by (auto simp: filed_def ACT_def)
  have other: "filed st' x" if "x \<noteq> ino" for x
    by (rule filed_frame [OF b f inv]) (use fl that in \<open>auto simp: elem_new_def\<close>)
  have c: "qm_countq st' = qm_countq st" using becomesD(1) [OF b] .
  have in': "x \<in> inodes st' j \<longleftrightarrow> x \<in> inodes st j \<or> (j = ACT \<and> x = ino)" if "0 \<le> j" for x j
    using becomesD(2) [OF b that] by (auto simp: inodes_def elem_new_def)
  have own: "m_inode m = ino \<longrightarrow> ino \<in> inodes st' (m_state m)" if "m \<in> set (live (q_at st' ACT))" for m
  proof -
    have "m \<in> set (live (q_at st ACT)) \<or> m = elem_new ino (Timeval 0 0) q" using that law(1) by auto
    moreover have "m_inode m \<noteq> ino" if "m \<in> set (live (q_at st ACT))" using na that by (auto simp: inodes_def)
    moreover have "m_state (elem_new ino (Timeval 0 0) q) = q" by (simp add: elem_new_def)
    moreover have "ino \<in> inodes st' q" using in' [of q ino] i q(1) by simp
    ultimately show ?thesis by metis
  qed
  have "filed st' ino"
  proof (rule filedI, unfold c)
    show "file_of st' j ino = None \<or> file_of st' j ino = Some ino" if "held st j" for j
      using fl [OF that, of ino] filedD(1) [OF f that, of ino] by simp
    show "j = k" if "held st j" "held st k" "j \<noteq> ACT" "k \<noteq> ACT" "file_of st' j ino \<noteq> None" "file_of st' k ino \<noteq> None" for j k
      using filedD(2) [OF f that(1-4)] that(5,6) fl [OF that(1)] fl [OF that(2)] that(3,4) by simp
    show "file_of st' j ino \<noteq> None \<longleftrightarrow> ino \<in> inodes st' j" if "0 \<le> j" "j \<le> qm_countq st" for j
      using filedD(3) [OF f that, of ino] fl [of j ino] in' [OF that(1), of ino] that by simp
  qed (use own in blast)
  then have "filed st' x" for x using other by metis
  moreover have "distinct (map m_inode (live (q_at st' j)))" if "0 \<le> j" "j \<le> qm_countq st" for j
    using becomesD(2) [OF b that(1)] st that na by (auto simp: stored_def inodes_def elem_new_def)
  ultimately show ?thesis using becomes_dirs_ok [OF b d] c by (simp add: stored_def)
qed

text \<open>Entries of the drop directory are named by their inode number, in decimal and without anything else.\<close>

definition own_name :: "drop_entry \<Rightarrow> bool" where
  "own_name e \<longleftrightarrow> (\<forall>ino sec nsec. de_stat e = Some (ino, sec, nsec) \<longrightarrow> de_name e = fmt_ld ino)"

text \<open>A file in the drop directory is that of no message.\<close>

lemma dropped_not_queued:
  assumes inv: "qm_inv st" and f: "filed st ino" and fd: "file_of st DROP ino \<noteq> None" and q: "0 \<le> q" "q \<le> qm_countq st"
  shows "ino \<notin> inodes st q"
proof -
  have ne: "DROP \<noteq> ACT" by (simp add: DROP_def ACT_def)
  note only = filed_only(3) [OF f held_special(3) [OF inv] ne fd]
  show ?thesis
  proof (cases "q = ACT")
    case False
    then show ?thesis using only [of q] q by (auto simp: DROP_def ACT_def)
  next
    case True
    have "m_inode m \<noteq> ino" if "m \<in> set (live (q_at st ACT))" for m
    proof
      assume "m_inode m = ino"
      then have "ino \<in> inodes st (m_state m)" using that f by (auto simp: filed_def)
      moreover have "1 \<le> m_state m" "m_state m \<le> qm_countq st" using that inv by (auto simp: qm_inv_def)
      ultimately show False using only by (auto simp: DROP_def)
    qed
    then show ?thesis using True by (auto simp: inodes_def)
  qed
qed

lemma stored_take:
  assumes inv: "qm_inv st" and m: "mvfile os (mk_path drop_dir (fmt_ld ino)) (mk_path (dir (q_at st IN)) (fmt_ld ino)) (qm_fs st) = (r, fs)" "\<not> r < 0"
    and l: "live l = live (q_at st IN) @ [elem_new ino tv IN]" "dir l = dir (q_at st IN)" and st: "stored st"
  shows "stored (set_que IN l (st\<lparr>qm_fs := fs\<rparr>))"
proof -
  let ?st = "set_que IN l (st\<lparr>qm_fs := fs\<rparr>)"
  have d: "dirs_ok st" and f: "filed st x" for x using st by (simp_all add: stored_def)
  note h = held_special [OF inv]
  have ne: "DROP \<noteq> ACT" "IN \<noteq> ACT" "IN \<noteq> DROP" by (simp_all add: DROP_def ACT_def IN_def)
  have pl: "drop_dir = place st DROP" "dir (q_at st IN) = place st IN" by (simp_all add: place_def DROP_def FAIL_def IN_def)
  obtain i where i: "file_of st DROP ino = Some i"
      "fs = renamed (mk_path drop_dir (fmt_ld ino)) (mk_path (dir (q_at st IN)) (fmt_ld ino)) (qm_fs st)"
  proof -
    obtain i where i: "qm_fs st (mk_path drop_dir (fmt_ld ino)) = Some i"
        "fs = (if qm_fs st (mk_path (dir (q_at st IN)) (fmt_ld ino)) = Some i then qm_fs st
          else (qm_fs st)(mk_path drop_dir (fmt_ld ino) := None, mk_path (dir (q_at st IN)) (fmt_ld ino) := Some i))"
      using mvfile_eff [OF m] .
    show ?thesis by (rule that [of i]) (use i pl(1) in \<open>simp_all add: file_of_def renamed_def\<close>)
  qed
  then have fd: "file_of st DROP ino \<noteq> None" by simp
  note only = filed_only [OF f h(3) ne(1) fd]
  note out = dropped_not_queued [OF inv f fd]
  have b: "becomes st ?st (\<lambda>j xs. if j = IN then xs @ [elem_new ino tv IN] else xs)"
    by (rule set_que_becomes) (use qinv_wf(3) [OF inv] l in simp_all)
  have fa: "file_of st ACT ino = None" using f [of ino] out [of ACT] h(1) by (auto simp: filed_def ACT_def)
  have "qm_fs st (mk_path (place st DROP) (fmt_ld ino)) = Some ino" "qm_fs st (mk_path (place st IN) (fmt_ld ino)) = None"
    using only(1) only(2) [OF h(2) ne(2,3)] by (simp_all add: file_of_def)
  then have fl: "file_of ?st q x = (if x \<noteq> ino then file_of st q x else if Some q = Some IN then Some ino
      else if q = DROP \<or> q = ACT then None else file_of st q x)" if "held st q" for q x
    using renamed_file [where fs = "qm_fs st" and ino = ino and x = x, OF d h(3,2) that ne(3) [symmetric]]
      becomes_place [OF b, of q] that i(2) fa by (auto simp: file_of_def pl)
  show ?thesis
  proof (rule stored_moved [OF st inv b h(3) ne(1) fd fl])
    show "ino \<in> inodes ?st q \<longleftrightarrow> Some q = Some IN" "distinct (map m_inode (live (q_at ?st q)))" if "0 \<le> q" "q \<le> qm_countq st" for q
      using becomesD(2) [OF b that(1)] out [OF that] st that by (auto simp: inodes_def elem_new_def stored_def)
  qed (use ne in \<open>auto simp: elem_new_def\<close>)
qed

lemma filed_cong:
  assumes "\<And>q. held a q \<Longrightarrow> file_of b q x = file_of a q x" and "qm_countq b = qm_countq a"
    and "\<And>q. 0 \<le> q \<Longrightarrow> set (live (q_at b q)) = set (live (q_at a q))" and "filed a x" and "qm_inv a"
  shows "filed b x"
proof -
  have "inodes b q = inodes a q" if "0 \<le> q" for q using assms(3) [OF that] by (simp add: inodes_def)
  moreover have "0 \<le> m_state m" if "m \<in> set (live (q_at a ACT))" for m using that assms(5) by (auto simp: qm_inv_def)
  ultimately show ?thesis using assms(1,3,4) unfolding filed_def assms(2) by (auto simp: ACT_def)
qed

lemma stored_sort:
  assumes inv: "qm_inv st" and l: "mset (live l) = mset (live (q_at st IN))" "dir l = dir (q_at st IN)" and st: "stored st"
  shows "stored (set_que IN l st)"
proof -
  let ?st = "set_que IN l st"
  have at: "q_at ?st q = (if q = IN then l else q_at st q)" if "0 \<le> q" for q using q_at_set [OF qinv_wf(3) [OF inv] that] .
  have "mset (map m_inode (live l)) = mset (map m_inode (live (q_at st IN)))" using l(1) by (metis mset_map)
  then have "distinct (map m_inode (live l)) = distinct (map m_inode (live (q_at st IN)))" by (rule mset_eq_imp_distinct_iff)
  then have s: "set (live (q_at ?st q)) = set (live (q_at st q))" "dir (q_at ?st q) = dir (q_at st q)"
      "distinct (map m_inode (live (q_at ?st q))) = distinct (map m_inode (live (q_at st q)))" if "0 \<le> q" for q
    using at [OF that] l(2) mset_eq_setD [OF l(1)] by (cases "q = IN"; simp)+
  have p: "place ?st q = place st q" if "-2 \<le> q" for q using s(2) [of q] that by (auto simp: place_def DROP_def FAIL_def)
  have "dirs_ok ?st" using st p s(2) by (simp add: stored_def dirs_ok_def ACT_def IN_def inj_on_def)
  moreover have "filed ?st x" for x
    by (rule filed_cong [OF _ _ s(1) _ inv]) (use st p in \<open>auto simp: stored_def file_of_def\<close>)
  ultimately show ?thesis using st s(3) by (simp add: stored_def)
qed

lemma stored_frame:
  assumes "qm_list b = qm_list a" and "qm_countq b = qm_countq a" and "qm_fs b = qm_fs a"
  shows "stored b = stored a"
proof -
  have q: "q_at b q = q_at a q" for q using assms(1) by (simp add: q_at_def)
  then have "place b q = place a q" for q by (simp add: place_def)
  then show ?thesis using assms q by (simp add: stored_def dirs_ok_def filed_def inodes_def file_of_def)
qed

interpretation files: turn_kept "\<lambda>R a b. stored a \<longrightarrow> stored b" own_name
proof (unfold_locales, goal_cases)
  case (3 b a)
  then show ?case using stored_frame by blast
next
  case (4 st ino s env code r st')
  then show ?case using stored_respond by blast
next
  case (5 st q ino env st')
  then show ?case using stored_dispatch by blast
next
  case (6 st e ino sec nsec os r fs l)
  then have "de_name e = fmt_ld ino" by (simp add: own_name_def)
  then show ?case using stored_take 6 by simp
next
  case (7 st l)
  then show ?case using stored_sort by blast
qed blast+

end
