(* ===== verification/QuemngrRestart.thy ===== *)
theory QuemngrRestart
  imports QuemngrFiles
begin

text \<open>
  Starts and restarts of the queue manager on a spool directory: the start takes over what the directories hold, the
  queues match the directories in every state that follows, and a new start finds every message that was queued.
\<close>

section \<open>The spool at the start\<close>











section \<open>The directories of the queues\<close>







section \<open>The messages restored\<close>





section \<open>The start\<close>








section \<open>Reachable states of a well-kept spool\<close>









definition demo_df :: "df_entry list" where
  "demo_df = [\<lparr>df_name = ''00h01m00s'', df_stat = Some True\<rparr>]"









section \<open>A new start\<close>


















section \<open>Links left in the active directory\<close>






section \<open>A sort that is not stable\<close>

text \<open>
  The active and the input queue compare equal.  A \<open>qsort\<close> that swaps equal elements, which the language allows, makes
  \<open>./in/\<close> the active directory and \<open>./act/\<close> that of the input queue.
\<close>

definition demo_swapped :: "qm option" where
  "demo_swapped =
     (case quemngr_start demo_env demo_se (\<lambda>ql. sort_key timeout (rev ql)) (Some demo_df) (\<lambda>d. Some []) (Some []) (\<lambda>p. None) of
        Inl e \<Rightarrow> None
      | Inr st \<Rightarrow> Some st)"

lemma unstable_sort_swaps_queues:
  "is_qsort queue_comp (\<lambda>ql. sort_key timeout (rev ql))"
  "map_option (\<lambda>st. (dir (q_at st ACT), dir (q_at st IN))) demo_swapped = Some (in_dir, act_dir)"
proof -
  show "is_qsort queue_comp (\<lambda>ql. sort_key timeout (rev ql))"
    using is_qsort_timeout unfolding is_qsort_def by (metis mset_rev)
qed code_simp

end
