(* ===== verification/Spec2Isabelle.thy ===== *)
theory Spec2Isabelle
  imports HeapFunc QueControl IecLinkProps IecServer IecEnds SyslogClient QuemngrInput Logging Iec104Types IecProxyRun Gateway QuemngrRestart
begin

text \<open>
  A verification development for the programs of \<open>iec-utils\<close>: a gateway that delivers messages over
  an IEC 60870-5-104 link.

  \<^bold>\<open>The programs.\<close>  Messages are files in directories.  \<^verbatim>\<open>quemngr\<close> keeps a queue of messages per
  directory, hands messages to a child process, puts off the ones that could not be delivered to the
  next queue with a timer and gives up after the last one.  The child hands the ASDUs of a message,
  as lines of hexadecimal digits, to \<^verbatim>\<open>sockwrite\<close>, which copies them to the local socket of
  \<^verbatim>\<open>iecproxy\<close> and turns the one character it gets back into its exit status.  \<^verbatim>\<open>iecproxy\<close> accepts one
  client at a time, passes its lines to \<^verbatim>\<open>ieclink\<close> over a pipe, answers general interrogations with
  the output of a script and tells the client whether the message was confirmed.  \<^verbatim>\<open>ieclink\<close> sends
  the ASDUs as I frames through the link layer \<^verbatim>\<open>iecsock\<close>, which runs on libevent; \<^verbatim>\<open>server\<close> is a test
  program on the same layer.  \<^verbatim>\<open>syslogclient\<close> forwards log lines to a server.

  \<^bold>\<open>Conventions.\<close>  A C function is a function on an explicit state.  What a C program does instead of
  returning (an access outside an object or after \<open>free\<close>, a null pointer, an overflow, a failed
  \<open>assert\<close>, \<open>exit\<close>) is a value of \<open>fault\<close>, the left side of the sum type \<open>res\<close>.  What the operating
  system, libevent, a script, a child process or a peer answers is an argument, in records such as
  \<open>env\<close>, \<open>qenv\<close>, \<open>pxenv\<close>, \<open>sw_env\<close>; what a program does to them is recorded in its state, for a connection
  in the call trace \<open>io_log\<close>.  Numbers whose width matters are words.

  \<^bold>\<open>Theories and sources.\<close>
  \<^item> \<open>Prelude\<close>: C types, faults, time stamps, lists with index swaps, functions of the C library.
  \<^item> \<open>Interfaces\<close>: the locales \<open>prio_queue\<close> and \<open>keyed_list\<close>, the contracts of the queue manager with its
    data structures, and what a client gets from their laws.
  \<^item> \<open>HeapFunc\<close> (\<^verbatim>\<open>quemngr/heapfunc.c\<close>): the array heap of timers; it interprets \<open>prio_queue\<close>.  Inserting
    keeps the heap order and the array bounds; extracting hands out all timers in order of expiry.
  \<^item> \<open>QueControl\<close> (\<^verbatim>\<open>quemngr/quecontrol.c\<close>): the growing pointer arrays; they interpret \<open>keyed_list\<close>.
    Adding, finding and deleting fit together; restoring reads a directory; sorting orders by time.
  \<^item> \<open>Utils\<close> (\<^verbatim>\<open>quemngr/utils.c\<close>): moving and linking files on a map from paths to inodes, delays read from
    directory names, the clock.
  \<^item> \<open>Quemngr\<close> (\<^verbatim>\<open>quemngr/quemngr.c\<close>): state, handlers of responses, timers, signals and dropped files,
    flushing, the command line and start-up, and \<open>main_turn\<close>, one turn of the main loop.
  \<^item> \<open>QuemngrProps\<close>, \<open>QuemngrTurns\<close>, \<open>QuemngrSafety\<close>: the invariant \<open>qm_inv\<close>, that every handler and
    every turn keeps it, the reachable states \<open>qm_reach\<close>, and that under the invariant no turn makes an
    invalid memory access.
  \<^item> \<open>QuemngrMain\<close>, \<open>QuemngrDelivery\<close>, \<open>QuemngrFlush\<close>: the windows in every reachable state, what happens to a
    message on each response and timer, and that flushing ends with empty queues if the child answers.
  \<^item> \<open>QuemngrInput\<close>: the loop around \<open>fscanf\<close> that reads the responses of the child; well-formed lines are read
    back, and what happens to others.
  \<^item> \<open>QuemngrKeeps\<close>: what each step does to the contents of the queues and to the files; the locale \<open>turn_kept\<close>, which
    carries what every step keeps over to whole turns of the main loop.
  \<^item> \<open>QuemngrLedger\<close>, \<open>QuemngrFiles\<close>: two interpretations of it.  \<open>ledger\<close>: a queued message stays queued until it is
    delivered or given up.  \<open>stored\<close>: the messages of a queue are the files of its directory, each in one place.
  \<^item> \<open>QuemngrRestart\<close>: the start establishes \<open>stored\<close>; the reachable states \<open>spool_reach\<close> of a spool where files are dropped
    under their inode numbers and \<open>qsort\<close> is stable; a new start finds all messages; a link left in the active directory
    ends the manager, and a sort that is not stable may swap the active and the input queue.
  \<^item> \<open>IecFrame\<close> (\<^verbatim>\<open>iecsock.h\<close>, \<^verbatim>\<open>iecsock_internal.h\<close>): headers with bit fields, frame types, building frames;
    frames read back as what they were built from.
  \<^item> \<open>IecSock\<close> (\<^verbatim>\<open>iecsock.c\<close>): sending, receiving, timers, opening and closing connections.
  \<^item> \<open>IecWindow\<close>: the send and receive windows; the step relation \<open>link_step\<close> of all events of a
    connection; the locales \<open>link_hooks\<close> and \<open>link_program\<close>, the contract of the link layer with a program
    that uses it, interpreted by \<open>IecLink\<close> and \<open>IecServer\<close>.
  \<^item> \<open>IecTransfer\<close>: received frames branch by branch; two ends together: what one end queues reaches the
    program of the other, in order and once.
  \<^item> \<open>IecLink\<close>, \<open>IecLinkProps\<close> (\<^verbatim>\<open>ieclink.c\<close>, \<^verbatim>\<open>xalloc.c\<close>): the client with its list of saved ASDUs in an
    explicit store; windows in all reachable states, order of ASDUs, round trip of lines.  The locale
    \<open>stdin_kept\<close> carries what the handling of a line keeps over to whole inputs.
  \<^item> \<open>IecServer\<close> (\<^verbatim>\<open>server.c\<close>): the test server.
  \<^item> \<open>IecRead\<close>: the loop of the read callback ends for every input; the locale \<open>input_hooks\<close>, interpreted for
    both programs.
  \<^item> \<open>IecSession\<close>, \<open>IecDuplex\<close>: a running end with unbounded counters, of which the numbers on the wire are the
    remainders modulo 32767; the locale \<open>session_end\<close>, what the link layer and a program promise each other
    while data transfer runs; two ends and the streams between them, the step relation \<open>duplex_step\<close>.
  \<^item> \<open>IecPair\<close>: the locale \<open>duplex_pair\<close>, two ends that keep that contract, and the invariant of \<open>duplex_step\<close>.
  \<^item> \<open>IecEnds\<close>: the client and the server's hooks interpret \<open>session_end\<close>, both together \<open>duplex_pair\<close>; while both
    send and receive in any order, no frame is refused and all payloads arrive in order.
  \<^item> \<open>Iec104Types\<close> (\<^verbatim>\<open>iec104_types.h\<close>, \<^verbatim>\<open>iec104.h\<close>): the structures of the application layer and their layout; the
    locale \<open>packed_struct\<close>, interpreted for each of them.
  \<^item> \<open>IecProxy\<close>, \<open>IecProxyProps\<close> (\<^verbatim>\<open>iecproxy.c\<close>): one turn of the poll loop, the line reader, signals and
    start-up; relaying of messages and verdicts, general interrogation.
  \<^item> \<open>IecProxyRun\<close>: the reachable states \<open>px_run\<close> of the proxy; clients are answered in the order in which they were
    accepted, none twice.
  \<^item> \<open>SockWrite\<close> (\<^verbatim>\<open>sockwrite.c\<close>): the whole program.
  \<^item> \<open>Gateway\<close>: a message from \<open>sockwrite\<close> through the proxy and the client to the frames on the
    wire, and the verdict back.
  \<^item> \<open>SyslogClient\<close> (\<^verbatim>\<open>syslogclient.c\<close>): ring buffer, connection, forwarding; the ring refines a bounded
    queue, lines are forwarded in order.
  \<^item> \<open>Logging\<close> (\<^verbatim>\<open>logging.c\<close>, \<^verbatim>\<open>logging.h\<close>): the log line and its truncation.

  \<^bold>\<open>Fuel and bounds.\<close>  \<open>bufreadcb\<close> takes fuel; \<open>IecRead\<close> shows that one turn per buffered octet and one more
  is enough, \<open>IecTransfer\<close> that two per frame and one are, so that \<open>receives\<close> gives it three
  for one frame.  \<open>flush_loop\<close> consumes one batch of responses per round and is \<open>None\<close> when it still waits after the last; \<open>QuemngrFlush\<close> shows that one batch per
  message is enough if the child confirms and delivers each message.  \<open>response_loop\<close> takes one
  unit of fuel per call of \<open>fscanf\<close>; \<open>QuemngrInput\<close> shows that one per line and one are enough for well-formed
  lines, and that for others none may be.  \<open>readline\<close> and \<open>client_loop\<close> are
  \<open>None\<close> when the descriptor has given everything and they still wait.  All other loops are total.

  \<^bold>\<open>Not modelled.\<close>  libevent (third party; its calls are recorded and its answers are arguments), the
  shell scripts, log output inside the other models (\<open>ERR_SYS\<close> there is
  the exit with status 2), \<open>SIGPIPE\<close>, lack of memory in \<^verbatim>\<open>quemngr/xalloc.c\<close>, truncation of paths at \<open>PATH_MAX\<close>, interruption of a handler or of a turn by a
  signal or a crash (states are compared between turns).  \<^verbatim>\<open>iec104.h\<close> declares a parser that no source file contains.
\<close>

end
